(* ===== verification/Prelude.thy ===== *)
theory Prelude
  imports Main "HOL-Library.State_Monad" "HOL-Library.Word" "HOL-Library.Sublist"
begin

text \<open>
  Shared vocabulary of the development: Go strings and byte slices, actions on a world,
  and the run equations that let the component proofs go by simplification.

  A Go \<open>string\<close> and a \<open>[]byte\<close> are both sequences of 8-bit values, and a conversion
  between them copies the bytes. Both are Isabelle's \<open>string\<close>: a \<open>char\<close> has exactly 256
  values and \<open>of_char\<close> reads its number.

  An operation that has effects is an action \<open>('w, 'a) state\<close> of
  \<open>HOL-Library.State_Monad\<close> on a world of type \<open>'w\<close>. The world stands for everything the
  repository does not define itself (kernel, bus daemon, helper process, clock), so it is
  a type variable and the outside operations are arguments.
\<close>

type_synonym bytes = string

abbreviation ret :: "'a \<Rightarrow> ('w, 'a) state" where
  "ret \<equiv> State_Monad.return"

named_theorems run_simps \<open>run equations of actions\<close>

declare run_state_return [run_simps] run_state_bind [run_simps]

lemma run_bind_eq [run_simps]:
  "run_state m w = (a, w') \<Longrightarrow> run_state (State_Monad.bind m f) w = run_state (f a) w'"
  by simp

lemma run_bindE:
  assumes "run_state (State_Monad.bind m f) w = (b, w'')"
  obtains a w' where "run_state m w = (a, w')" and "run_state (f a) w' = (b, w'')"
  using assms by (auto split: prod.splits)

lemma snd_run_bind_ret: "snd (run_state (m \<bind> (\<lambda>r. ret (f r))) w) = snd (run_state m w)"
  by (simp split: prod.splits)

lemma run_returnE:
  assumes "run_state (ret x) w = (y, w')"
  obtains "y = x" and "w' = w"
  using assms by auto

text \<open>
  The conditional, the option case and the sum case of an action run as the chosen branch.
\<close>

lemma run_if [run_simps]:
  "run_state (if b then m else n) w = (if b then run_state m w else run_state n w)"
  by simp

lemma run_case_option [run_simps]:
  "run_state (case x of None \<Rightarrow> m | Some y \<Rightarrow> f y) w =
     (case x of None \<Rightarrow> run_state m w | Some y \<Rightarrow> run_state (f y) w)"
  by (simp split: option.splits)

lemma run_case_sum [run_simps]:
  "run_state (case x of Inl e \<Rightarrow> f e | Inr y \<Rightarrow> g y) w =
     (case x of Inl e \<Rightarrow> run_state (f e) w | Inr y \<Rightarrow> run_state (g y) w)"
  by (simp split: sum.splits)

lemma run_case_prod [run_simps]:
  "run_state (case p of (a, b) \<Rightarrow> f a b) w = (case p of (a, b) \<Rightarrow> run_state (f a b) w)"
  by (simp split: prod.splits)

text \<open>
  A recorder: the action on a world that also carries notes, with the notes of its result
  added at the end.
\<close>

definition noted :: "('r \<Rightarrow> 'e list) \<Rightarrow> ('w, 'r) state \<Rightarrow> ('w \<times> 'e list, 'r) state" where
  "noted ev m = State (\<lambda>(w, es). case run_state m w of (r, w') \<Rightarrow> (r, (w', es @ ev r)))"

named_theorems recorder \<open>runs of recorded operations\<close>

lemma run_noted [recorder]:
  "run_state (noted ev m) (w, es) =
     (fst (run_state m w), (snd (run_state m w), es @ ev (fst (run_state m w))))"
  by (simp add: noted_def split: prod.splits)

text \<open>The last element with a property, or a default: what a loop of overlays computes.\<close>

definition last_such :: "('a \<Rightarrow> bool) \<Rightarrow> 'a \<Rightarrow> 'a list \<Rightarrow> 'a" where
  "last_such P d xs = (case filter P xs of [] \<Rightarrow> d | y # ys \<Rightarrow> last (y # ys))"

lemma last_such_simps [simp]:
  "last_such P d [] = d"
  "last_such P d (x # xs) = last_such P (if P x then x else d) xs"
  by (auto simp: last_such_def split: list.splits)

text \<open>Case rules for the two-valued results of Go functions.\<close>

lemma option_sum_cases [case_names Err Ok]:
  assumes "\<And>e. x = Inl e \<Longrightarrow> P" and "\<And>y. x = Inr y \<Longrightarrow> P"
  shows P
  using assms by (cases x) auto

lemma run_state_cases [case_names run]:
  assumes "\<And>a w'. run_state m w = (a, w') \<Longrightarrow> P"
  shows P
  using assms by (cases "run_state m w") auto

end
