(* ===== verification/Go_Errors.thy ===== *)
theory Go_Errors
  imports Prelude
begin

text \<open>
  Go errors as a tree and the two traversals the repository relies on: \<open>errors.Is\<close> and
  the type search of \<open>errors.AsType\<close>.

  The portable categories of \<open>internal/contract/errors.go\<close>, the sentinels of
  \<open>secure/wsl2/errors.go\<close> and its \<open>ProtocolError\<close>, and the \<open>SelectionError\<close> of
  \<open>internal/contract/selection.go\<close> are constructors, beside the standard library's
  sentinels that the code compares with. \<open>Errorf\<close> is \<open>fmt.Errorf\<close> with its operands of
  verb \<open>%w\<close>, \<open>Joined\<close> is \<open>errors.Join\<close>. Its text is the format of the source without
  the other operands: the repository declares error text diagnostic, and no decision of
  the code reads it. A nil error is \<open>None\<close>.

  Two constructors are no Go errors: \<open>GoPanic\<close> is the result of an operation that panics,
  and \<open>OutOfFuel\<close> that of a loop bounded by fuel in the model that has not ended.
\<close>

section \<open>Error values\<close>

datatype category =
    ErrNotFound
  | ErrInvalidArgument
  | ErrValueTooLarge
  | ErrBackendUnavailable
  | ErrBackendLocked
  | ErrInteractionRequired
  | ErrPermissionDenied
  | ErrTimeout
  | ErrInsecureFallback
  | ErrUnsupported
  | ErrBackendFailure

text \<open>The string value of each category, which is what its \<open>Error\<close> method returns.\<close>

fun category_Error :: "category \<Rightarrow> string" where
  "category_Error ErrNotFound = ''credential not found''"
| "category_Error ErrInvalidArgument = ''invalid argument''"
| "category_Error ErrValueTooLarge = ''value too large''"
| "category_Error ErrBackendUnavailable = ''backend unavailable''"
| "category_Error ErrBackendLocked = ''backend locked''"
| "category_Error ErrInteractionRequired = ''interaction required''"
| "category_Error ErrPermissionDenied = ''permission denied''"
| "category_Error ErrTimeout = ''operation timed out''"
| "category_Error ErrInsecureFallback = ''insecure fallback refused''"
| "category_Error ErrUnsupported = ''unsupported''"
| "category_Error ErrBackendFailure = ''backend failure''"

text \<open>
  The categories are values of a string type in Go and compare by their text, so the
  enumeration is faithful exactly because the texts differ.
\<close>

lemma category_Error_inj: "category_Error c = category_Error d \<longleftrightarrow> c = d"
  by (cases c; cases d; simp)

datatype wsl_sentinel =
    W_ErrNotWSL2
  | W_ErrInvalidRequest
  | W_ErrUnsupportedProtocol
  | W_ErrUnsupportedOperation
  | W_ErrInvalidArgument
  | W_ErrNotFound
  | W_ErrAccessDenied
  | W_ErrBackendUnavailable
  | W_ErrBackendFailure
  | W_ErrTimeout
  | W_ErrInternal
  | W_ErrValueTooLarge
  | W_ErrProtocol

record protocol_error =
  pe_Code :: string
  pe_Message :: string
  pe_Retryable :: bool
  pe_SupportedProtocols :: "string list"

text \<open>\<open>sentinelForCode\<close>: the stable category of a helper error code.\<close>

definition sentinelForCode :: "string \<Rightarrow> wsl_sentinel option" where
  "sentinelForCode code =
     (if code = ''invalid_request'' then Some W_ErrInvalidRequest
      else if code = ''unsupported_protocol'' then Some W_ErrUnsupportedProtocol
      else if code = ''unsupported_operation'' then Some W_ErrUnsupportedOperation
      else if code = ''invalid_argument'' then Some W_ErrInvalidArgument
      else if code = ''not_found'' then Some W_ErrNotFound
      else if code = ''access_denied'' then Some W_ErrAccessDenied
      else if code = ''backend_unavailable'' then Some W_ErrBackendUnavailable
      else if code = ''backend_failure'' then Some W_ErrBackendFailure
      else if code = ''timeout'' then Some W_ErrTimeout
      else if code = ''internal'' then Some W_ErrInternal
      else None)"

text \<open>System error numbers, by the names the code compares with.\<close>

datatype errno =
    EPERM | ENOENT | EACCES | EEXIST | ENOTDIR | EISDIR | ENOTEMPTY | ELOOP
  | ENOSYS | ENODEV | ENOKEY | EKEYEXPIRED | EKEYREVOKED | OtherErrno nat

datatype win_error =
    ErrElementNotFound | ErrInvalidParameter | ErrBadUsername
  | ERROR_ACCESS_DENIED | ERROR_NO_SUCH_LOGON_SESSION | OtherWinError nat

type_synonym backend = string

datatype go_error =
    Category category
  | Canceled
  | DeadlineExceeded
  | ErrNotExist
  | ErrExist
  | ErrPermission
  | ExecErrNotFound
  | EOF
  | ErrUnexpectedEOF
  | ErrShortWrite
  | Errno errno
  | WinError win_error
  | Wsl wsl_sentinel
  | ProtocolErr protocol_error
  | BusError string
  | ExitError int
  | Plain string
  | GoPanic string
  | OutOfFuel
  | Errorf string "go_error list"
  | Joined "go_error list"
  | SelectionErr "(backend \<times> go_error option) list" "go_error option"

type_synonym rejection = "backend \<times> go_error option"

section \<open>errors.Is\<close>

text \<open>\<open>syscall.Errno\<close> has an \<open>Is\<close> method for the sentinels of package \<open>io/fs\<close>.\<close>

fun errno_is :: "errno \<Rightarrow> go_error \<Rightarrow> bool" where
  "errno_is n ErrPermission = (n = EACCES \<or> n = EPERM)"
| "errno_is n ErrExist = (n = EEXIST \<or> n = ENOTEMPTY)"
| "errno_is n ErrNotExist = (n = ENOENT)"
| "errno_is n _ = False"

fun own_is :: "go_error \<Rightarrow> go_error \<Rightarrow> bool" where
  "own_is (Errno n) t = errno_is n t"
| "own_is _ t = False"

text \<open>
  \<open>err_is e t\<close> is \<open>errors.Is(e, t)\<close> for non-nil \<open>e\<close>: the value itself, its \<open>Is\<close> method,
  then what \<open>Unwrap\<close> returns, depth first. The case of \<open>SelectionErr\<close> is its \<open>Unwrap\<close>
  method inlined (\<open>SelectionError_Unwrap\<close> and \<open>err_is_unwrap\<close> below give the method and
  the agreement): the cause, then each rejection whose error the cause does not match.

  Two errors made by separate \<open>Errorf\<close> calls with the same format and operands are the
  same value here and different pointers in Go. The code only ever passes sentinels as
  the target, but for the comparison inside \<open>Unwrap\<close>, and \<open>err_is_SelectionErr\<close> shows
  that what this comparison drops is found through the cause anyway.
\<close>

fun err_is :: "go_error \<Rightarrow> go_error \<Rightarrow> bool" where
  "err_is (Errorf m es) t \<longleftrightarrow> Errorf m es = t \<or> list_ex (\<lambda>e. err_is e t) es"
| "err_is (Joined es) t \<longleftrightarrow> Joined es = t \<or> list_ex (\<lambda>e. err_is e t) es"
| "err_is (SelectionErr rej cause) t \<longleftrightarrow>
     SelectionErr rej cause = t
     \<or> (case cause of None \<Rightarrow> False | Some c \<Rightarrow> err_is c t)
     \<or> list_ex (\<lambda>(b, r). case r of None \<Rightarrow> False
          | Some e \<Rightarrow> \<not> (case cause of None \<Rightarrow> False | Some c \<Rightarrow> err_is c e) \<and> err_is e t) rej"
| "err_is (ProtocolErr p) t \<longleftrightarrow>
     ProtocolErr p = t
     \<or> (case sentinelForCode (pe_Code p) of None \<Rightarrow> False | Some s \<Rightarrow> Wsl s = t)"
| "err_is e t \<longleftrightarrow> e = t \<or> own_is e t"

text \<open>\<open>errors.Is\<close> of a possibly nil error against a non-nil target.\<close>

definition opt_is :: "go_error option \<Rightarrow> go_error \<Rightarrow> bool" where
  "opt_is x t = (case x of None \<Rightarrow> False | Some e \<Rightarrow> err_is e t)"

lemma opt_is_simps [simp]:
  "opt_is None t = False" "opt_is (Some e) t = err_is e t"
  by (simp_all add: opt_is_def)

text \<open>\<open>SelectionError.Unwrap\<close> on a non-nil receiver, and \<open>Unwrap\<close> of every other kind.\<close>

definition SelectionError_Unwrap :: "rejection list \<Rightarrow> go_error option \<Rightarrow> go_error list" where
  "SelectionError_Unwrap rej cause =
     (case cause of None \<Rightarrow> [] | Some c \<Rightarrow> [c]) @
     concat (map (\<lambda>(b, r). case r of None \<Rightarrow> []
       | Some e \<Rightarrow> (if opt_is cause e then [] else [e])) rej)"

fun unwrap :: "go_error \<Rightarrow> go_error list" where
  "unwrap (Errorf m es) = es"
| "unwrap (Joined es) = es"
| "unwrap (SelectionErr rej cause) = SelectionError_Unwrap rej cause"
| "unwrap (ProtocolErr p) =
     (case sentinelForCode (pe_Code p) of None \<Rightarrow> [] | Some s \<Rightarrow> [Wsl s])"
| "unwrap _ = []"

lemma err_is_refl [simp]: "err_is e e"
  by (cases e) auto

text \<open>\<open>Unwrap\<close> and the traversal of a selection error, in terms of membership.\<close>

lemma set_SelectionError_Unwrap:
  "u \<in> set (SelectionError_Unwrap rej cause) \<longleftrightarrow>
     cause = Some u \<or> (\<exists>b. (b, Some u) \<in> set rej \<and> \<not> opt_is cause u)"
proof -
  have "u \<in> set (concat (map (\<lambda>(b, r). case r of None \<Rightarrow> []
       | Some e \<Rightarrow> (if opt_is cause e then [] else [e])) rej))
      \<longleftrightarrow> (\<exists>b. (b, Some u) \<in> set rej \<and> \<not> opt_is cause u)"
    by (force split: option.splits if_splits)
  then show ?thesis by (auto simp: SelectionError_Unwrap_def split: option.splits)
qed

lemma err_is_selection:
  "err_is (SelectionErr rej cause) t \<longleftrightarrow>
     SelectionErr rej cause = t \<or> opt_is cause t
     \<or> (\<exists>b e. (b, Some e) \<in> set rej \<and> \<not> opt_is cause e \<and> err_is e t)"
proof -
  have "list_ex (\<lambda>(b, r). case r of None \<Rightarrow> False
          | Some e \<Rightarrow> \<not> (case cause of None \<Rightarrow> False | Some c \<Rightarrow> err_is c e) \<and> err_is e t) rej
        \<longleftrightarrow> (\<exists>b e. (b, Some e) \<in> set rej \<and> \<not> opt_is cause e \<and> err_is e t)"
    unfolding list_ex_iff opt_is_def by (rule iffI) (force split: option.splits)+
  then show ?thesis by (simp add: opt_is_def)
qed

declare err_is.simps(3) [simp del]

text \<open>The traversal agrees with Go's: the value, its \<open>Is\<close> method, then each unwrapped error.\<close>

lemma err_is_unwrap:
  "err_is e t \<longleftrightarrow> e = t \<or> own_is e t \<or> (\<exists>u\<in>set (unwrap e). err_is u t)"
proof (cases e)
  case (SelectionErr rej cause)
  have c: "opt_is cause t \<longleftrightarrow> (\<exists>u. cause = Some u \<and> err_is u t)"
    by (cases cause) auto
  have "(\<exists>u\<in>set (SelectionError_Unwrap rej cause). err_is u t) \<longleftrightarrow>
     (\<exists>u. cause = Some u \<and> err_is u t)
     \<or> (\<exists>b e. (b, Some e) \<in> set rej \<and> \<not> opt_is cause e \<and> err_is e t)"
    by (auto simp only: set_SelectionError_Unwrap Bex_def)
  with SelectionErr c show ?thesis
    by (simp add: err_is_selection)
qed (auto simp: list_ex_iff split: option.splits)

lemma own_is_leaf: "own_is e r \<Longrightarrow> err_is r t \<Longrightarrow> r = t"
  by (cases e; simp; cases r; simp)

lemma errno_is_leaf: "errno_is n r \<Longrightarrow> err_is r t \<Longrightarrow> r = t"
  using own_is_leaf [of "Errno n"] by simp

text \<open>
  Matching is transitive. This is what makes the deduplication in
  \<open>SelectionError.Unwrap\<close> lossless.
\<close>

lemma err_is_trans: "err_is c r \<Longrightarrow> err_is r t \<Longrightarrow> err_is c t"
proof (induction c r arbitrary: t rule: err_is.induct)
  case (3 rej cause r)
  from "3.prems"(1) consider
      "SelectionErr rej cause = r"
    | c where "cause = Some c" "err_is c r"
    | b e where "(b, Some e) \<in> set rej" "\<not> opt_is cause e" "err_is e r"
    by (auto simp: err_is_selection opt_is_def split: option.splits)
  then show ?case
  proof cases
    case 1
    with "3.prems"(2) show ?thesis by simp
  next
    case 2
    with "3.IH"(1) "3.prems"(2) show ?thesis by (auto simp: err_is_selection)
  next
    case (3 b e)
    then have "err_is e t"
      using "3.IH"(3) [of "(b, Some e)" b "Some e" e t] "3.prems"(2)
      by (auto simp: opt_is_def)
    with 3 show ?thesis by (auto simp: err_is_selection)
  qed
next
  case (4 p r)
  then show ?case by (auto split: option.splits)
qed (auto simp: list_ex_iff dest: errno_is_leaf)

lemma err_is_SelectionErr:
  "err_is (SelectionErr rej cause) t \<longleftrightarrow>
     SelectionErr rej cause = t \<or> opt_is cause t \<or> (\<exists>b e. (b, Some e) \<in> set rej \<and> err_is e t)"
proof -
  have "opt_is cause e \<Longrightarrow> err_is e t \<Longrightarrow> opt_is cause t" for e
    by (cases cause) (auto intro: err_is_trans)
  then show ?thesis by (auto simp: err_is_selection)
qed

lemma err_is_Errorf [simp]:
  "err_is (Errorf m es) (Category c) \<longleftrightarrow> (\<exists>e\<in>set es. err_is e (Category c))"
  by (simp add: list_ex_iff)

section \<open>errors.Join and the type search of errors.AsType\<close>

text \<open>\<open>errors.Join(a, b)\<close> drops nil operands and is nil when all are nil.\<close>

definition errors_Join :: "go_error option \<Rightarrow> go_error option \<Rightarrow> go_error option" where
  "errors_Join a b =
     (let es = (case a of None \<Rightarrow> [] | Some e \<Rightarrow> [e]) @ (case b of None \<Rightarrow> [] | Some e \<Rightarrow> [e])
      in if es = [] then None else Some (Joined es))"

lemma errors_Join_None [simp]: "errors_Join a b = None \<longleftrightarrow> a = None \<and> b = None"
  by (auto simp: errors_Join_def split: option.splits)

lemma errors_Join_Some [simp]: "(\<exists>e. errors_Join a b = Some e) \<longleftrightarrow> a \<noteq> None \<or> b \<noteq> None"
  using errors_Join_None [of a b] by (auto simp del: errors_Join_None)

lemma opt_is_errors_Join [simp]:
  "opt_is (errors_Join a b) (Category c) \<longleftrightarrow> opt_is a (Category c) \<or> opt_is b (Category c)"
  by (cases a; cases b) (simp_all add: errors_Join_def)

text \<open>
  The type search of \<open>errors.AsType\<close>: the first error, depth first, that is of the type
  \<open>p\<close> reads. The recursion follows \<open>Unwrap\<close>, whose results are smaller.
\<close>

fun first_some :: "'a option list \<Rightarrow> 'a option" where
  "first_some [] = None"
| "first_some (Some x # _) = Some x"
| "first_some (None # xs) = first_some xs"

lemma size_unwrap:
  assumes "\<And>p. e \<noteq> ProtocolErr p"
  shows "u \<in> set (unwrap e) \<Longrightarrow> size u < size e"
proof (cases e)
  case (SelectionErr rej cause)
  assume u: "u \<in> set (unwrap e)"
  then consider "cause = Some u" | b where "(b, Some u) \<in> set rej"
    using SelectionErr by (auto simp: set_SelectionError_Unwrap)
  then show ?thesis
  proof cases
    case 2
    let ?sz = "size_prod (\<lambda>_. 0 :: nat) (size_option size)"
    have "?sz (b, Some u) \<le> size_list ?sz rej"
      using 2 by (intro size_list_estimation') auto
    then show ?thesis by (simp add: SelectionErr)
  qed (simp add: SelectionErr)
qed (auto simp: assms less_Suc_eq_le intro: size_list_estimation' split: option.splits)

definition unwrap_measure :: "go_error \<Rightarrow> nat" where
  "unwrap_measure e = 2 * size e + (case e of ProtocolErr _ \<Rightarrow> 1 | _ \<Rightarrow> 0)"

lemma unwrap_smaller: "u \<in> set (unwrap e) \<Longrightarrow> unwrap_measure u < unwrap_measure e"
proof (cases "\<exists>p. e = ProtocolErr p")
  case True
  assume "u \<in> set (unwrap e)"
  with True show ?thesis by (auto simp: unwrap_measure_def split: option.splits)
next
  case False
  assume "u \<in> set (unwrap e)"
  with False have "size u < size e" by (auto intro: size_unwrap)
  then show ?thesis by (auto simp: unwrap_measure_def split: go_error.split)
qed

function as_find :: "(go_error \<Rightarrow> 'a option) \<Rightarrow> go_error \<Rightarrow> 'a option" where
  "as_find p e =
     (case p e of Some x \<Rightarrow> Some x | None \<Rightarrow> first_some (map (as_find p) (unwrap e)))"
  by pat_completeness auto
termination
  by (relation "measure (\<lambda>(p, e). unwrap_measure e)") (auto intro: unwrap_smaller)

declare as_find.simps [simp del]

definition as_BusError :: "go_error \<Rightarrow> string option" where
  "as_BusError = as_find (\<lambda>e. case e of BusError name \<Rightarrow> Some name | _ \<Rightarrow> None)"

definition as_ExitError :: "go_error \<Rightarrow> int option" where
  "as_ExitError = as_find (\<lambda>e. case e of ExitError code \<Rightarrow> Some code | _ \<Rightarrow> None)"

end
