(* ===== verification/Contract.thy ===== *)
theory Contract
  imports Go_Errors
begin

text \<open>
  \<open>internal/contract\<close>: contexts and their portable errors, the description of a selected
  backend, the error of a failed selection and the \<open>Keyringer\<close> interface.
\<close>

section \<open>Contexts\<close>

text \<open>
  Of a \<open>context.Context\<close> the code reads \<open>Err()\<close> only. The answer may change between two
  calls (cancellation is asynchronous, deadlines pass), so it is an action on the world.
  A nil interface value is \<open>None\<close>.
\<close>

type_synonym 'w ctx = "('w, go_error option) state"

text \<open>\<open>context.WithTimeout\<close> yields a derived context and its cancel function.\<close>

type_synonym 'w with_timeout = "'w ctx \<Rightarrow> int \<Rightarrow> ('w, 'w ctx \<times> ('w, unit) state) state"

text \<open>\<open>context.Background()\<close> is never done.\<close>

definition Background :: "'w ctx option" where
  "Background = Some (ret None)"

definition ContextError :: "'w ctx option \<Rightarrow> ('w, go_error option) state" where
  "ContextError ctx =
     (case ctx of
        None \<Rightarrow> ret (Some (Errorf ''%w: context is nil'' [Category ErrInvalidArgument]))
      | Some Err \<Rightarrow> do {
          err \<leftarrow> Err;
          (if opt_is err DeadlineExceeded
           then ret (Some (Errorf ''%w: %w'' [Category ErrTimeout, the err]))
           else ret err)
        })"

lemma ContextError_Background [simp, run_simps]:
  "run_state (ContextError Background) w = (None, w)"
  by (simp add: ContextError_def Background_def)

lemma ContextError_nil [simp]:
  "run_state (ContextError None) w =
     (Some (Errorf ''%w: context is nil'' [Category ErrInvalidArgument]), w)"
  by (simp add: ContextError_def)

text \<open>
  The world after \<open>ContextError\<close> is the world after the one call of \<open>Err()\<close>; the result is
  nil exactly when \<open>Err()\<close> was, and it matches everything \<open>Err()\<close>'s answer matches.
\<close>

lemma ContextError_Some:
  assumes "run_state Err w = (err, w')"
  shows "run_state (ContextError (Some Err)) w =
     ((case err of None \<Rightarrow> None
       | Some e \<Rightarrow> Some (if err_is e DeadlineExceeded
           then Errorf ''%w: %w'' [Category ErrTimeout, e] else e)), w')"
  using assms by (cases err) (simp_all add: ContextError_def)

lemma ContextError_None_iff:
  "fst (run_state (ContextError ctx) w) = None \<longleftrightarrow>
     (\<exists>Err. ctx = Some Err \<and> fst (run_state Err w) = None)"
proof (cases ctx)
  case (Some Err)
  then show ?thesis
    by (cases "run_state Err w") (auto simp: ContextError_Some split: option.splits)
qed simp

lemma ContextError_keeps:
  assumes "run_state (ContextError (Some Err)) w = (Some e, w')"
    and "fst (run_state Err w) = Some c" and "err_is c t"
  shows "err_is e t"
  using assms by (cases "run_state Err w") (auto simp: ContextError_Some split: if_splits)

section \<open>Backends and their description\<close>

definition BackendCustom :: backend where "BackendCustom = ''custom''"
definition BackendSecretService :: backend where "BackendSecretService = ''secret-service''"
definition BackendKernelKeyring :: backend where "BackendKernelKeyring = ''kernel-keyring''"
definition BackendFilesystem :: backend where "BackendFilesystem = ''filesystem''"
definition BackendKeychain :: backend where "BackendKeychain = ''keychain''"
definition BackendWindowsCredentialManager :: backend where
  "BackendWindowsCredentialManager = ''windows-credential-manager''"

lemmas backend_defs =
  BackendCustom_def BackendSecretService_def BackendKernelKeyring_def
  BackendFilesystem_def BackendKeychain_def BackendWindowsCredentialManager_def

datatype persistence = PersistenceUnknown | PersistenceSession | PersistencePersistent
datatype host = HostUnknown | HostCurrent | HostWindows
datatype interaction = InteractionUnknown | InteractionNone | InteractionPossible

record info =
  Backend :: backend
  Persistence :: persistence
  Host :: host
  Interaction :: interaction
  Fallback :: bool
  Rejected :: "rejection list"

section \<open>Selection errors\<close>

text \<open>
  \<open>SelectionError.Error\<close>; the receiver may be nil. \<open>Unwrap\<close> is in \<open>Go_Errors\<close>, where the
  matching it takes part in is defined; on a nil receiver it returns nil.
\<close>

definition SelectionError_Error :: "rejection list option \<Rightarrow> string" where
  "SelectionError_Error e =
     (case e of
        None \<Rightarrow> ''credential backend selection failed''
      | Some rej \<Rightarrow>
          fold (\<lambda>rejection result. result @ '': '' @ fst rejection) rej
            ''credential backend selection failed'')"

definition SelectionError_Unwrap_ptr ::
  "(rejection list \<times> go_error option) option \<Rightarrow> go_error list" where
  "SelectionError_Unwrap_ptr e =
     (case e of None \<Rightarrow> [] | Some (rej, cause) \<Rightarrow> SelectionError_Unwrap rej cause)"

section \<open>The Keyringer interface\<close>

record 'w keyringer =
  kr_Get :: "'w ctx option \<Rightarrow> string \<Rightarrow> ('w, go_error + bytes) state"
  kr_Set :: "'w ctx option \<Rightarrow> string \<Rightarrow> bytes \<Rightarrow> ('w, go_error option) state"
  kr_Delete :: "'w ctx option \<Rightarrow> string \<Rightarrow> ('w, go_error option) state"

end
