(* ===== verification/Keyringer.thy ===== *)
theory Keyringer
  imports Contract
begin

text \<open>
  The contract of the \<open>Keyringer\<close> interface (\<open>internal/contract/interfaces.go\<close>) as a
  locale, with what a caller may rely on proved once from it.

  A store is seen through an abstraction: \<open>view w\<close> maps slots to values, and \<open>slot k\<close> is the
  place a key is stored in (a hashed name, a target string). The laws are the comments of
  the interface: \<open>Get\<close> returns the value stored for the key, a missing key is an error that
  matches \<open>ErrNotFound\<close>, \<open>Set\<close> replaces an existing value, \<open>Delete\<close> removes the key. A
  backend may refuse some keys and values (\<open>accepts\<close>).
\<close>

section \<open>The abstract store\<close>

datatype 'k request = Get_req 'k | Set_req 'k bytes | Delete_req 'k

datatype answer = Value bytes | Done_ok | Missing | Failed go_error

text \<open>The reference: a plain map.\<close>

fun spec_step :: "('k \<Rightarrow> 'n) \<Rightarrow> 'k request \<Rightarrow> ('n \<rightharpoonup> bytes) \<Rightarrow> answer \<times> ('n \<rightharpoonup> bytes)" where
  "spec_step slot (Get_req k) m =
     (case m (slot k) of None \<Rightarrow> (Missing, m) | Some v \<Rightarrow> (Value v, m))"
| "spec_step slot (Set_req k v) m = (Done_ok, m(slot k \<mapsto> v))"
| "spec_step slot (Delete_req k) m =
     (case m (slot k) of None \<Rightarrow> (Missing, m) | Some v \<Rightarrow> (Done_ok, m(slot k := None)))"

fun spec_run :: "('k \<Rightarrow> 'n) \<Rightarrow> 'k request list \<Rightarrow> ('n \<rightharpoonup> bytes) \<Rightarrow> answer list \<times> ('n \<rightharpoonup> bytes)" where
  "spec_run slot [] m = ([], m)"
| "spec_run slot (r # rs) m =
     (case spec_step slot r m of (a, m') \<Rightarrow>
        (case spec_run slot rs m' of (as, m'') \<Rightarrow> (a # as, m'')))"

text \<open>Where the slots of keys are distinct, the answers do not depend on what they are.\<close>

lemma spec_step_slots:
  assumes "inj slot" "inj slot'" "\<And>k. m (slot k) = m' (slot' k)" "spec_step slot r m = (a, n)"
  shows "\<exists>n'. spec_step slot' r m' = (a, n') \<and> (\<forall>k. n (slot k) = n' (slot' k))"
proof (cases r)
  case (Get_req k)
  with assms(3) [of k] assms(3,4) show ?thesis by (cases "m (slot k)") auto
next
  case (Set_req k v)
  with assms show ?thesis by (auto simp: inj_eq)
next
  case (Delete_req k)
  with assms(3) [of k] assms show ?thesis by (cases "m (slot k)") (auto simp: inj_eq)
qed

lemma spec_run_slots:
  assumes "inj slot" "inj slot'" "\<And>k. m (slot k) = m' (slot' k)" "spec_run slot rs m = (as, n)"
  shows "\<exists>n'. spec_run slot' rs m' = (as, n') \<and> (\<forall>k. n (slot k) = n' (slot' k))"
  using assms(3,4)
proof (induction rs arbitrary: m m' as)
  case (Cons r rs)
  obtain a m1 where s: "spec_step slot r m = (a, m1)" by fastforce
  with spec_step_slots [OF assms(1,2) Cons.prems(1) s] obtain m1' where
    s': "spec_step slot' r m' = (a, m1')" "\<And>k. m1 (slot k) = m1' (slot' k)" by blast
  obtain as1 n1 where "spec_run slot rs m1 = (as1, n1)" by fastforce
  with Cons.IH [where m = m1 and m' = m1', OF s'(2)] s s'(1) Cons.prems(2) show ?case by fastforce
qed simp

text \<open>Answers of an implementation, with errors classified as a caller does.\<close>

definition get_answer :: "go_error + bytes \<Rightarrow> answer" where
  "get_answer r = (case r of Inr v \<Rightarrow> Value v
     | Inl e \<Rightarrow> (if err_is e (Category ErrNotFound) then Missing else Failed e))"

definition done_answer :: "go_error option \<Rightarrow> answer" where
  "done_answer r = (case r of None \<Rightarrow> Done_ok
     | Some e \<Rightarrow> (if err_is e (Category ErrNotFound) then Missing else Failed e))"

lemma get_answer_simps [simp]:
  "get_answer (Inr v) = Value v"
  "err_is e (Category ErrNotFound) \<Longrightarrow> get_answer (Inl e) = Missing"
  by (simp_all add: get_answer_def)

lemma done_answer_simps [simp]:
  "done_answer None = Done_ok"
  "err_is e (Category ErrNotFound) \<Longrightarrow> done_answer (Some e) = Missing"
  by (simp_all add: done_answer_def)

fun impl_step ::
  "('k \<Rightarrow> ('w, go_error + bytes) state) \<Rightarrow> ('k \<Rightarrow> bytes \<Rightarrow> ('w, go_error option) state)
     \<Rightarrow> ('k \<Rightarrow> ('w, go_error option) state) \<Rightarrow> 'k request \<Rightarrow> ('w, answer) state" where
  "impl_step Get Set Delete (Get_req k) = do { r \<leftarrow> Get k; ret (get_answer r) }"
| "impl_step Get Set Delete (Set_req k v) = do { r \<leftarrow> Set k v; ret (done_answer r) }"
| "impl_step Get Set Delete (Delete_req k) = do { r \<leftarrow> Delete k; ret (done_answer r) }"

fun impl_run ::
  "('k \<Rightarrow> ('w, go_error + bytes) state) \<Rightarrow> ('k \<Rightarrow> bytes \<Rightarrow> ('w, go_error option) state)
     \<Rightarrow> ('k \<Rightarrow> ('w, go_error option) state) \<Rightarrow> 'k request list \<Rightarrow> ('w, answer list) state" where
  "impl_run Get Set Delete [] = ret []"
| "impl_run Get Set Delete (r # rs) = do {
     a \<leftarrow> impl_step Get Set Delete r;
     as \<leftarrow> impl_run Get Set Delete rs;
     ret (a # as)
   }"

text \<open>The requests a backend accepts.\<close>

fun acceptable :: "('k \<Rightarrow> bool) \<Rightarrow> ('k \<Rightarrow> bytes \<Rightarrow> bool) \<Rightarrow> 'k request \<Rightarrow> bool" where
  "acceptable valid accepts (Get_req k) = valid k"
| "acceptable valid accepts (Set_req k v) = (valid k \<and> accepts k v)"
| "acceptable valid accepts (Delete_req k) = valid k"

section \<open>The contract\<close>

locale keyringer_contract =
  fixes Get :: "'k \<Rightarrow> ('w, go_error + bytes) state"
    and Set :: "'k \<Rightarrow> bytes \<Rightarrow> ('w, go_error option) state"
    and Delete :: "'k \<Rightarrow> ('w, go_error option) state"
    and view :: "'w \<Rightarrow> 'n \<rightharpoonup> bytes"
    and slot :: "'k \<Rightarrow> 'n"
    and good :: "'w \<Rightarrow> bool"
    and valid :: "'k \<Rightarrow> bool"
    and accepts :: "'k \<Rightarrow> bytes \<Rightarrow> bool"
  assumes get_found: "\<And>w k v. good w \<Longrightarrow> valid k \<Longrightarrow> view w (slot k) = Some v \<Longrightarrow>
      \<exists>w'. run_state (Get k) w = (Inr v, w') \<and> good w' \<and> view w' = view w"
    and get_missing: "\<And>w k. good w \<Longrightarrow> valid k \<Longrightarrow> view w (slot k) = None \<Longrightarrow>
      \<exists>e w'. run_state (Get k) w = (Inl e, w') \<and> err_is e (Category ErrNotFound)
        \<and> good w' \<and> view w' = view w"
    and set_stores: "\<And>w k v. good w \<Longrightarrow> valid k \<Longrightarrow> accepts k v \<Longrightarrow>
      \<exists>w'. run_state (Set k v) w = (None, w') \<and> good w' \<and> view w' = (view w)(slot k \<mapsto> v)"
    and delete_found: "\<And>w k v. good w \<Longrightarrow> valid k \<Longrightarrow> view w (slot k) = Some v \<Longrightarrow>
      \<exists>w'. run_state (Delete k) w = (None, w') \<and> good w' \<and> view w' = (view w)(slot k := None)"
    and delete_missing: "\<And>w k. good w \<Longrightarrow> valid k \<Longrightarrow> view w (slot k) = None \<Longrightarrow>
      \<exists>e w'. run_state (Delete k) w = (Some e, w') \<and> err_is e (Category ErrNotFound)
        \<and> good w' \<and> view w' = view w"
begin

text \<open>One request simulates the map.\<close>

lemma step_refines:
  assumes "good w" and "acceptable valid accepts r"
    and "spec_step slot r (view w) = (a, m')"
  shows "\<exists>w'. run_state (impl_step Get Set Delete r) w = (a, w') \<and> good w' \<and> view w' = m'"
proof (cases r)
  case (Get_req k)
  show ?thesis
  proof (cases "view w (slot k)")
    case None
    with Get_req assms get_missing [of w k] show ?thesis by auto
  next
    case (Some v)
    with Get_req assms get_found [of w k v] show ?thesis by auto
  qed
next
  case (Set_req k v)
  with assms set_stores [of w k v] show ?thesis by auto
next
  case (Delete_req k)
  show ?thesis
  proof (cases "view w (slot k)")
    case None
    with Delete_req assms delete_missing [of w k] show ?thesis by auto
  next
    case (Some v)
    with Delete_req assms delete_found [of w k v] show ?thesis by auto
  qed
qed

text \<open>So does every sequence of requests.\<close>

lemma run_refines:
  assumes "good w" and "\<forall>r \<in> set rs. acceptable valid accepts r"
    and "spec_run slot rs (view w) = (as, m')"
  shows "\<exists>w'. run_state (impl_run Get Set Delete rs) w = (as, w') \<and> good w' \<and> view w' = m'"
  using assms
proof (induction rs arbitrary: w as)
  case Nil
  then show ?case by auto
next
  case (Cons r rs)
  obtain a m1 where s: "spec_step slot r (view w) = (a, m1)" by fastforce
  with Cons.prems obtain w1 where
    1: "run_state (impl_step Get Set Delete r) w = (a, w1)" "good w1" "view w1 = m1"
    using step_refines by fastforce
  obtain as' m2 where rest: "spec_run slot rs m1 = (as', m2)" by fastforce
  with Cons.prems s have "as = a # as'" "m2 = m'" by auto
  with Cons.IH [of w1 as'] Cons.prems(2) 1 rest show ?case by fastforce
qed

text \<open>What a caller reads back.\<close>

lemma set_then_get:
  assumes "good w" "valid k" "accepts k v"
  shows "\<exists>w1 w2. run_state (Set k v) w = (None, w1) \<and> run_state (Get k) w1 = (Inr v, w2)"
  using set_stores [OF assms] assms(2) get_found by fastforce

lemma set_then_get_other:
  assumes "good w" "valid k" "accepts k v" "valid k'" "slot k' \<noteq> slot k" "view w (slot k') = Some u"
  shows "\<exists>w1 w2. run_state (Set k v) w = (None, w1) \<and> run_state (Get k') w1 = (Inr u, w2)"
  using set_stores [OF assms(1-3)] assms(4-) get_found by fastforce

lemma delete_then_get:
  assumes "good w" "valid k" "view w (slot k) = Some v"
  shows "\<exists>w1 e w2. run_state (Delete k) w = (None, w1) \<and> run_state (Get k) w1 = (Inl e, w2)
     \<and> err_is e (Category ErrNotFound)"
  using delete_found [OF assms] assms(2) get_missing by fastforce

end

end
