(* ===== verification/Dbus.thy ===== *)
theory Dbus
  imports Keyringer "HOL-Library.AList"
begin

text \<open>
  \<open>internal/backend/dbus\<close>: values in the Secret Service. What the code uses of package
  \<open>godbus\<close> and of the bus is the record \<open>connection\<close>: a method call on an object of the
  service, with its reply already decoded, signals, and closing. \<open>Store\<close> into variables of
  other types than the reply has fails with \<open>store_error\<close>. The choice of \<open>select\<close> between the
  context and the signal channel is an action of the world.
\<close>

section \<open>The bus\<close>

record secret_value =
  sv_Session :: string
  sv_Parameters :: bytes
  sv_Value :: bytes
  sv_ContentType :: string

datatype bus_value =
    VPath string
  | VPaths "string list"
  | VString string
  | VBool bool
  | VVariant bus_value
  | VAttributes "string \<rightharpoonup> string"
  | VProperties "string \<rightharpoonup> bus_value"
  | VSecret secret_value

record bus_signal =
  sig_Name :: string
  sig_Body :: "bus_value list"

text \<open>What the select statement of a prompt finds: the context is done, the channel is closed
  or delivers nil, or a signal.\<close>

datatype prompt_event = Context_done | Channel_closed | Signal_received bus_signal

datatype match_option = MatchObjectPath string | MatchInterface string | MatchMember string

record 'w connection =
  CallWithContext :: "'w ctx \<Rightarrow> string \<Rightarrow> string \<Rightarrow> string \<Rightarrow> bus_value list
     \<Rightarrow> ('w, go_error + bus_value list) state"
  store_error :: go_error
  Close :: "('w, go_error option) state"
  AddMatchSignalContext :: "'w ctx \<Rightarrow> match_option list \<Rightarrow> ('w, go_error option) state"
  RemoveMatchSignalContext :: "'w ctx \<Rightarrow> match_option list \<Rightarrow> ('w, go_error option) state"
  Signal :: "('w, unit) state"
  RemoveSignal :: "('w, unit) state"
  select_signal :: "'w ctx \<Rightarrow> ('w, prompt_event) state"

type_synonym 'w connector = "'w ctx \<Rightarrow> ('w, go_error + 'w connection) state"

definition serviceName :: string where "serviceName = ''org.freedesktop.secrets''"
definition secrets_path :: string where "secrets_path = ''/org/freedesktop/secrets''"
definition defaultCollectionPath :: string where
  "defaultCollectionPath = ''/org/freedesktop/secrets/aliases/default''"
definition serviceInterface :: string where "serviceInterface = ''org.freedesktop.Secret.Service''"
definition sessionInterface :: string where "sessionInterface = ''org.freedesktop.Secret.Session''"
definition collectionInterface :: string where "collectionInterface = ''org.freedesktop.Secret.Collection''"
definition itemInterface :: string where "itemInterface = ''org.freedesktop.Secret.Item''"
definition promptInterface :: string where "promptInterface = ''org.freedesktop.Secret.Prompt''"
definition itemLabelPrefix :: string where "itemLabelPrefix = ''common.queueb.org/keyring''"
definition keyAttribute :: string where "keyAttribute = ''username''"
definition serviceAttribute :: string where "serviceAttribute = ''service''"

text \<open>One second and five seconds, in nanoseconds.\<close>

definition cleanupTimeout :: int where "cleanupTimeout = 1000000000"
definition probeTimeout :: int where "probeTimeout = 5000000000"

section \<open>Errors\<close>

definition dbus_contextError :: "'w ctx option \<Rightarrow> ('w, go_error option) state" where
  "dbus_contextError ctx =
     (case ctx of
        None \<Rightarrow> ret (Some (Errorf ''%w: context is nil'' [Category ErrInvalidArgument]))
      | Some Err \<Rightarrow> do {
          err \<leftarrow> Err;
          (if opt_is err DeadlineExceeded
           then ret (Some (Errorf ''%w: %w'' [Category ErrTimeout, the err]))
           else ret err)
        })"

definition dbus_portable :: "category list" where
  "dbus_portable = [ErrNotFound, ErrInvalidArgument, ErrValueTooLarge, ErrBackendUnavailable,
     ErrBackendLocked, ErrInteractionRequired, ErrPermissionDenied, ErrTimeout, ErrUnsupported,
     ErrBackendFailure]"

definition bus_category :: "string \<Rightarrow> category" where
  "bus_category name =
     (if name = ''org.freedesktop.DBus.Error.ServiceUnknown''
        \<or> name = ''org.freedesktop.DBus.Error.NameHasNoOwner'' then ErrBackendUnavailable
      else if name = ''org.freedesktop.DBus.Error.AccessDenied''
        \<or> name = ''org.freedesktop.DBus.Error.AuthFailed'' then ErrPermissionDenied
      else if name = ''org.freedesktop.DBus.Error.NoReply''
        \<or> name = ''org.freedesktop.DBus.Error.Timeout'' then ErrTimeout
      else if name = ''org.freedesktop.Secret.Error.IsLocked'' then ErrBackendLocked
      else if name = ''org.freedesktop.Secret.Error.NoSuchObject'' then ErrNotFound
      else if name = ''org.freedesktop.DBus.Error.InteractiveAuthorizationRequired''
      then ErrInteractionRequired
      else if name = ''org.freedesktop.DBus.Error.LimitsExceeded'' then ErrValueTooLarge
      else ErrBackendFailure)"

definition classify_bus :: "string \<Rightarrow> go_error \<Rightarrow> go_error" where
  "classify_bus operation err =
     (if list_ex (\<lambda>c. err_is err (Category c)) dbus_portable
      then Errorf (operation @ '': %w'') [err]
      else Errorf (''%w: '' @ operation @ '': %w'')
        [Category (case as_BusError err of None \<Rightarrow> ErrBackendFailure | Some name \<Rightarrow> bus_category name), err])"

definition backendError :: "'w ctx option \<Rightarrow> string \<Rightarrow> go_error \<Rightarrow> ('w, go_error) state" where
  "backendError ctx operation err = do {
     contextErr \<leftarrow> dbus_contextError ctx;
     ret (case contextErr of Some c \<Rightarrow> c | None \<Rightarrow> classify_bus operation err)
   }"

definition opt_error :: "'e + 'a \<Rightarrow> 'e option" where
  "opt_error r = (case r of Inl e \<Rightarrow> Some e | Inr _ \<Rightarrow> None)"

section \<open>The client\<close>

text \<open>The client's three fields are the connection and two objects given by their paths. The
  context is not nil from \<open>connect\<close> on.\<close>

definition dbus_connect :: "'w ctx option \<Rightarrow> 'w connector \<Rightarrow> ('w, go_error + 'w connection) state" where
  "dbus_connect ctx Connect = do {
     cerr \<leftarrow> dbus_contextError ctx;
     (case cerr of
        Some err \<Rightarrow> ret (Inl err)
      | None \<Rightarrow> do {
          r \<leftarrow> Connect (the ctx);
          (case r of
             Inl err \<Rightarrow> do { e \<leftarrow> backendError ctx ''connect to session bus'' err; ret (Inl e) }
           | Inr c \<Rightarrow> ret (Inr c))
        })
   }"

definition promptChannelError :: "'w ctx option \<Rightarrow> ('w, go_error) state" where
  "promptChannelError ctx = do {
     err \<leftarrow> dbus_contextError ctx;
     ret (case err of Some e \<Rightarrow> e
          | None \<Rightarrow> Errorf ''%w: prompt signal channel closed'' [Category ErrBackendFailure])
   }"

definition prompt_result :: "bus_signal \<Rightarrow> go_error option" where
  "prompt_result s =
     (if sig_Name s \<noteq> promptInterface @ ''.Completed'' \<or> length (sig_Body s) < 2
      then Some (Errorf ''%w: invalid prompt completion'' [Category ErrBackendFailure])
      else (case hd (sig_Body s) of
          VBool dismissed \<Rightarrow>
            (if dismissed
             then Some (Errorf ''%w: Secret Service prompt was dismissed'' [Category ErrInteractionRequired])
             else None)
        | _ \<Rightarrow> Some (Errorf ''%w: invalid prompt completion'' [Category ErrBackendFailure])))"

definition prompt_match :: "string \<Rightarrow> match_option list" where
  "prompt_match prompt = [MatchObjectPath prompt, MatchInterface promptInterface, MatchMember ''Completed'']"

text \<open>The loop around \<open>select\<close> returns in its first round, whatever branch is taken.\<close>

definition wait_prompt :: "'w connection \<Rightarrow> 'w ctx \<Rightarrow> ('w, go_error option) state" where
  "wait_prompt c ctx = do {
     ev \<leftarrow> select_signal c ctx;
     (case ev of
        Context_done \<Rightarrow> dbus_contextError (Some ctx)
      | Channel_closed \<Rightarrow> do { e \<leftarrow> promptChannelError (Some ctx); ret (Some e) }
      | Signal_received s \<Rightarrow> ret (prompt_result s))
   }"

definition handlePrompt ::
  "'w with_timeout \<Rightarrow> 'w connection \<Rightarrow> 'w ctx \<Rightarrow> string \<Rightarrow> ('w, go_error option) state" where
  "handlePrompt WithTimeout c ctx prompt =
     (if prompt = ''/'' then ret None
      else do {
        _ \<leftarrow> Signal c;
        a \<leftarrow> AddMatchSignalContext c ctx (prompt_match prompt);
        result \<leftarrow> (case a of
           Some err \<Rightarrow> do { e \<leftarrow> backendError (Some ctx) ''subscribe to prompt'' err; ret (Some e) }
         | None \<Rightarrow> do {
             r \<leftarrow> CallWithContext c ctx serviceName prompt (promptInterface @ ''.Prompt'') [VString ''''];
             result \<leftarrow> (case r of
                Inl err \<Rightarrow> do { e \<leftarrow> backendError (Some ctx) ''show prompt'' err; ret (Some e) }
              | Inr _ \<Rightarrow> wait_prompt c ctx);
             t \<leftarrow> WithTimeout (the Background) cleanupTimeout;
             (case t of (cleanupCtx, cancel) \<Rightarrow> do {
                _ \<leftarrow> RemoveMatchSignalContext c cleanupCtx (prompt_match prompt);
                _ \<leftarrow> cancel;
                ret result })
           });
        _ \<leftarrow> RemoveSignal c;
        ret result
      })"

definition dbus_unlock ::
  "'w with_timeout \<Rightarrow> 'w connection \<Rightarrow> 'w ctx \<Rightarrow> string \<Rightarrow> ('w, go_error option) state" where
  "dbus_unlock WithTimeout c ctx object = do {
     r \<leftarrow> CallWithContext c ctx serviceName secrets_path (serviceInterface @ ''.Unlock'') [VPaths [object]];
     (case (case r of Inl err \<Rightarrow> Inl err
            | Inr [VPaths unlocked, VPath prompt] \<Rightarrow> Inr prompt | Inr _ \<Rightarrow> Inl (store_error c)) of
        Inl err \<Rightarrow> do { e \<leftarrow> backendError (Some ctx) ''unlock credential store object'' err; ret (Some e) }
      | Inr prompt \<Rightarrow> handlePrompt WithTimeout c ctx prompt)
   }"

definition item_attributes :: "string \<Rightarrow> string \<Rightarrow> string \<rightharpoonup> string" where
  "item_attributes service key = [keyAttribute \<mapsto> key, serviceAttribute \<mapsto> service]"

definition dbus_find ::
  "'w connection \<Rightarrow> 'w ctx \<Rightarrow> string \<Rightarrow> string \<Rightarrow> ('w, go_error + string) state" where
  "dbus_find c ctx service key = do {
     r \<leftarrow> CallWithContext c ctx serviceName defaultCollectionPath (collectionInterface @ ''.SearchItems'')
       [VAttributes (item_attributes service key)];
     (case (case r of Inl err \<Rightarrow> Inl err
            | Inr [VPaths items] \<Rightarrow> Inr items | Inr _ \<Rightarrow> Inl (store_error c)) of
        Inl err \<Rightarrow> do { e \<leftarrow> backendError (Some ctx) ''find credential'' err; ret (Inl e) }
      | Inr [] \<Rightarrow> ret (Inl (Errorf ''%w: find credential'' [Category ErrNotFound]))
      | Inr (item # _) \<Rightarrow> ret (Inr item))
   }"

definition openSession :: "'w connection \<Rightarrow> 'w ctx \<Rightarrow> ('w, go_error + string) state" where
  "openSession c ctx = do {
     r \<leftarrow> CallWithContext c ctx serviceName secrets_path (serviceInterface @ ''.OpenSession'')
       [VString ''plain'', VVariant (VString '''')];
     (case (case r of Inl err \<Rightarrow> Inl err
            | Inr [VVariant _, VPath session] \<Rightarrow> Inr session | Inr _ \<Rightarrow> Inl (store_error c)) of
        Inl err \<Rightarrow> do { e \<leftarrow> backendError (Some ctx) ''open operation session'' err; ret (Inl e) }
      | Inr session \<Rightarrow> ret (Inr session))
   }"

text \<open>The deferred functions take the operation's error and return it, possibly joined.\<close>

definition closeSession ::
  "'w with_timeout \<Rightarrow> 'w connection \<Rightarrow> string \<Rightarrow> go_error option \<Rightarrow> ('w, go_error option) state" where
  "closeSession WithTimeout c session resultErr =
     (if opt_is resultErr Canceled \<or> opt_is resultErr DeadlineExceeded then ret resultErr
      else do {
        t \<leftarrow> WithTimeout (the Background) cleanupTimeout;
        (case t of (cleanupCtx, cancel) \<Rightarrow> do {
           r \<leftarrow> CallWithContext c cleanupCtx serviceName session (sessionInterface @ ''.Close'') [];
           result \<leftarrow> (case r of
              Inl err \<Rightarrow> do {
                e \<leftarrow> backendError (Some cleanupCtx) ''close operation session'' err;
                ret (errors_Join resultErr (Some e)) }
            | Inr _ \<Rightarrow> ret resultErr);
           _ \<leftarrow> cancel;
           ret result })
      })"

definition client_close :: "'w connection \<Rightarrow> go_error option \<Rightarrow> ('w, go_error option) state" where
  "client_close c resultErr = do {
     r \<leftarrow> Close c;
     ret (case r of None \<Rightarrow> resultErr
          | Some err \<Rightarrow> errors_Join resultErr
              (Some (Errorf ''%w: close session bus: %w'' [Category ErrBackendFailure, err])))
   }"

text \<open>
  An operation with deferred functions: the body runs, then the deferred function sees its
  error and may replace it. \<open>Get\<close> then returns the value together with the error; callers are
  given the error here.
\<close>

definition deferred ::
  "('w, go_error + 'a) state \<Rightarrow> (go_error option \<Rightarrow> ('w, go_error option) state)
     \<Rightarrow> ('w, go_error + 'a) state" where
  "deferred body final = do {
     r \<leftarrow> body;
     e \<leftarrow> final (opt_error r);
     ret (case e of Some err \<Rightarrow> Inl err | None \<Rightarrow> r)
   }"

definition option_result :: "go_error option \<Rightarrow> go_error + unit" where
  "option_result e = (case e of None \<Rightarrow> Inr () | Some err \<Rightarrow> Inl err)"

section \<open>Operations\<close>

definition dbus_get ::
  "'w with_timeout \<Rightarrow> 'w connector \<Rightarrow> 'w ctx option \<Rightarrow> string \<Rightarrow> string \<Rightarrow> ('w, go_error + bytes) state" where
  "dbus_get WithTimeout Connect context_arg service key = do {
     r \<leftarrow> dbus_connect context_arg Connect;
     (case r of
        Inl err \<Rightarrow> ret (Inl err)
      | Inr c \<Rightarrow> let ctx = the context_arg in deferred (do {
          u \<leftarrow> dbus_unlock WithTimeout c ctx defaultCollectionPath;
          (case u of Some err \<Rightarrow> ret (Inl err) | None \<Rightarrow> do {
          f \<leftarrow> dbus_find c ctx service key;
          (case f of Inl err \<Rightarrow> ret (Inl err) | Inr item \<Rightarrow> do {
          u2 \<leftarrow> dbus_unlock WithTimeout c ctx item;
          (case u2 of Some err \<Rightarrow> ret (Inl err) | None \<Rightarrow> do {
          s \<leftarrow> openSession c ctx;
          (case s of Inl err \<Rightarrow> ret (Inl err) | Inr session \<Rightarrow> deferred (do {
            g \<leftarrow> CallWithContext c ctx serviceName item (itemInterface @ ''.GetSecret'') [VPath session];
            (case (case g of Inl err \<Rightarrow> Inl err
                   | Inr [VSecret sv] \<Rightarrow> Inr (sv_Value sv) | Inr _ \<Rightarrow> Inl (store_error c)) of
               Inl err \<Rightarrow> do { e \<leftarrow> backendError (Some ctx) ''get credential'' err; ret (Inl e) }
             | Inr contents \<Rightarrow> ret (Inr contents))
          }) (closeSession WithTimeout c session)) }) }) }) }) (client_close c))
   }"

definition dbus_set ::
  "'w with_timeout \<Rightarrow> 'w connector \<Rightarrow> 'w ctx option \<Rightarrow> string \<Rightarrow> string \<Rightarrow> bytes
     \<Rightarrow> ('w, go_error option) state" where
  "dbus_set WithTimeout Connect context_arg service key contents = do {
     r \<leftarrow> dbus_connect context_arg Connect;
     (case r of
        Inl err \<Rightarrow> ret (Some err)
      | Inr c \<Rightarrow> let ctx = the context_arg in do {
          res \<leftarrow> deferred (do {
            s \<leftarrow> openSession c ctx;
            (case s of Inl err \<Rightarrow> ret (Inl err) | Inr session \<Rightarrow> deferred (do {
              u \<leftarrow> dbus_unlock WithTimeout c ctx defaultCollectionPath;
              (case u of Some err \<Rightarrow> ret (Inl err) | None \<Rightarrow> do {
              g \<leftarrow> CallWithContext c ctx serviceName defaultCollectionPath (collectionInterface @ ''.CreateItem'')
                [VProperties [itemInterface @ ''.Label'' \<mapsto> VVariant (VString (itemLabelPrefix @ '': '' @ key)),
                   itemInterface @ ''.Attributes'' \<mapsto> VVariant (VAttributes (item_attributes service key))],
                 VSecret \<lparr>sv_Session = session, sv_Parameters = [], sv_Value = contents,
                   sv_ContentType = ''application/octet-stream''\<rparr>, VBool True];
              (case (case g of Inl err \<Rightarrow> Inl err
                     | Inr [VPath item, VPath prompt] \<Rightarrow> Inr prompt | Inr _ \<Rightarrow> Inl (store_error c)) of
                 Inl err \<Rightarrow> do { e \<leftarrow> backendError (Some ctx) ''set credential'' err; ret (Inl e) }
               | Inr prompt \<Rightarrow> do { p \<leftarrow> handlePrompt WithTimeout c ctx prompt; ret (option_result p) }) })
            }) (closeSession WithTimeout c session))
          }) (client_close c);
          ret (opt_error res)
        })
   }"

definition dbus_remove ::
  "'w with_timeout \<Rightarrow> 'w connector \<Rightarrow> 'w ctx option \<Rightarrow> string \<Rightarrow> string \<Rightarrow> ('w, go_error option) state" where
  "dbus_remove WithTimeout Connect context_arg service key = do {
     r \<leftarrow> dbus_connect context_arg Connect;
     (case r of
        Inl err \<Rightarrow> ret (Some err)
      | Inr c \<Rightarrow> let ctx = the context_arg in do {
          res \<leftarrow> deferred (do {
            u \<leftarrow> dbus_unlock WithTimeout c ctx defaultCollectionPath;
            (case u of Some err \<Rightarrow> ret (Inl err) | None \<Rightarrow> do {
            f \<leftarrow> dbus_find c ctx service key;
            (case f of Inl err \<Rightarrow> ret (Inl err) | Inr item \<Rightarrow> do {
            u2 \<leftarrow> dbus_unlock WithTimeout c ctx item;
            (case u2 of Some err \<Rightarrow> ret (Inl err) | None \<Rightarrow> do {
            g \<leftarrow> CallWithContext c ctx serviceName item (itemInterface @ ''.Delete'') [];
            (case (case g of Inl err \<Rightarrow> Inl err
                   | Inr [VPath prompt] \<Rightarrow> Inr prompt | Inr _ \<Rightarrow> Inl (store_error c)) of
               Inl err \<Rightarrow> do { e \<leftarrow> backendError (Some ctx) ''delete credential'' err; ret (Inl e) }
             | Inr prompt \<Rightarrow> do { p \<leftarrow> handlePrompt WithTimeout c ctx prompt; ret (option_result p) }) }) }) })
          }) (client_close c);
          ret (opt_error res)
        })
   }"

section \<open>The probe\<close>

definition openProbeSession :: "'w ctx \<Rightarrow> 'w connection \<Rightarrow> ('w, go_error + string) state" where
  "openProbeSession ctx c = do {
     r \<leftarrow> CallWithContext c ctx serviceName secrets_path (serviceInterface @ ''.OpenSession'')
       [VString ''plain'', VVariant (VString '''')];
     ret (case r of Inl err \<Rightarrow> Inl err
          | Inr [VVariant _, VPath session] \<Rightarrow> Inr session | Inr _ \<Rightarrow> Inl (store_error c))
   }"

definition closeProbeSession :: "'w ctx \<Rightarrow> 'w connection \<Rightarrow> string \<Rightarrow> ('w, go_error option) state" where
  "closeProbeSession ctx c session = do {
     r \<leftarrow> CallWithContext c ctx serviceName session (sessionInterface @ ''.Close'') [];
     ret (opt_error r)
   }"

definition probe :: "'w with_timeout \<Rightarrow> 'w connector \<Rightarrow> 'w ctx option \<Rightarrow> ('w, go_error option) state" where
  "probe WithTimeout Connect ctx = do {
     cerr \<leftarrow> dbus_contextError ctx;
     (case cerr of
        Some err \<Rightarrow> ret (Some err)
      | None \<Rightarrow> do {
          t \<leftarrow> WithTimeout (the ctx) probeTimeout;
          (case t of (probeCtx, cancel) \<Rightarrow> do {
             r \<leftarrow> Connect probeCtx;
             result \<leftarrow> (case r of
                Inl err \<Rightarrow> do { e \<leftarrow> backendError (Some probeCtx) ''connect to session bus'' err; ret (Some e) }
              | Inr c \<Rightarrow> do {
                  s \<leftarrow> openProbeSession probeCtx c;
                  res \<leftarrow> (case s of
                     Inl err \<Rightarrow> do { e \<leftarrow> backendError (Some probeCtx) ''open probe session'' err; ret (Some e) }
                   | Inr session \<Rightarrow> do {
                       cl \<leftarrow> closeProbeSession probeCtx c session;
                       (case cl of
                          Some err \<Rightarrow> do { e \<leftarrow> backendError (Some probeCtx) ''close probe session'' err; ret (Some e) }
                        | None \<Rightarrow> ret None) });
                  k \<leftarrow> Close c;
                  ret (if k \<noteq> None \<and> res = None
                    then Some (Errorf ''%w: close session bus: %w'' [Category ErrBackendFailure, the k]) else res) });
             _ \<leftarrow> cancel;
             ret result })
        })
   }"

section \<open>The private session bus\<close>

text \<open>The four stages of \<open>connectSessionBus\<close>: dial, authenticate, hello, close.\<close>

record 'w bus_stages =
  dialSessionBus :: "'w ctx \<Rightarrow> ('w, go_error + 'w connection) state"
  authSessionBus :: "'w connection \<Rightarrow> ('w, go_error option) state"
  helloSessionBus :: "'w connection \<Rightarrow> ('w, go_error option) state"

definition closeFailedSessionBus :: "'w connection \<Rightarrow> go_error \<Rightarrow> ('w, go_error) state" where
  "closeFailedSessionBus c operationErr = do {
     r \<leftarrow> Close c;
     ret (case r of None \<Rightarrow> operationErr
          | Some err \<Rightarrow> the (errors_Join (Some operationErr)
              (Some (Errorf ''%w: close session bus: %w'' [Category ErrBackendFailure, err]))))
   }"

definition connectSessionBus :: "'w bus_stages \<Rightarrow> 'w connector" where
  "connectSessionBus st ctx = do {
     d \<leftarrow> dialSessionBus st ctx;
     (case d of
        Inl err \<Rightarrow> ret (Inl (Errorf ''%w: dial session bus: %w'' [Category ErrBackendUnavailable, err]))
      | Inr c \<Rightarrow> do {
          a \<leftarrow> authSessionBus st c;
          (case a of
             Some err \<Rightarrow> do {
               e \<leftarrow> closeFailedSessionBus c
                 (Errorf ''%w: authenticate session bus: %w'' [Category ErrPermissionDenied, err]);
               ret (Inl e) }
           | None \<Rightarrow> do {
               h \<leftarrow> helloSessionBus st c;
               (case h of
                  Some err \<Rightarrow> do {
                    e \<leftarrow> closeFailedSessionBus c
                      (Errorf ''%w: initialize session bus: %w'' [Category ErrBackendFailure, err]);
                    ret (Inl e) }
                | None \<Rightarrow> ret (Inr c)) }) })
   }"

text \<open>The connector of every operation, and the exported functions.\<close>

definition newConnector :: "'w bus_stages \<Rightarrow> 'w connector" where
  "newConnector st = (\<lambda>ctx. connectSessionBus st ctx)"

definition dbus_Get ::
  "'w with_timeout \<Rightarrow> 'w bus_stages \<Rightarrow> 'w ctx option \<Rightarrow> string \<Rightarrow> string \<Rightarrow> ('w, go_error + bytes) state" where
  "dbus_Get WithTimeout st ctx service key = dbus_get WithTimeout (newConnector st) ctx service key"

definition dbus_Set ::
  "'w with_timeout \<Rightarrow> 'w bus_stages \<Rightarrow> 'w ctx option \<Rightarrow> string \<Rightarrow> string \<Rightarrow> bytes \<Rightarrow> ('w, go_error option) state" where
  "dbus_Set WithTimeout st ctx service key contents =
     dbus_set WithTimeout (newConnector st) ctx service key contents"

definition dbus_Delete ::
  "'w with_timeout \<Rightarrow> 'w bus_stages \<Rightarrow> 'w ctx option \<Rightarrow> string \<Rightarrow> string \<Rightarrow> ('w, go_error option) state" where
  "dbus_Delete WithTimeout st ctx service key = dbus_remove WithTimeout (newConnector st) ctx service key"

definition dbus_Probe :: "'w with_timeout \<Rightarrow> 'w bus_stages \<Rightarrow> 'w ctx option \<Rightarrow> ('w, go_error option) state" where
  "dbus_Probe WithTimeout st ctx = probe WithTimeout (newConnector st) ctx"

lemma dbus_entries:
  "dbus_Get T st = dbus_get T (newConnector st)" "dbus_Set T st = dbus_set T (newConnector st)"
  "dbus_Delete T st = dbus_remove T (newConnector st)" "dbus_Probe T st = probe T (newConnector st)"
  by (simp_all add: fun_eq_iff dbus_Get_def dbus_Set_def dbus_Delete_def dbus_Probe_def)

text \<open>Two sessions: one whose connection is ready, and none.\<close>

definition ready_bus :: "'w connection \<Rightarrow> 'w bus_stages" where
  "ready_bus c = \<lparr>dialSessionBus = (\<lambda>_. ret (Inr c)), authSessionBus = (\<lambda>_. ret None),
     helloSessionBus = (\<lambda>_. ret None)\<rparr>"

definition no_session_bus :: "'w bus_stages" where
  "no_session_bus = \<lparr>dialSessionBus = (\<lambda>_. ret (Inl ErrNotExist)), authSessionBus = (\<lambda>_. ret None),
     helloSessionBus = (\<lambda>_. ret None)\<rparr>"

lemma newConnector_ready: "newConnector (ready_bus c) = (\<lambda>_. ret (Inr c))"
  by (rule ext, rule state.expand, rule ext) (simp add: newConnector_def connectSessionBus_def ready_bus_def)

lemma newConnector_none:
  "newConnector no_session_bus =
     (\<lambda>_. ret (Inl (Errorf ''%w: dial session bus: %w'' [Category ErrBackendUnavailable, ErrNotExist])))"
  by (rule ext, rule state.expand, rule ext) (simp add: newConnector_def connectSessionBus_def no_session_bus_def)

section \<open>Lemmas\<close>

lemma dbus_contextError_eq: "dbus_contextError = ContextError"
  by (rule ext) (simp add: dbus_contextError_def ContextError_def)

lemma opt_error_simps [simp]: "opt_error (Inl e) = Some e" "opt_error (Inr a) = None"
  "opt_error (option_result err) = err"
  by (simp_all add: opt_error_def option_result_def split: option.splits)

lemma run_deferred:
  "run_state (deferred body final) w =
     (case run_state body w of (r, w1) \<Rightarrow>
       (case run_state (final (opt_error r)) w1 of (e, w2) \<Rightarrow>
         ((case e of Some err \<Rightarrow> Inl err | None \<Rightarrow> r), w2)))"
  by (simp add: deferred_def split: prod.splits)

lemma classify_bus_is:
  "err_is (classify_bus op e) (Category c) \<longleftrightarrow>
     err_is e (Category c) \<or> (\<forall>d \<in> set dbus_portable. \<not> err_is e (Category d))
       \<and> c = (case as_BusError e of None \<Rightarrow> ErrBackendFailure | Some n \<Rightarrow> bus_category n)"
  by (auto simp: classify_bus_def list_ex_iff)

section \<open>Releasing what was acquired\<close>

datatype bus_event = Called string string | Bus_closed | Signals_on | Signals_off | Match_added | Match_removed

text \<open>
  A world that keeps a log of what the client does on its connection. Contexts and timers do
  not use the connection.
\<close>

definition silent :: "('w \<Rightarrow> bus_event list) \<Rightarrow> ('w, 'a) state \<Rightarrow> bool" where
  "silent log m \<longleftrightarrow> (\<forall>w. log (snd (run_state m w)) = log w)"

text \<open>Notes of an action that leaves signals and matches as it found them and does not close.\<close>

definition balanced :: "bus_event list \<Rightarrow> bool" where
  "balanced es \<longleftrightarrow> Bus_closed \<notin> set es
     \<and> count_list es Signals_on = count_list es Signals_off
     \<and> count_list es Match_added = count_list es Match_removed"

lemma balanced_simps [simp]:
  "balanced []" "balanced [Called p m]" "balanced es \<Longrightarrow> balanced es' \<Longrightarrow> balanced (es @ es')"
  by (simp_all add: balanced_def)

locale bus_log =
  fixes c :: "'w connection"
    and WithTimeout :: "'w with_timeout"
    and log :: "'w \<Rightarrow> bus_event list"
  assumes log_call: "\<And>x d p m a w. log (snd (run_state (CallWithContext c x d p m a) w)) = log w @ [Called p m]"
    and log_close: "\<And>w. log (snd (run_state (Close c) w)) = log w @ [Bus_closed]"
    and log_signal: "\<And>w. log (snd (run_state (Signal c) w)) = log w @ [Signals_on]"
    and log_unsignal: "\<And>w. log (snd (run_state (RemoveSignal c) w)) = log w @ [Signals_off]"
    and log_match: "\<And>x ms w. log (snd (run_state (AddMatchSignalContext c x ms) w)) =
        log w @ (if fst (run_state (AddMatchSignalContext c x ms) w) = None then [Match_added] else [])"
    and log_unmatch: "\<And>x ms w. log (snd (run_state (RemoveMatchSignalContext c x ms) w)) = log w @ [Match_removed]"
    and log_select: "\<And>x. silent log (select_signal c x)"
    and log_timeout: "\<And>x t. silent log (WithTimeout x t)"
    and timeout_silent: "\<And>x t w y cancel. fst (run_state (WithTimeout x t) w) = (y, cancel) \<Longrightarrow>
        silent log x \<Longrightarrow> silent log y \<and> silent log cancel"
begin

definition tidy :: "('w, 'a) state \<Rightarrow> bool" where
  "tidy m \<longleftrightarrow> (\<forall>w. \<exists>es. log (snd (run_state m w)) = log w @ es \<and> balanced es)"

lemma tidy_silent: "silent log m \<Longrightarrow> tidy m"
  unfolding silent_def tidy_def by (intro allI exI [of _ "[]"]) simp

lemma tidy_ret: "tidy (ret x)"
  by (rule tidy_silent) (simp add: silent_def)

lemma tidy_bind: "tidy m \<Longrightarrow> (\<And>x. tidy (f x)) \<Longrightarrow> tidy (m \<bind> f)"
  unfolding tidy_def
proof
  fix w assume m: "\<forall>w. \<exists>es. log (snd (run_state m w)) = log w @ es \<and> balanced es"
    and f: "\<And>x. \<forall>w. \<exists>es. log (snd (run_state (f x) w)) = log w @ es \<and> balanced es"
  obtain x w1 where x: "run_state m w = (x, w1)" by fastforce
  obtain es1 where "log w1 = log w @ es1" "balanced es1" using m x by (metis snd_conv)
  moreover obtain es2 where "log (snd (run_state (f x) w1)) = log w1 @ es2" "balanced es2" using f by blast
  ultimately show "\<exists>es. log (snd (run_state (m \<bind> f) w)) = log w @ es \<and> balanced es"
    using x by (intro exI [of _ "es1 @ es2"]) simp
qed

lemma tidy_call: "tidy (CallWithContext c x d p m a)"
  unfolding tidy_def using log_call by (metis balanced_simps(2))

lemma tidy_case_sum: "(\<And>e. tidy (f e)) \<Longrightarrow> (\<And>y. tidy (g y)) \<Longrightarrow> tidy (case x of Inl e \<Rightarrow> f e | Inr y \<Rightarrow> g y)"
  by (cases x) auto

lemma tidy_case_option: "tidy m \<Longrightarrow> (\<And>y. tidy (g y)) \<Longrightarrow> tidy (case x of None \<Rightarrow> m | Some y \<Rightarrow> g y)"
  by (cases x) auto

lemma tidy_case_prod: "(\<And>a b. x = (a, b) \<Longrightarrow> tidy (f a b)) \<Longrightarrow> tidy (case x of (a, b) \<Rightarrow> f a b)"
  by (cases x) auto

lemma tidy_if: "tidy m \<Longrightarrow> tidy n \<Longrightarrow> tidy (if b then m else n)"
  by simp

lemma tidy_case_list: "tidy m \<Longrightarrow> (\<And>y ys. tidy (g y ys)) \<Longrightarrow> tidy (case x of [] \<Rightarrow> m | y # ys \<Rightarrow> g y ys)"
  by (cases x) auto

lemmas tidy_rules = tidy_ret tidy_bind tidy_call tidy_case_sum tidy_case_option tidy_case_prod tidy_if tidy_case_list

lemma tidy_ctx: "silent log x \<Longrightarrow> tidy (dbus_contextError (Some x))"
  by (simp add: dbus_contextError_def) (intro tidy_rules tidy_silent)

lemma tidy_backendError: "silent log x \<Longrightarrow> tidy (backendError (Some x) op e)"
  unfolding backendError_def by (intro tidy_rules tidy_ctx)

lemma tidy_prompt_case:
  "tidy m1 \<Longrightarrow> tidy m2 \<Longrightarrow> (\<And>s. tidy (g s)) \<Longrightarrow>
     tidy (case x of Context_done \<Rightarrow> m1 | Channel_closed \<Rightarrow> m2 | Signal_received s \<Rightarrow> g s)"
  by (cases x) auto

lemma tidy_wait: "silent log x \<Longrightarrow> tidy (wait_prompt c x)"
  unfolding wait_prompt_def promptChannelError_def
  by (intro tidy_rules tidy_prompt_case tidy_ctx tidy_silent [OF log_select])

text \<open>Timers run between acquiring and releasing.\<close>

lemma tidy_timeout:
  assumes "silent log x" and "\<And>y cancel. silent log y \<Longrightarrow> silent log cancel \<Longrightarrow> tidy (f y cancel)"
  shows "tidy (WithTimeout x t \<bind> (\<lambda>p. case p of (y, cancel) \<Rightarrow> f y cancel))"
  unfolding tidy_def
proof
  fix w
  obtain y cancel w1 where r: "run_state (WithTimeout x t) w = ((y, cancel), w1)" by (metis surj_pair)
  have "silent log y \<and> silent log cancel" using timeout_silent [of x t w] assms(1) r by simp
  then have "tidy (f y cancel)" using assms(2) by blast
  moreover have "log w1 = log w" using log_timeout [of x t] r by (simp add: silent_def) (metis snd_conv)
  ultimately show "\<exists>es. log (snd (run_state (WithTimeout x t \<bind> (\<lambda>p. case p of (y, cancel) \<Rightarrow> f y cancel)) w)) =
      log w @ es \<and> balanced es"
    using r by (simp add: tidy_def) metis
qed

end

context bus_log
begin

lemma silent_Background: "silent log (the Background)"
  by (simp add: Background_def silent_def)

lemma tidy_signals:
  assumes "tidy m"
  shows "tidy (Signal c \<bind> (\<lambda>_. m \<bind> (\<lambda>r. RemoveSignal c \<bind> (\<lambda>_. ret r))))"
  unfolding tidy_def
proof
  fix w
  obtain w1 where s: "run_state (Signal c) w = ((), w1)" by (cases "run_state (Signal c) w") auto
  obtain r w2 where m: "run_state m w1 = (r, w2)" by fastforce
  obtain w3 where e: "run_state (RemoveSignal c) w2 = ((), w3)" by (cases "run_state (RemoveSignal c) w2") auto
  obtain es where es: "log w2 = log w1 @ es" "balanced es" using assms m by (metis tidy_def snd_conv)
  have "log w1 = log w @ [Signals_on]" using log_signal [of w] s by simp
  moreover have "log w3 = log w2 @ [Signals_off]" using log_unsignal [of w2] e by simp
  ultimately show "\<exists>es. log (snd (run_state (Signal c \<bind> (\<lambda>_. m \<bind> (\<lambda>r. RemoveSignal c \<bind> (\<lambda>_. ret r)))) w)) =
      log w @ es \<and> balanced es"
    using s m e es by (intro exI [of _ "Signals_on # es @ [Signals_off]"]) (simp add: balanced_def)
qed

text \<open>The removal of the match rule in the deferred function.\<close>

definition unmatch :: "match_option list \<Rightarrow> 'r \<Rightarrow> ('w, 'r) state" where
  "unmatch ms result = do {
     t \<leftarrow> WithTimeout (the Background) cleanupTimeout;
     (case t of (cleanupCtx, cancel) \<Rightarrow> do {
        _ \<leftarrow> RemoveMatchSignalContext c cleanupCtx ms;
        _ \<leftarrow> cancel;
        ret result }) }"

lemma log_unmatch_action: "log (snd (run_state (unmatch ms result) w)) = log w @ [Match_removed]"
proof -
  obtain y cancel w1 where t: "run_state (WithTimeout (the Background) cleanupTimeout) w = ((y, cancel), w1)"
    by (metis surj_pair)
  have "log w1 = log w" using log_timeout t by (metis silent_def snd_conv)
  moreover obtain u w2 where u: "run_state (RemoveMatchSignalContext c y ms) w1 = (u, w2)" by fastforce
  moreover have "log w2 = log w1 @ [Match_removed]" using log_unmatch [of y ms w1] u by simp
  moreover have "log (snd (run_state cancel w2)) = log w2"
    using timeout_silent [of "the Background" cleanupTimeout w y cancel] t silent_Background by (simp add: silent_def)
  moreover obtain w3 where "run_state cancel w2 = ((), w3)" by (cases "run_state cancel w2") auto
  ultimately show ?thesis using t by (simp add: unmatch_def)
qed

lemma tidy_match:
  assumes "\<And>err. tidy (k err)" and "tidy m"
  shows "tidy (AddMatchSignalContext c x ms \<bind>
     (\<lambda>a. case a of Some err \<Rightarrow> k err | None \<Rightarrow> m \<bind> unmatch ms))"
  unfolding tidy_def
proof
  fix w
  let ?all = "AddMatchSignalContext c x ms \<bind>
     (\<lambda>a. case a of Some err \<Rightarrow> k err | None \<Rightarrow> m \<bind> unmatch ms)"
  obtain a w1 where a: "run_state (AddMatchSignalContext c x ms) w = (a, w1)" by fastforce
  have l: "log w1 = log w @ (if a = None then [Match_added] else [])" using log_match [of x ms w] a by simp
  show "\<exists>es. log (snd (run_state ?all w)) = log w @ es \<and> balanced es"
  proof (cases a)
    case None
    obtain r w2 where m: "run_state m w1 = (r, w2)" by fastforce
    obtain es where "log w2 = log w1 @ es" "balanced es" using assms(2) m by (metis tidy_def snd_conv)
    then show ?thesis using a l None m log_unmatch_action [of ms r w2]
      by (intro exI [of _ "Match_added # es @ [Match_removed]"]) (simp add: balanced_def)
  next
    case (Some err)
    obtain es where "log (snd (run_state (k err) w1)) = log w1 @ es" "balanced es"
      using assms(1) [of err] unfolding tidy_def by blast
    then show ?thesis using a l Some by simp
  qed
qed

lemma tidy_handlePrompt:
  assumes "silent log x"
  shows "tidy (handlePrompt WithTimeout c x prompt)"
proof (cases "prompt = ''/''")
  case True
  then show ?thesis by (simp add: handlePrompt_def tidy_ret)
next
  case False
  let ?m = "AddMatchSignalContext c x (prompt_match prompt) \<bind> (\<lambda>a. case a of
       Some err \<Rightarrow> do { e \<leftarrow> backendError (Some x) ''subscribe to prompt'' err; ret (Some e) }
     | None \<Rightarrow> do {
         r \<leftarrow> CallWithContext c x serviceName prompt (promptInterface @ ''.Prompt'') [VString ''''];
         (case r of
            Inl err \<Rightarrow> do { e \<leftarrow> backendError (Some x) ''show prompt'' err; ret (Some e) }
          | Inr _ \<Rightarrow> wait_prompt c x) } \<bind> unmatch (prompt_match prompt))"
  have "tidy ?m"
    by (intro tidy_match) (intro tidy_rules tidy_backendError tidy_wait assms)+
  then have "tidy (Signal c \<bind> (\<lambda>_. ?m \<bind> (\<lambda>r. RemoveSignal c \<bind> (\<lambda>_. ret r))))"
    by (rule tidy_signals)
  moreover have "handlePrompt WithTimeout c x prompt =
      Signal c \<bind> (\<lambda>_. ?m \<bind> (\<lambda>r. RemoveSignal c \<bind> (\<lambda>_. ret r)))"
    using False by (simp add: handlePrompt_def unmatch_def [abs_def] bind_assoc cong: option.case_cong)
  ultimately show ?thesis by simp
qed

end

context bus_log
begin

lemma tidy_deferred: "tidy body \<Longrightarrow> (\<And>e. tidy (final e)) \<Longrightarrow> tidy (deferred body final)"
  unfolding deferred_def by (intro tidy_rules)

lemma tidy_unlock: "silent log x \<Longrightarrow> tidy (dbus_unlock WithTimeout c x object)"
  unfolding dbus_unlock_def by (intro tidy_rules tidy_backendError tidy_handlePrompt)

lemma tidy_find: "silent log x \<Longrightarrow> tidy (dbus_find c x service key)"
  unfolding dbus_find_def by (intro tidy_rules tidy_backendError)

lemma tidy_openSession: "silent log x \<Longrightarrow> tidy (openSession c x)"
  unfolding openSession_def by (intro tidy_rules tidy_backendError)

lemma tidy_closeSession: "tidy (closeSession WithTimeout c session e)"
  unfolding closeSession_def
  by (intro tidy_if tidy_ret tidy_timeout [OF silent_Background])
    (intro tidy_rules tidy_backendError tidy_silent [of "_ :: ('w, unit) state"] | assumption)+

lemmas tidy_parts = tidy_rules tidy_deferred tidy_unlock tidy_find tidy_openSession tidy_closeSession
  tidy_backendError tidy_handlePrompt

text \<open>What a tidy body leaves is exactly one close, at the end.\<close>

lemma log_deferred_close:
  assumes "tidy body"
  shows "\<exists>es. log (snd (run_state (deferred body (client_close c)) w)) = log w @ es @ [Bus_closed] \<and> balanced es"
proof -
  obtain r w1 where b: "run_state body w = (r, w1)" by fastforce
  obtain es where "log w1 = log w @ es" "balanced es" using assms b by (metis tidy_def snd_conv)
  moreover have "log (snd (run_state (client_close c e) w1)) = log w1 @ [Bus_closed]" for e
    using log_close [of w1] by (cases "run_state (Close c) w1") (simp add: client_close_def)
  ultimately show ?thesis using b
    by (intro exI [of _ es]) (simp add: run_deferred split: prod.splits, metis snd_conv)
qed

lemma operations_release:
  assumes x: "silent log x" and conn: "run_state (dbus_connect (Some x) Connect) w = (Inr c, w0)"
  shows "\<exists>es. log (snd (run_state (dbus_get WithTimeout Connect (Some x) service key) w)) = log w0 @ es @ [Bus_closed]
       \<and> balanced es"
    and "\<exists>es. log (snd (run_state (dbus_set WithTimeout Connect (Some x) service key contents) w)) = log w0 @ es @ [Bus_closed]
       \<and> balanced es"
    and "\<exists>es. log (snd (run_state (dbus_remove WithTimeout Connect (Some x) service key) w)) = log w0 @ es @ [Bus_closed]
       \<and> balanced es"
proof -
  show "\<exists>es. log (snd (run_state (dbus_get WithTimeout Connect (Some x) service key) w)) = log w0 @ es @ [Bus_closed]
       \<and> balanced es"
    unfolding dbus_get_def run_bind_eq [OF conn] sum.case Let_def option.sel
    by (rule log_deferred_close) (intro tidy_parts x)
  show "\<exists>es. log (snd (run_state (dbus_remove WithTimeout Connect (Some x) service key) w)) = log w0 @ es @ [Bus_closed]
       \<and> balanced es"
    unfolding dbus_remove_def run_bind_eq [OF conn] sum.case Let_def option.sel snd_run_bind_ret
    by (rule log_deferred_close) (intro tidy_parts x)
  show "\<exists>es. log (snd (run_state (dbus_set WithTimeout Connect (Some x) service key contents) w)) = log w0 @ es @ [Bus_closed]
       \<and> balanced es"
    unfolding dbus_set_def run_bind_eq [OF conn] sum.case Let_def option.sel snd_run_bind_ret
    by (rule log_deferred_close) (intro tidy_parts x)
qed

end

text \<open>The whole life of a connection, from the dial: the stages up to it do not use the log.\<close>

definition dials :: "('w \<Rightarrow> bus_event list) \<Rightarrow> 'w bus_stages \<Rightarrow> 'w connection \<Rightarrow> bool" where
  "dials log st c \<longleftrightarrow> (\<forall>y. silent log (dialSessionBus st y) \<and> (\<forall>u. fst (run_state (dialSessionBus st y) u) = Inr c))
     \<and> silent log (authSessionBus st c) \<and> silent log (helloSessionBus st c)"

definition released :: "('w \<Rightarrow> bus_event list) \<Rightarrow> ('w, 'a) state \<Rightarrow> 'w \<Rightarrow> bool" where
  "released log m w \<longleftrightarrow> (\<exists>es. log (snd (run_state m w)) = log w @ es @ [Bus_closed] \<and> balanced es)"

context bus_log
begin

lemma connector_closes:
  assumes "dials log st c" and "run_state (newConnector st y) u = (r, u')"
  shows "r = Inr c \<and> log u' = log u \<or> (\<exists>e. r = Inl e) \<and> log u' = log u @ [Bus_closed]"
proof -
  obtain d u1 where d: "run_state (dialSessionBus st y) u = (d, u1)" by fastforce
  obtain a u2 where a: "run_state (authSessionBus st c) u1 = (a, u2)" by fastforce
  obtain h u3 where h: "run_state (helloSessionBus st c) u2 = (h, u3)" by fastforce
  have l: "d = Inr c" "log u1 = log u" "log u2 = log u1" "log u3 = log u2"
    using assms(1) d a h unfolding dials_def silent_def by (metis fst_conv snd_conv)+
  have k: "log v' = log v @ [Bus_closed]" if "run_state (closeFailedSessionBus c e) v = (e', v')" for e e' v v'
    using that log_close [of v] by (cases "run_state (Close c) v") (simp add: closeFailedSessionBus_def)
  show ?thesis
  proof (cases a)
    case (Some e)
    with assms(2) d a l show ?thesis
      by (auto simp: newConnector_def connectSessionBus_def split: prod.splits dest!: k)
  next
    case None
    with assms(2) d a h l show ?thesis
      by (cases h) (auto simp: newConnector_def connectSessionBus_def split: prod.splits dest!: k)
  qed
qed

lemma silent_backendError: "silent log x \<Longrightarrow> log (snd (run_state (backendError (Some x) op e) u)) = log u"
  by (auto simp: silent_def backendError_def dbus_contextError_def split: prod.splits) (metis snd_conv)+

lemma dialled_release:
  assumes st: "dials log st c" and x: "silent log x" "fst (run_state x w) = None"
  shows "released log (dbus_Get WithTimeout st (Some x) service key) w"
    and "released log (dbus_Set WithTimeout st (Some x) service key contents) w"
    and "released log (dbus_Delete WithTimeout st (Some x) service key) w"
proof -
  obtain w0 where c: "run_state (dbus_contextError (Some x)) w = (None, w0)" "log w0 = log w"
    using x unfolding silent_def dbus_contextError_def by (cases "run_state x w") (auto, metis snd_conv)
  obtain r w1 where r: "run_state (newConnector st x) w0 = (r, w1)" by fastforce
  have "released log (dbus_Get WithTimeout st (Some x) service key) w
      \<and> released log (dbus_Set WithTimeout st (Some x) service key contents) w
      \<and> released log (dbus_Delete WithTimeout st (Some x) service key) w"
  proof (cases r)
    case (Inr c')
    with connector_closes [OF st r] c have l: "c' = c" "log w1 = log w" by auto
    have "run_state (dbus_connect (Some x) (newConnector st)) w = (Inr c, w1)"
      using c(1) r Inr l(1) by (simp add: dbus_connect_def)
    from operations_release [OF x(1) this] l(2) show ?thesis
      unfolding released_def dbus_entries by simp
  next
    case (Inl err)
    with connector_closes [OF st r] c have l: "log w1 = log w @ [Bus_closed]" by auto
    obtain e w2 where e: "run_state (backendError (Some x) ''connect to session bus'' err) w1 = (e, w2)" by fastforce
    have k: "run_state (dbus_connect (Some x) (newConnector st)) w = (Inl e, w2)" "log w2 = log w @ [Bus_closed]"
      using c(1) r Inl e l silent_backendError [OF x(1), of "''connect to session bus''" err w1]
      by (simp_all add: dbus_connect_def)
    then show ?thesis
      unfolding released_def dbus_entries dbus_get_def dbus_set_def dbus_remove_def
      by (intro conjI exI [of _ "[]"]) simp_all
  qed
  then show "released log (dbus_Get WithTimeout st (Some x) service key) w"
    "released log (dbus_Set WithTimeout st (Some x) service key contents) w"
    "released log (dbus_Delete WithTimeout st (Some x) service key) w" by blast+
qed

lemma probe_release:
  assumes st: "dials log st c" and x: "silent log x" "fst (run_state x w) = None"
  shows "released log (dbus_Probe WithTimeout st (Some x)) w"
proof -
  obtain w0 where c: "run_state (dbus_contextError (Some x)) w = (None, w0)" "log w0 = log w"
    using x unfolding silent_def dbus_contextError_def by (cases "run_state x w") (auto, metis snd_conv)
  obtain y cancel w1 where t: "run_state (WithTimeout x probeTimeout) w0 = ((y, cancel), w1)" by (metis surj_pair)
  have y: "silent log y" "silent log cancel" and l1: "log w1 = log w"
    using timeout_silent [of x probeTimeout w0] log_timeout [of x probeTimeout] t x(1) c(2)
    by (simp_all add: silent_def) (metis snd_conv)
  obtain r w2 where r: "run_state (newConnector st y) w1 = (r, w2)" by fastforce
  show ?thesis
  proof (cases r)
    case (Inl err)
    with connector_closes [OF st r] l1 have "log w2 = log w @ [Bus_closed]" by auto
    with silent_backendError [OF y(1), of "''connect to session bus''" err w2] y(2) show ?thesis
      unfolding released_def
      by (intro exI [of _ "[]"])
        (simp add: dbus_entries probe_def c(1) t r Inl silent_def split: prod.splits, metis snd_conv)
  next
    case (Inr c')
    with connector_closes [OF st r] l1 have l2: "c' = c" "log w2 = log w" by auto
    define body where "body = do {
      s \<leftarrow> openProbeSession y c;
      (case s of
         Inl err \<Rightarrow> do { e \<leftarrow> backendError (Some y) ''open probe session'' err; ret (Some e) }
       | Inr session \<Rightarrow> do {
           cl \<leftarrow> closeProbeSession y c session;
           (case cl of
              Some err \<Rightarrow> do { e \<leftarrow> backendError (Some y) ''close probe session'' err; ret (Some e) }
            | None \<Rightarrow> ret None) }) }"
    have "tidy body"
      unfolding body_def openProbeSession_def closeProbeSession_def
      by (intro tidy_rules tidy_backendError y(1))
    then obtain res w3 es where b: "run_state body w2 = (res, w3)" "log w3 = log w @ es" "balanced es"
      using l2(2) unfolding tidy_def by (metis prod.collapse)
    obtain s w2' where s: "run_state (openProbeSession y c) w2 = (s, w2')" by fastforce
    have rest: "run_state (case s of
         Inl err \<Rightarrow> do { e \<leftarrow> backendError (Some y) ''open probe session'' err; ret (Some e) }
       | Inr session \<Rightarrow> do {
           cl \<leftarrow> closeProbeSession y c session;
           (case cl of
              Some err \<Rightarrow> do { e \<leftarrow> backendError (Some y) ''close probe session'' err; ret (Some e) }
            | None \<Rightarrow> ret None) }) w2' = (res, w3)"
      using b(1) s by (simp add: body_def)
    obtain k w4 where k: "run_state (Close c) w3 = (k, w4)" by fastforce
    have l4: "log w4 = log w @ es @ [Bus_closed]" using log_close [of w3] k b(2) by simp
    show ?thesis
      unfolding released_def
      using y(2) l4 b(3)
      by (intro exI [of _ es])
        (simp add: dbus_entries probe_def c(1) t r Inr l2(1) s rest k silent_def split: prod.splits, metis snd_conv)
  qed
qed

end

text \<open>A bus whose world is the log itself, for the interpretation.\<close>

definition note_event :: "bus_event \<Rightarrow> 'a \<Rightarrow> (bus_event list, 'a) state" where
  "note_event e r = State (\<lambda>es. (r, es @ [e]))"

definition log_connection :: "(string \<Rightarrow> string \<Rightarrow> go_error + bus_value list) \<Rightarrow> prompt_event
     \<Rightarrow> bus_event list connection" where
  "log_connection reply ev =
     \<lparr>CallWithContext = (\<lambda>_ _ p m _. note_event (Called p m) (reply p m)), store_error = Plain ''dbus.Store'',
      Close = note_event Bus_closed None, AddMatchSignalContext = (\<lambda>_ _. note_event Match_added None),
      RemoveMatchSignalContext = (\<lambda>_ _. note_event Match_removed None),
      Signal = note_event Signals_on (), RemoveSignal = note_event Signals_off (),
      select_signal = (\<lambda>_. ret ev)\<rparr>"

interpretation logged: bus_log "log_connection reply ev" "\<lambda>x _. ret (x, ret ())" "\<lambda>es. es" for reply ev
  by unfold_locales (auto simp: log_connection_def note_event_def silent_def)

section \<open>The items of a collection\<close>

text \<open>
  A collection has its items by their object paths, each with attributes and a value. A search
  finds every item that has the attributes asked for, whatever attributes it has besides.
\<close>

type_synonym attributes = "string \<rightharpoonup> string"
type_synonym object_table = "string \<rightharpoonup> attributes \<times> bytes"

definition matching :: "object_table \<Rightarrow> attributes \<Rightarrow> string set" where
  "matching obs a = {p. \<exists>b v. obs p = Some (b, v) \<and> a \<subseteq>\<^sub>m b}"

text \<open>
  A provider may store an item with attributes of its own besides those it was given. The
  adapter can rely on a search for its keys only where no item of another program answers to
  them: an item that matches a key of the service has exactly the attributes the provider gives
  to an item of that key, and there is one of them at most.
\<close>

definition clear :: "(attributes \<Rightarrow> attributes) \<Rightarrow> object_table \<Rightarrow> string \<Rightarrow> bool" where
  "clear stored obs service \<longleftrightarrow>
     (\<forall>key. \<forall>p \<in> matching obs (item_attributes service key).
        matching obs (item_attributes service key) = {p}
        \<and> (\<exists>v. obs p = Some (stored (item_attributes service key), v)))"

text \<open>The values by service and key; where several items match, that of any of them.\<close>

definition credentials :: "object_table \<Rightarrow> string \<times> string \<rightharpoonup> bytes" where
  "credentials obs slot =
     (let ps = matching obs (item_attributes (fst slot) (snd slot))
      in if ps = {} then None else Some (snd (the (obs (SOME p. p \<in> ps)))))"

text \<open>The items that match no key of the service are still there as they were.\<close>

definition kept :: "object_table \<Rightarrow> object_table \<Rightarrow> string \<Rightarrow> bool" where
  "kept obs obs' service \<longleftrightarrow>
     (\<forall>p b v. obs p = Some (b, v) \<longrightarrow> (\<forall>key. \<not> item_attributes service key \<subseteq>\<^sub>m b) \<longrightarrow> obs' p = Some (b, v))"

lemma item_attributes_le:
  "item_attributes service key \<subseteq>\<^sub>m b \<longleftrightarrow> b keyAttribute = Some key \<and> b serviceAttribute = Some service"
  by (auto simp: item_attributes_def map_le_def keyAttribute_def serviceAttribute_def)

lemma matching_item:
  "p \<in> matching obs (item_attributes service key) \<longleftrightarrow>
     (\<exists>b v. obs p = Some (b, v) \<and> b keyAttribute = Some key \<and> b serviceAttribute = Some service)"
  by (simp add: matching_def item_attributes_le)

lemma matching_upd:
  "q \<in> matching (obs(p := x)) a \<longleftrightarrow>
     (if q = p then \<exists>b v. x = Some (b, v) \<and> a \<subseteq>\<^sub>m b else q \<in> matching obs a)"
  by (simp add: matching_def)

lemma matching_at:
  "matching (obs(p := x)) a =
     (if \<exists>b v. x = Some (b, v) \<and> a \<subseteq>\<^sub>m b then insert p (matching obs a) else matching obs a - {p})"
proof (rule set_eqI)
  fix q
  show "q \<in> matching (obs(p := x)) a \<longleftrightarrow>
     q \<in> (if \<exists>b v. x = Some (b, v) \<and> a \<subseteq>\<^sub>m b then insert p (matching obs a) else matching obs a - {p})"
    by (cases "q = p"; cases "\<exists>b v. x = Some (b, v) \<and> a \<subseteq>\<^sub>m b") (simp_all only: matching_upd if_True if_False insert_iff Diff_iff simp_thms empty_iff)
qed

lemma item_attributes_differ:
  "item_attributes service key \<subseteq>\<^sub>m b \<Longrightarrow> item_attributes service' key' \<subseteq>\<^sub>m b \<Longrightarrow> (service', key') = (service, key)"
  by (simp add: item_attributes_le)

text \<open>The path of the one item of a key, or of no item, takes an item of that key.\<close>

definition place :: "object_table \<Rightarrow> string \<Rightarrow> string \<Rightarrow> string \<Rightarrow> bool" where
  "place obs service key p \<longleftrightarrow> obs p = None \<and> matching obs (item_attributes service key) = {}
     \<or> matching obs (item_attributes service key) = {p}"

lemma place_other:
  assumes "place obs service key p" and "(service', key') \<noteq> (service, key)"
  shows "p \<notin> matching obs (item_attributes service' key')"
proof
  assume "p \<in> matching obs (item_attributes service' key')"
  then obtain b v where b: "obs p = Some (b, v)" "item_attributes service' key' \<subseteq>\<^sub>m b" by (auto simp: matching_def)
  with assms(1) have "p \<in> matching obs (item_attributes service key)" by (auto simp: place_def)
  with b(1) have "item_attributes service key \<subseteq>\<^sub>m b" by (auto simp: matching_def)
  with b(2) assms(2) item_attributes_differ show False by blast
qed

lemma credentials_cong:
  assumes "matching obs (item_attributes service key) = matching obs' (item_attributes service key)"
    and "\<And>p. p \<in> matching obs (item_attributes service key) \<Longrightarrow> obs p = obs' p"
  shows "credentials obs (service, key) = credentials obs' (service, key)"
proof (cases "matching obs (item_attributes service key) = {}")
  case False
  then have "(SOME p. p \<in> matching obs (item_attributes service key)) \<in> matching obs (item_attributes service key)"
    by (rule some_in_eq [THEN iffD2])
  with assms show ?thesis by (simp add: credentials_def Let_def)
qed (use assms(1) in \<open>simp add: credentials_def\<close>)

lemma credentials_sole:
  "matching obs (item_attributes service key) = {p} \<Longrightarrow> credentials obs (service, key) = Some (snd (the (obs p)))"
  by (simp add: credentials_def)

text \<open>Storing and removing at a place of the key changes the credential of that key and no other.\<close>

lemma matching_at_other:
  assumes "place obs service key p" and "(service', key') \<noteq> (service, key)"
    and "x = None \<or> (\<exists>v b. x = Some (b, v) \<and> item_attributes service key \<subseteq>\<^sub>m b)"
  shows "matching (obs(p := x)) (item_attributes service' key') = matching obs (item_attributes service' key')"
proof (rule set_eqI)
  fix q
  have "\<not> (\<exists>b v. x = Some (b, v) \<and> item_attributes service' key' \<subseteq>\<^sub>m b)"
    using assms(2,3) item_attributes_differ by blast
  then show "q \<in> matching (obs(p := x)) (item_attributes service' key')
      \<longleftrightarrow> q \<in> matching obs (item_attributes service' key')"
    using place_other [OF assms(1,2)] by (simp add: matching_upd)
qed

lemma credentials_at_other:
  assumes "place obs service key p" and "(service', key') \<noteq> (service, key)"
    and "x = None \<or> (\<exists>v b. x = Some (b, v) \<and> item_attributes service key \<subseteq>\<^sub>m b)"
  shows "credentials (obs(p := x)) (service', key') = credentials obs (service', key')"
proof (rule credentials_cong)
  show "matching (obs(p := x)) (item_attributes service' key') = matching obs (item_attributes service' key')"
    using assms by (rule matching_at_other)
  show "(obs(p := x)) q = obs q" if "q \<in> matching (obs(p := x)) (item_attributes service' key')" for q
    using that place_other [OF assms(1,2)] matching_at_other [OF assms] by auto
qed

lemma matching_stored:
  assumes "place obs service key p" and "item_attributes service key \<subseteq>\<^sub>m b"
  shows "matching (obs(p \<mapsto> (b, v))) (item_attributes service key) = {p}"
proof -
  have "matching obs (item_attributes service key) \<subseteq> {p}" using assms(1) by (auto simp: place_def)
  with assms(2) show ?thesis by (auto simp: matching_at)
qed

lemma matching_removed:
  "matching obs (item_attributes service key) = {p} \<Longrightarrow>
     matching (obs(p := None)) (item_attributes service key) = {}"
  by (simp add: matching_at)

lemma credentials_stored:
  assumes "place obs service key p" and "item_attributes service key \<subseteq>\<^sub>m b"
  shows "credentials (obs(p \<mapsto> (b, v))) = (credentials obs)((service, key) \<mapsto> v)"
proof (rule ext)
  fix slot :: "string \<times> string"
  obtain service' key' where slot: "slot = (service', key')" by fastforce
  show "credentials (obs(p \<mapsto> (b, v))) slot = ((credentials obs)((service, key) \<mapsto> v)) slot"
  proof (cases "slot = (service, key)")
    case True
    with credentials_sole [OF matching_stored [OF assms]] show ?thesis by simp
  next
    case False
    with credentials_at_other [OF assms(1)] assms(2) slot show ?thesis by auto
  qed
qed

lemma credentials_removed:
  assumes "matching obs (item_attributes service key) = {p}"
  shows "credentials (obs(p := None)) = (credentials obs)((service, key) := None)"
proof (rule ext)
  fix slot :: "string \<times> string"
  obtain service' key' where slot: "slot = (service', key')" by fastforce
  have pl: "place obs service key p" using assms by (simp add: place_def)
  show "credentials (obs(p := None)) slot = ((credentials obs)((service, key) := None)) slot"
  proof (cases "slot = (service, key)")
    case True
    with matching_removed [OF assms] show ?thesis by (simp add: credentials_def)
  next
    case False
    with credentials_at_other [OF pl] slot show ?thesis by auto
  qed
qed

lemma clear_stored:
  assumes "clear stored obs service" and "place obs service key p"
    and "item_attributes service key \<subseteq>\<^sub>m stored (item_attributes service key)"
  shows "clear stored (obs(p \<mapsto> (stored (item_attributes service key), v))) service"
  unfolding clear_def
proof (intro allI ballI)
  fix key' q
  let ?obs = "obs(p \<mapsto> (stored (item_attributes service key), v))"
  assume q: "q \<in> matching ?obs (item_attributes service key')"
  show "matching ?obs (item_attributes service key') = {q}
      \<and> (\<exists>v. ?obs q = Some (stored (item_attributes service key'), v))"
  proof (cases "key' = key")
    case True
    with q matching_stored [OF assms(2,3)] show ?thesis by simp
  next
    case False
    with q matching_at_other [OF assms(2), of service key'] assms(3) have m:
      "matching ?obs (item_attributes service key') = matching obs (item_attributes service key')"
      "q \<in> matching obs (item_attributes service key')" by auto
    moreover have "q \<noteq> p" using False place_other [OF assms(2)] m(2) by blast
    ultimately show ?thesis using assms(1) unfolding clear_def by fastforce
  qed
qed

lemma clear_removed:
  assumes "clear stored obs service"
  shows "clear stored (obs(p := None)) service"
  unfolding clear_def
proof (intro allI ballI)
  fix key q
  let ?a = "item_attributes service key"
  assume q: "q \<in> matching (obs(p := None)) ?a"
  then have "q \<noteq> p" "q \<in> matching obs ?a" by (simp_all add: matching_upd split: if_splits)
  with assms have m: "matching obs ?a = {q}" "\<exists>v. obs q = Some (stored ?a, v)" unfolding clear_def by blast+
  moreover have "matching (obs(p := None)) ?a = {q}"
    using \<open>q \<noteq> p\<close> m(1) by (simp add: matching_at)
  ultimately show "matching (obs(p := None)) ?a = {q} \<and> (\<exists>v. (obs(p := None)) q = Some (stored ?a, v))"
    using \<open>q \<noteq> p\<close> by simp
qed

lemma kept_refl [simp]: "kept obs obs service"
  by (simp add: kept_def)

lemma kept_at:
  assumes "kept obs0 obs service" and "place obs service key p"
  shows "kept obs0 (obs(p := x)) service"
  unfolding kept_def
proof (intro allI impI)
  fix q b v
  assume q: "obs0 q = Some (b, v)" "\<forall>key. \<not> item_attributes service key \<subseteq>\<^sub>m b"
  with assms(1) have "obs q = Some (b, v)" unfolding kept_def by blast
  moreover from this q(2) have "q \<notin> matching obs (item_attributes service key)" by (auto simp: matching_def)
  ultimately have "q \<noteq> p" using assms(2) by (auto simp: place_def)
  then show "(obs(p := x)) q = Some (b, v)" using \<open>obs q = Some (b, v)\<close> by simp
qed

section \<open>The contract\<close>

text \<open>
  The documented behaviour of a Secret Service whose collection needs no prompt: a search for
  the attributes of a key finds the items that have them, and maybe others; a new item has a new
  path and its attributes, as the provider stores them; it replaces the one with the same
  attributes; items are read and deleted by their path. Reading, deleting and creating need the
  item or the collection unlocked, which only \<open>Unlock\<close> does. What names and values fit is
  provider-specific (\<open>takes\<close>, \<open>fits\<close>); nothing is promised for others, nor for an item to be
  created where an item of another kind answers to its attributes. Nobody else changes the
  collection meanwhile.
\<close>

locale secret_service =
  fixes c :: "'w connection"
    and Connect :: "'w connector"
    and WithTimeout :: "'w with_timeout"
    and objects :: "'w \<Rightarrow> object_table"
    and stored :: "attributes \<Rightarrow> attributes"
    and takes :: "string \<Rightarrow> string \<Rightarrow> bool"
    and fits :: "bytes \<Rightarrow> bool"
    and unlocked :: "'w \<Rightarrow> string \<Rightarrow> bool"
    and good :: "'w \<Rightarrow> bool"
  assumes connects: "\<And>x w. good w \<Longrightarrow> \<exists>w'. run_state (Connect x) w = (Inr c, w') \<and> good w' \<and> objects w' = objects w"
    and timeout: "\<And>x t w. good w \<Longrightarrow> \<exists>y w'. run_state (WithTimeout x t) w = ((y, ret ()), w') \<and> good w'
        \<and> objects w' = objects w"
    and unlock: "\<And>x p w. good w \<Longrightarrow> \<exists>us w'.
        run_state (CallWithContext c x serviceName secrets_path (serviceInterface @ ''.Unlock'') [VPaths [p]]) w
          = (Inr [VPaths us, VPath ''/''], w') \<and> good w' \<and> objects w' = objects w \<and> unlocked w' p"
    and open_session: "\<And>x a w. good w \<Longrightarrow> \<exists>v s w'.
        run_state (CallWithContext c x serviceName secrets_path (serviceInterface @ ''.OpenSession'') a) w
          = (Inr [VVariant v, VPath s], w') \<and> good w' \<and> objects w' = objects w \<and> unlocked w' = unlocked w"
    and close_session: "\<And>x s w. good w \<Longrightarrow> \<exists>vs w'.
        run_state (CallWithContext c x serviceName s (sessionInterface @ ''.Close'') []) w
          = (Inr vs, w') \<and> good w' \<and> objects w' = objects w"
    and close: "\<And>w. good w \<Longrightarrow> \<exists>w'. run_state (Close c) w = (None, w') \<and> good w' \<and> objects w' = objects w"
    and search: "\<And>x service key w. good w \<Longrightarrow> takes service key \<Longrightarrow> \<exists>ps w'.
        run_state (CallWithContext c x serviceName defaultCollectionPath (collectionInterface @ ''.SearchItems'')
          [VAttributes (item_attributes service key)]) w = (Inr [VPaths ps], w') \<and> good w' \<and> objects w' = objects w
          \<and> set ps = matching (objects w) (item_attributes service key)"
    and get_secret: "\<And>x p b v s w. good w \<Longrightarrow> objects w p = Some (b, v) \<Longrightarrow> unlocked w p \<Longrightarrow> \<exists>sv w'.
        run_state (CallWithContext c x serviceName p (itemInterface @ ''.GetSecret'') [VPath s]) w
          = (Inr [VSecret sv], w') \<and> sv_Value sv = v \<and> good w' \<and> objects w' = objects w"
    and keeps_given: "\<And>service key. item_attributes service key \<subseteq>\<^sub>m stored (item_attributes service key)"
    and create_item: "\<And>x l service key sv w. good w \<Longrightarrow> takes service key \<Longrightarrow> fits (sv_Value sv) \<Longrightarrow>
        unlocked w defaultCollectionPath \<Longrightarrow>
        (\<And>p. p \<in> matching (objects w) (item_attributes service key) \<Longrightarrow>
          matching (objects w) (item_attributes service key) = {p}
          \<and> (\<exists>v. objects w p = Some (stored (item_attributes service key), v))) \<Longrightarrow>
        \<exists>p w'. run_state (CallWithContext c x serviceName defaultCollectionPath (collectionInterface @ ''.CreateItem'')
          [VProperties [itemInterface @ ''.Label'' \<mapsto> l,
             itemInterface @ ''.Attributes'' \<mapsto> VVariant (VAttributes (item_attributes service key))],
           VSecret sv, VBool True]) w
          = (Inr [VPath p, VPath ''/''], w') \<and> good w' \<and> place (objects w) service key p
          \<and> objects w' = (objects w)(p \<mapsto> (stored (item_attributes service key), sv_Value sv))"
    and delete_item: "\<And>x p w. good w \<Longrightarrow> objects w p \<noteq> None \<Longrightarrow> unlocked w p \<Longrightarrow> \<exists>w'.
        run_state (CallWithContext c x serviceName p (itemInterface @ ''.Delete'') []) w
          = (Inr [VPath ''/''], w') \<and> good w' \<and> objects w' = (objects w)(p := None)"
begin

lemma unlock_ok:
  assumes "good w"
  shows "\<exists>w'. run_state (dbus_unlock WithTimeout c x p) w = (None, w') \<and> good w' \<and> objects w' = objects w
     \<and> unlocked w' p"
  using unlock [OF assms, of x p] by (auto simp: dbus_unlock_def handlePrompt_def)

lemma find_ok:
  assumes "good w" and "takes service key"
  shows "\<exists>r w'. run_state (dbus_find c x service key) w = (r, w') \<and> good w' \<and> objects w' = objects w
     \<and> (if matching (objects w) (item_attributes service key) = {}
        then r = Inl (Errorf ''%w: find credential'' [Category ErrNotFound])
        else \<exists>p \<in> matching (objects w) (item_attributes service key). r = Inr p)"
proof -
  obtain ps w' where s: "run_state (CallWithContext c x serviceName defaultCollectionPath
      (collectionInterface @ ''.SearchItems'') [VAttributes (item_attributes service key)]) w = (Inr [VPaths ps], w')"
    "good w'" "objects w' = objects w" "set ps = matching (objects w) (item_attributes service key)"
    using search [OF assms] by blast
  show ?thesis
  proof (cases ps)
    case Nil
    with s show ?thesis by (auto simp: dbus_find_def)
  next
    case (Cons p ps')
    with s(4) have "p \<in> matching (objects w) (item_attributes service key)" by auto
    with Cons s(1-3) show ?thesis by (auto simp: dbus_find_def)
  qed
qed

lemma openSession_ok:
  assumes "good w"
  shows "\<exists>s w'. run_state (openSession c x) w = (Inr s, w') \<and> good w' \<and> objects w' = objects w
     \<and> unlocked w' = unlocked w"
proof -
  obtain v s w' where "run_state (CallWithContext c x serviceName secrets_path (serviceInterface @ ''.OpenSession'')
      [VString ''plain'', VVariant (VString '''')]) w = (Inr [VVariant v, VPath s], w')"
    "good w'" "objects w' = objects w" "unlocked w' = unlocked w"
    using open_session [OF assms] by blast
  then show ?thesis by (simp add: openSession_def)
qed

lemma closeSession_ok:
  assumes "good w"
  shows "\<exists>w'. run_state (closeSession WithTimeout c s None) w = (None, w') \<and> good w' \<and> objects w' = objects w"
proof -
  obtain y w1 where t: "run_state (WithTimeout (the Background) cleanupTimeout) w = ((y, ret ()), w1)"
    "good w1" "objects w1 = objects w" using timeout [OF assms] by blast
  obtain vs w2 where "run_state (CallWithContext c y serviceName s (sessionInterface @ ''.Close'') []) w1 = (Inr vs, w2)"
    "good w2" "objects w2 = objects w1" using close_session [OF t(2)] by blast
  with t show ?thesis by (simp add: closeSession_def)
qed

lemma client_close_ok:
  assumes "good w"
  shows "\<exists>w'. run_state (client_close c e) w = (e, w') \<and> good w' \<and> objects w' = objects w"
  using close [OF assms] by (auto simp: client_close_def)

end

lemma dbus_connect_ok:
  "run_state (Connect (the Background)) w = (Inr c, w') \<Longrightarrow>
     run_state (dbus_connect Background Connect) w = (Inr c, w')"
  by (simp add: dbus_connect_def dbus_contextError_eq)

context secret_service
begin

text \<open>\<open>Get\<close> and \<open>Delete\<close> take one of the matching items, whatever other attributes it has.\<close>

lemma get_result:
  assumes "good w" and "takes service key"
  shows "\<exists>r w'. run_state (dbus_get WithTimeout Connect Background service key) w = (r, w') \<and> good w'
     \<and> objects w' = objects w
     \<and> (if matching (objects w) (item_attributes service key) = {}
        then r = Inl (Errorf ''%w: find credential'' [Category ErrNotFound])
        else \<exists>p \<in> matching (objects w) (item_attributes service key). r = Inr (snd (the (objects w p))))"
proof -
  let ?x = "the Background" let ?m = "matching (objects w) (item_attributes service key)"
  obtain w1 where c: "run_state (Connect ?x) w = (Inr c, w1)" "good w1" "objects w1 = objects w"
    using connects [OF assms(1)] by blast
  obtain w2 where u: "run_state (dbus_unlock WithTimeout c ?x defaultCollectionPath) w1 = (None, w2)" "good w2"
    "objects w2 = objects w" using unlock_ok [OF c(2)] c(3) by metis
  obtain f w3 where f: "run_state (dbus_find c ?x service key) w2 = (f, w3)" "good w3" "objects w3 = objects w"
    "if ?m = {} then f = Inl (Errorf ''%w: find credential'' [Category ErrNotFound]) else \<exists>p \<in> ?m. f = Inr p"
    using find_ok [OF u(2) assms(2), of ?x] u(3) by metis
  note start = dbus_connect_ok [where Connect = Connect, OF c(1)] u(1) f(1)
  show ?thesis
  proof (cases "?m = {}")
    case True
    obtain w4 where "run_state (client_close c (Some (Errorf ''%w: find credential'' [Category ErrNotFound]))) w3
        = (Some (Errorf ''%w: find credential'' [Category ErrNotFound]), w4)" "good w4" "objects w4 = objects w3"
      using client_close_ok [OF f(2)] by blast
    with True f start show ?thesis by (simp add: dbus_get_def Let_def run_deferred)
  next
    case False
    with f(4) obtain p where p: "p \<in> ?m" "f = Inr p" by auto
    then obtain b v where item: "objects w p = Some (b, v)" by (auto simp: matching_def)
    obtain w4 where u2: "run_state (dbus_unlock WithTimeout c ?x p) w3 = (None, w4)" "good w4"
      "objects w4 = objects w" "unlocked w4 p" using unlock_ok [OF f(2)] f(3) by metis
    obtain s w5 where o: "run_state (openSession c ?x) w4 = (Inr s, w5)" "good w5" "objects w5 = objects w"
      "unlocked w5 p" using openSession_ok [OF u2(2)] u2(3,4) by metis
    obtain sv w6 where g: "run_state (CallWithContext c ?x serviceName p (itemInterface @ ''.GetSecret'') [VPath s]) w5
        = (Inr [VSecret sv], w6)" "sv_Value sv = v" "good w6" "objects w6 = objects w"
      using get_secret [OF o(2), of p b v] o(3,4) item by metis
    obtain w7 where cs: "run_state (closeSession WithTimeout c s None) w6 = (None, w7)" "good w7" "objects w7 = objects w"
      using closeSession_ok [OF g(3)] g(4) by metis
    obtain w8 where k: "run_state (client_close c None) w7 = (None, w8)" "good w8" "objects w8 = objects w"
      using client_close_ok [OF cs(2)] cs(3) by metis
    have "run_state (dbus_get WithTimeout Connect Background service key) w = (Inr v, w8)"
      using p(2) u2(1) o(1) g(1,2) cs(1) k(1) start by (simp add: dbus_get_def Let_def run_deferred)
    with False p(1) item k(2,3) show ?thesis by (intro exI [of _ "Inr v"] exI [of _ w8]) force
  qed
qed

lemma set_result:
  assumes "good w" and "takes service key" and "fits v" and "clear stored (objects w) service"
  shows "\<exists>p w'. run_state (dbus_set WithTimeout Connect Background service key v) w = (None, w') \<and> good w'
     \<and> place (objects w) service key p \<and> objects w' = (objects w)(p \<mapsto> (stored (item_attributes service key), v))"
proof -
  let ?x = "the Background" let ?a = "item_attributes service key"
  obtain w1 where c: "run_state (Connect ?x) w = (Inr c, w1)" "good w1" "objects w1 = objects w"
    using connects [OF assms(1)] by blast
  obtain s w2 where o: "run_state (openSession c ?x) w1 = (Inr s, w2)" "good w2" "objects w2 = objects w"
    using openSession_ok [OF c(2)] c(3) by metis
  obtain w3 where u: "run_state (dbus_unlock WithTimeout c ?x defaultCollectionPath) w2 = (None, w3)" "good w3"
    "objects w3 = objects w" "unlocked w3 defaultCollectionPath" using unlock_ok [OF o(2)] o(3) by metis
  let ?sv = "\<lparr>sv_Session = s, sv_Parameters = [], sv_Value = v, sv_ContentType = ''application/octet-stream''\<rparr>"
  have sole: "matching (objects w3) ?a = {p} \<and> (\<exists>v. objects w3 p = Some (stored ?a, v))"
    if "p \<in> matching (objects w3) ?a" for p
    using that assms(4) unfolding clear_def u(3) by blast
  obtain p w4 where g: "run_state (CallWithContext c ?x serviceName defaultCollectionPath
      (collectionInterface @ ''.CreateItem'')
      [VProperties [itemInterface @ ''.Label'' \<mapsto> VVariant (VString (itemLabelPrefix @ '': '' @ key)),
         itemInterface @ ''.Attributes'' \<mapsto> VVariant (VAttributes ?a)], VSecret ?sv, VBool True]) w3
      = (Inr [VPath p, VPath ''/''], w4)" "good w4" "place (objects w) service key p"
      "objects w4 = (objects w)(p \<mapsto> (stored ?a, v))"
    using create_item [OF u(2) assms(2) _ u(4) sole, of ?sv ?x "VVariant (VString (itemLabelPrefix @ '': '' @ key))"]
      assms(3) u(3) by auto
  obtain w5 where cs: "run_state (closeSession WithTimeout c s None) w4 = (None, w5)" "good w5" "objects w5 = objects w4"
    using closeSession_ok [OF g(2)] by blast
  obtain w6 where k: "run_state (client_close c None) w5 = (None, w6)" "good w6" "objects w6 = objects w5"
    using client_close_ok [OF cs(2)] by blast
  have "run_state (dbus_set WithTimeout Connect Background service key v) w = (None, w6)"
    using o(1) u(1) g(1) cs(1) k(1) dbus_connect_ok [where Connect = Connect, OF c(1)]
    by (simp add: dbus_set_def Let_def run_deferred handlePrompt_def)
  with g(3,4) cs(3) k(2,3) show ?thesis by auto
qed

lemma remove_result:
  assumes "good w" and "takes service key"
  shows "\<exists>r w'. run_state (dbus_remove WithTimeout Connect Background service key) w = (r, w') \<and> good w'
     \<and> (if matching (objects w) (item_attributes service key) = {}
        then r = Some (Errorf ''%w: find credential'' [Category ErrNotFound]) \<and> objects w' = objects w
        else r = None \<and> (\<exists>p \<in> matching (objects w) (item_attributes service key). objects w' = (objects w)(p := None)))"
proof -
  let ?x = "the Background" let ?m = "matching (objects w) (item_attributes service key)"
  obtain w1 where c: "run_state (Connect ?x) w = (Inr c, w1)" "good w1" "objects w1 = objects w"
    using connects [OF assms(1)] by blast
  obtain w2 where u: "run_state (dbus_unlock WithTimeout c ?x defaultCollectionPath) w1 = (None, w2)" "good w2"
    "objects w2 = objects w" using unlock_ok [OF c(2)] c(3) by metis
  obtain f w3 where f: "run_state (dbus_find c ?x service key) w2 = (f, w3)" "good w3" "objects w3 = objects w"
    "if ?m = {} then f = Inl (Errorf ''%w: find credential'' [Category ErrNotFound]) else \<exists>p \<in> ?m. f = Inr p"
    using find_ok [OF u(2) assms(2), of ?x] u(3) by metis
  note start = dbus_connect_ok [where Connect = Connect, OF c(1)] u(1) f(1)
  show ?thesis
  proof (cases "?m = {}")
    case True
    obtain w4 where "run_state (client_close c (Some (Errorf ''%w: find credential'' [Category ErrNotFound]))) w3
        = (Some (Errorf ''%w: find credential'' [Category ErrNotFound]), w4)" "good w4" "objects w4 = objects w3"
      using client_close_ok [OF f(2)] by blast
    with True f start show ?thesis by (simp add: dbus_remove_def Let_def run_deferred)
  next
    case False
    with f(4) obtain p where p: "p \<in> ?m" "f = Inr p" by auto
    obtain w4 where u2: "run_state (dbus_unlock WithTimeout c ?x p) w3 = (None, w4)" "good w4"
      "objects w4 = objects w" "unlocked w4 p" using unlock_ok [OF f(2)] f(3) by metis
    have "objects w4 p \<noteq> None" using p(1) u2(3) by (auto simp: matching_def)
    then obtain w5 where g: "run_state (CallWithContext c ?x serviceName p (itemInterface @ ''.Delete'') []) w4
        = (Inr [VPath ''/''], w5)" "good w5" "objects w5 = (objects w)(p := None)"
      using delete_item [OF u2(2)] u2(3,4) by metis
    obtain w6 where k: "run_state (client_close c None) w5 = (None, w6)" "good w6" "objects w6 = objects w5"
      using client_close_ok [OF g(2)] by blast
    have "run_state (dbus_remove WithTimeout Connect Background service key) w = (None, w6)"
      using p(2) u2(1) g(1) k(1) start by (simp add: dbus_remove_def Let_def run_deferred handlePrompt_def)
    with False p(1) g(3) k(2,3) show ?thesis by auto
  qed
qed

end

text \<open>
  Hence the adapter implements the keyring contract over such a service, as long as the keys of
  its service are clear, which every operation keeps; what does not match them is kept.
\<close>

definition undisturbed ::
  "(attributes \<Rightarrow> attributes) \<Rightarrow> ('w \<Rightarrow> object_table) \<Rightarrow> ('w \<Rightarrow> bool) \<Rightarrow> string \<Rightarrow> object_table \<Rightarrow> 'w \<Rightarrow> bool" where
  "undisturbed stored objects good service before w \<longleftrightarrow>
     good w \<and> clear stored (objects w) service \<and> kept before (objects w) service"

lemma credentials_None:
  "credentials obs (service, key) = None \<longleftrightarrow> matching obs (item_attributes service key) = {}"
  by (simp add: credentials_def Let_def)

lemma credentials_Some:
  assumes "clear stored obs service" and "credentials obs (service, key) = Some v"
  shows "\<exists>p. matching obs (item_attributes service key) = {p} \<and> snd (the (obs p)) = v"
proof -
  have "matching obs (item_attributes service key) \<noteq> {}"
    using assms(2) credentials_None [of obs service key] by auto
  then obtain p where p: "matching obs (item_attributes service key) = {p}"
    using assms(1) unfolding clear_def by blast
  with assms(2) credentials_sole [OF p] show ?thesis by auto
qed

sublocale secret_service \<subseteq> keyring: keyringer_contract
  "dbus_get WithTimeout Connect Background service" "dbus_set WithTimeout Connect Background service"
  "dbus_remove WithTimeout Connect Background service" "\<lambda>w. credentials (objects w)" "Pair service"
  "undisturbed stored objects good service before" "takes service" "\<lambda>_. fits" for service before
proof (unfold_locales, goal_cases)
  case (1 w k v)
  then have g: "good w" and c: "clear stored (objects w) service" by (simp_all add: undisturbed_def)
  from credentials_Some [OF c 1(3)] obtain p where
    p: "matching (objects w) (item_attributes service k) = {p}" "snd (the (objects w p)) = v" by blast
  from get_result [OF g 1(2)] p obtain w' where
    "run_state (dbus_get WithTimeout Connect Background service k) w = (Inr v, w')" "good w'" "objects w' = objects w"
    by auto
  with 1(1) show ?case by (auto simp: undisturbed_def)
next
  case (2 w k)
  from get_result [of w service k] 2 obtain w' where
    "run_state (dbus_get WithTimeout Connect Background service k) w
       = (Inl (Errorf ''%w: find credential'' [Category ErrNotFound]), w')" "good w'" "objects w' = objects w"
    by (auto simp: undisturbed_def credentials_None)
  with 2(1) show ?case by (auto simp: undisturbed_def)
next
  case (3 w k v)
  then have g: "good w" and c: "clear stored (objects w) service" and u: "kept before (objects w) service"
    by (simp_all add: undisturbed_def)
  let ?a = "item_attributes service k"
  from set_result [OF g 3(2,3) c] obtain p w' where w':
    "run_state (dbus_set WithTimeout Connect Background service k v) w = (None, w')" "good w'"
    "place (objects w) service k p" "objects w' = (objects w)(p \<mapsto> (stored ?a, v))" by blast
  have "undisturbed stored objects good service before w'"
    using w'(2) clear_stored [OF c w'(3) keeps_given] kept_at [OF u w'(3)] by (simp add: undisturbed_def w'(4))
  moreover have "credentials (objects w') = (credentials (objects w))((service, k) \<mapsto> v)"
    unfolding w'(4) using w'(3) keeps_given by (rule credentials_stored)
  ultimately show ?case using w'(1) by auto
next
  case (4 w k v)
  then have g: "good w" and c: "clear stored (objects w) service" and u: "kept before (objects w) service"
    by (simp_all add: undisturbed_def)
  from credentials_Some [OF c 4(3)] obtain p where
    p: "matching (objects w) (item_attributes service k) = {p}" by blast
  from remove_result [OF g 4(2)] p obtain w' where w':
    "run_state (dbus_remove WithTimeout Connect Background service k) w = (None, w')" "good w'"
    "objects w' = (objects w)(p := None)" by auto
  have "place (objects w) service k p" using p by (simp add: place_def)
  then have "undisturbed stored objects good service before w'"
    using w'(2) clear_removed [OF c] kept_at [OF u] by (simp add: undisturbed_def w'(3))
  with w'(1) credentials_removed [OF p] show ?case by (auto simp: w'(3))
next
  case (5 w k)
  from remove_result [of w service k] 5 obtain w' where
    "run_state (dbus_remove WithTimeout Connect Background service k) w
       = (Some (Errorf ''%w: find credential'' [Category ErrNotFound]), w')" "good w'" "objects w' = objects w"
    by (auto simp: undisturbed_def credentials_None)
  with 5(1) show ?case by (auto simp: undisturbed_def)
qed

context secret_service
begin

lemma requests_refine:
  assumes "good w" and "clear stored (objects w) service"
    and "\<forall>r\<in>set rs. acceptable (takes service) (\<lambda>_. fits) r"
    and "spec_run (Pair service) rs (credentials (objects w)) = (as, m)"
  shows "\<exists>w'. run_state (impl_run (dbus_get WithTimeout Connect Background service)
       (dbus_set WithTimeout Connect Background service)
       (dbus_remove WithTimeout Connect Background service) rs) w = (as, w') \<and> credentials (objects w') = m
     \<and> clear stored (objects w') service \<and> kept (objects w) (objects w') service"
proof -
  have "undisturbed stored objects good service (objects w) w" using assms(1,2) by (simp add: undisturbed_def)
  from keyring.run_refines [OF this assms(3,4)] show ?thesis unfolding undisturbed_def by blast
qed

text \<open>The probe succeeds on such a service.\<close>

lemma probe_ok:
  assumes "good w"
  shows "\<exists>w'. run_state (probe WithTimeout Connect Background) w = (None, w') \<and> good w' \<and> objects w' = objects w"
proof -
  obtain y w1 where t: "run_state (WithTimeout (the Background) probeTimeout) w = ((y, ret ()), w1)"
    "good w1" "objects w1 = objects w" using timeout [OF assms] by blast
  obtain w2 where c: "run_state (Connect y) w1 = (Inr c, w2)" "good w2" "objects w2 = objects w1"
    using connects [OF t(2)] by blast
  obtain v s w3 where o: "run_state (CallWithContext c y serviceName secrets_path
      (serviceInterface @ ''.OpenSession'') [VString ''plain'', VVariant (VString '''')]) w2
      = (Inr [VVariant v, VPath s], w3)" "good w3" "objects w3 = objects w2"
    using open_session [OF c(2)] by blast
  obtain vs w4 where s: "run_state (CallWithContext c y serviceName s (sessionInterface @ ''.Close'') []) w3
      = (Inr vs, w4)" "good w4" "objects w4 = objects w3" using close_session [OF o(2)] by blast
  obtain w5 where k: "run_state (Close c) w4 = (None, w5)" "good w5" "objects w5 = objects w4"
    using close [OF s(2)] by blast
  have "run_state (probe WithTimeout Connect Background) w = (None, w5)"
    using t(1) c(1) o(1) s(1) k(1)
    by (simp add: probe_def openProbeSession_def closeProbeSession_def dbus_contextError_eq)
  with t(3) c(3) o(3) s(3) k(2,3) show ?thesis by auto
qed

end

section \<open>A Secret Service in memory\<close>

text \<open>
  Items have numbered paths, which are never used twice. The service adds a schema to the
  attributes of an item, as some providers do, so a search by exact attributes would not find
  what was stored. Items and the collection stay locked until they are unlocked by their path.
\<close>

record item_table =
  item_list :: "(string \<times> attributes \<times> bytes) list"
  next_item :: nat
  open_paths :: "string list"

definition item_path :: "nat \<Rightarrow> string" where
  "item_path n = ''/i'' @ replicate n (CHR ''x'')"

lemma item_path_inject [simp]: "item_path m = item_path n \<longleftrightarrow> m = n"
  unfolding item_path_def by (metis append_same_eq length_append length_replicate same_append_eq)

definition unknown_method :: go_error where
  "unknown_method = BusError ''org.freedesktop.DBus.Error.UnknownMethod''"

definition with_schema :: "attributes \<Rightarrow> attributes" where
  "with_schema a = a(''xdg:schema'' \<mapsto> ''org.freedesktop.Secret.Generic'')"

definition store_item :: "attributes \<Rightarrow> bytes \<Rightarrow> item_table \<Rightarrow> string \<times> item_table" where
  "store_item b v w =
     (case filter (\<lambda>(p, b', u). b' = b) (item_list w) of
        (p, _) # _ \<Rightarrow> (p, w\<lparr>item_list := AList.update p (b, v) (item_list w)\<rparr>)
      | [] \<Rightarrow> (item_path (next_item w),
          \<lparr>item_list = AList.update (item_path (next_item w)) (b, v) (item_list w), next_item = next_item w + 1,
           open_paths = open_paths w\<rparr>))"

definition is_locked :: go_error where
  "is_locked = BusError ''org.freedesktop.Secret.Error.IsLocked''"

definition mem_call :: "string \<Rightarrow> string \<Rightarrow> bus_value list \<Rightarrow> (item_table, go_error + bus_value list) state" where
  "mem_call p m args = State (\<lambda>w.
     if m = serviceInterface @ ''.Unlock'' then
       (case args of
          [VPaths ps] \<Rightarrow> (Inr [VPaths ps, VPath ''/''], w\<lparr>open_paths := ps @ open_paths w\<rparr>)
        | _ \<Rightarrow> (Inl unknown_method, w))
     else if m = serviceInterface @ ''.OpenSession'' then (Inr [VVariant (VString ''''), VPath ''/s''], w)
     else if m = sessionInterface @ ''.Close'' then (Inr [], w)
     else if m = collectionInterface @ ''.SearchItems'' then
       (case args of
          [VAttributes a] \<Rightarrow> (Inr [VPaths (map fst (filter (\<lambda>(p, b, v). a \<subseteq>\<^sub>m b) (item_list w)))], w)
        | _ \<Rightarrow> (Inl unknown_method, w))
     else if p \<notin> set (open_paths w) then (Inl is_locked, w)
     else if m = itemInterface @ ''.GetSecret'' then
       (case map_of (item_list w) p of
          Some (b, v) \<Rightarrow>
            (Inr [VSecret \<lparr>sv_Session = ''/s'', sv_Parameters = [], sv_Value = v,
              sv_ContentType = ''application/octet-stream''\<rparr>], w)
        | None \<Rightarrow> (Inl unknown_method, w))
     else if m = collectionInterface @ ''.CreateItem'' then
       (case args of
          [VProperties props, VSecret sv, VBool True] \<Rightarrow>
            (case props (itemInterface @ ''.Attributes'') of
               Some (VVariant (VAttributes a)) \<Rightarrow>
                 (case store_item (with_schema a) (sv_Value sv) w of (path, w') \<Rightarrow> (Inr [VPath path, VPath ''/''], w'))
             | _ \<Rightarrow> (Inl unknown_method, w))
        | _ \<Rightarrow> (Inl unknown_method, w))
     else if m = itemInterface @ ''.Delete'' then
       (Inr [VPath ''/''], w\<lparr>item_list := AList.delete p (item_list w)\<rparr>)
     else (Inl unknown_method, w))"

definition mem_connection :: "item_table connection" where
  "mem_connection =
     \<lparr>CallWithContext = (\<lambda>_ _ p m args. mem_call p m args), store_error = Plain ''dbus.Store'',
      Close = ret None, AddMatchSignalContext = (\<lambda>_ _. ret None),
      RemoveMatchSignalContext = (\<lambda>_ _. ret None), Signal = ret (), RemoveSignal = ret (),
      select_signal = (\<lambda>_. ret Channel_closed)\<rparr>"

definition mem_objects :: "item_table \<Rightarrow> object_table" where
  "mem_objects w = map_of (item_list w)"

definition items_good :: "item_table \<Rightarrow> bool" where
  "items_good w \<longleftrightarrow> distinct (map fst (item_list w)) \<and> (\<forall>n \<ge> next_item w. item_path n \<notin> fst ` set (item_list w))"

lemmas method_names = serviceInterface_def sessionInterface_def collectionInterface_def itemInterface_def

lemma with_schema_le: "item_attributes service key \<subseteq>\<^sub>m with_schema (item_attributes service key)"
  by (simp add: item_attributes_le with_schema_def)
    (simp add: item_attributes_def keyAttribute_def serviceAttribute_def)

lemma mem_search:
  assumes "items_good w"
  shows "set (map fst (filter (\<lambda>(p, b, v). a \<subseteq>\<^sub>m b) (item_list w))) = matching (mem_objects w) a"
  using assms unfolding items_good_def matching_def mem_objects_def
  by (force simp: map_of_eq_Some_iff)

lemma store_item_ok:
  assumes "items_good w" and "store_item b v w = (p, w')"
  shows "items_good w' \<and> mem_objects w' = (mem_objects w)(p \<mapsto> (b, v))
     \<and> (mem_objects w p = None \<and> (\<forall>q u. mem_objects w q \<noteq> Some (b, u)) \<or> (\<exists>u. mem_objects w p = Some (b, u)))"
proof (cases "filter (\<lambda>(p, b', u). b' = b) (item_list w)")
  case Nil
  have fresh: "item_path (next_item w) \<notin> fst ` set (item_list w)" using assms(1) by (simp add: items_good_def)
  have w': "p = item_path (next_item w)" "item_list w' = AList.update p (b, v) (item_list w)"
      "next_item w' = next_item w + 1"
    using Nil assms(2) by (auto simp: store_item_def)
  have "items_good w'"
    using assms(1) unfolding items_good_def w' by (auto simp: distinct_update dom_update)
  moreover have "mem_objects w q \<noteq> Some (b, u)" for q u
    using Nil by (auto simp: mem_objects_def filter_empty_conv dest: map_of_SomeD)
  moreover have "mem_objects w p = None" using fresh by (simp add: mem_objects_def w'(1) map_of_eq_None_iff)
  ultimately show ?thesis by (simp add: mem_objects_def w'(2) update_conv')
next
  case (Cons x xs)
  obtain b' u where x: "x = (p, b', u)" and w': "w' = w\<lparr>item_list := AList.update p (b, v) (item_list w)\<rparr>"
    using Cons assms(2) by (cases x) (auto simp: store_item_def)
  have "x \<in> set (filter (\<lambda>(p, b', u). b' = b) (item_list w))" unfolding Cons by simp
  then have "x \<in> set (item_list w) \<and> b' = b" unfolding x by auto
  then have p: "mem_objects w p = Some (b, u)" "p \<in> fst ` set (item_list w)"
    using assms(1) x by (auto simp: mem_objects_def items_good_def map_of_eq_Some_iff intro!: image_eqI)
  have "items_good w'"
    using assms(1) p(2) unfolding items_good_def w' by (auto simp: distinct_update dom_update)
  with p(1) show ?thesis by (auto simp: mem_objects_def w' update_conv')
qed

lemma mem_opened [simp]:
  "items_good (w\<lparr>open_paths := ps\<rparr>) = items_good w"
  "mem_objects (w\<lparr>open_paths := ps\<rparr>) = mem_objects w"
  by (auto simp: items_good_def mem_objects_def fun_eq_iff)

interpretation mem_service: secret_service mem_connection "\<lambda>_. ret (Inr mem_connection)"
  "\<lambda>x _. ret (x, ret ())" mem_objects with_schema "\<lambda>_ _. True" "\<lambda>_. True"
  "\<lambda>w p. p \<in> set (open_paths w)" items_good
proof (unfold_locales, goal_cases)
  case (7 x service key w)
  then show ?case
    using mem_search [OF 7(1), of "item_attributes service key"]
    by (auto simp: mem_connection_def mem_call_def method_names)
next
  case (8 x p b v s w)
  then show ?case by (simp add: mem_connection_def mem_call_def method_names mem_objects_def)
next
  case (9 service key)
  show ?case by (rule with_schema_le)
next
  case (10 x l service key sv w)
  let ?a = "item_attributes service key"
  obtain p w' where s: "store_item (with_schema ?a) (sv_Value sv) w = (p, w')" by fastforce
  note ok = store_item_ok [OF 10(1) s]
  have "place (mem_objects w) service key p"
  proof (cases "matching (mem_objects w) ?a = {}")
    case True
    then show ?thesis using ok with_schema_le [of service key] by (auto simp: place_def matching_def)
  next
    case False
    then obtain q where q: "matching (mem_objects w) ?a = {q}" "\<exists>v. mem_objects w q = Some (with_schema ?a, v)"
      using 10(5) by blast
    then have "p \<in> matching (mem_objects w) ?a" using ok with_schema_le [of service key] by (auto simp: matching_def)
    with q(1) show ?thesis by (simp add: place_def)
  qed
  with ok s 10(4) show ?case
    by (intro exI [of _ p] exI [of _ w']) (simp add: mem_connection_def mem_call_def method_names)
next
  case (11 x p w)
  let ?w = "w\<lparr>item_list := AList.delete p (item_list w)\<rparr>"
  have "distinct (map fst (AList.delete p (item_list w)))"
    using 11(1) unfolding items_good_def by (blast intro: distinct_delete)
  then have "items_good ?w" using 11(1) by (fastforce simp: items_good_def AList.delete_eq)
  then show ?case using 11(3)
    by (intro exI [of _ ?w]) (simp add: mem_connection_def mem_call_def method_names mem_objects_def delete_conv')
qed (auto simp: mem_connection_def mem_call_def method_names)

section \<open>Properties\<close>

text \<open>C23 Over any Secret Service with the documented behaviour that needs no prompt, and in which no item
  of another program answers to a search for the keys of the service (none has their two
  attributes besides others, or twice), a sequence of \<open>Get\<close>, \<open>Set\<close> and \<open>Delete\<close> requests on names
  and values the provider takes, each on a connection and a session of its own, answers exactly as
  a map from services and keys to values does. The condition holds again at the end, and every
  item that matches no key of the service is there as it was before.\<close>

theorem dbus_refines_map:
  assumes "secret_service c Connect WithTimeout objects stored takes fits unlocked good" and "good w"
    and "clear stored (objects w) service"
    and "\<forall>r\<in>set rs. acceptable (takes service) (\<lambda>_. fits) r"
    and "spec_run (Pair service) rs (credentials (objects w)) = (as, m)"
  shows "\<exists>w'. run_state (impl_run (dbus_get WithTimeout Connect Background service)
       (dbus_set WithTimeout Connect Background service)
       (dbus_remove WithTimeout Connect Background service) rs) w = (as, w') \<and> credentials (objects w') = m
     \<and> clear stored (objects w') service \<and> kept (objects w) (objects w') service"
  using assms by (rule secret_service.requests_refine)

text \<open>A collection with an item of another program, which has the service attribute but no user name.\<close>

definition demo_items :: item_table where
  "demo_items = \<lparr>item_list = [(item_path 0, [serviceAttribute \<mapsto> ''mail'', ''folder'' \<mapsto> ''inbox''], ''x'')], next_item = 1,
     open_paths = []\<rparr>"

lemma demo_items_good: "items_good demo_items"
  by (simp add: items_good_def demo_items_def)

lemma demo_items_clear: "clear with_schema (mem_objects demo_items) ''mail''"
  and demo_items_empty: "credentials (mem_objects demo_items) (service, key) = None"
proof -
  have none: "matching (mem_objects demo_items) (item_attributes s k) = {}" for s k
    by (auto simp: matching_item mem_objects_def demo_items_def keyAttribute_def serviceAttribute_def split: if_splits)
  show "clear with_schema (mem_objects demo_items) ''mail''" by (simp add: clear_def none)
  show "credentials (mem_objects demo_items) (service, key) = None" by (simp add: credentials_None none)
qed

theorem dbus_refines_map_witness:
  "\<exists>w'. run_state (impl_run
       (dbus_get (\<lambda>x _. ret (x, ret ())) (\<lambda>_. ret (Inr mem_connection)) Background ''mail'')
       (dbus_set (\<lambda>x _. ret (x, ret ())) (\<lambda>_. ret (Inr mem_connection)) Background ''mail'')
       (dbus_remove (\<lambda>x _. ret (x, ret ())) (\<lambda>_. ret (Inr mem_connection)) Background ''mail'')
       [Set_req ''k'' ''v'', Get_req ''k'', Delete_req ''k'', Get_req ''k'']) demo_items
     = ([Done_ok, Value ''v'', Done_ok, Missing], w')
     \<and> mem_objects w' (item_path 0) = Some ([serviceAttribute \<mapsto> ''mail'', ''folder'' \<mapsto> ''inbox''], ''x'')"
proof -
  let ?rs = "[Set_req ''k'' ''v'', Get_req ''k'', Delete_req ''k'', Get_req ''k'']"
  have a: "\<forall>r\<in>set ?rs. acceptable (\<lambda>_. True) (\<lambda>_ _. True) r" by simp
  have s: "spec_run (Pair ''mail'') ?rs (credentials (mem_objects demo_items)) =
      ([Done_ok, Value ''v'', Done_ok, Missing], (credentials (mem_objects demo_items))((''mail'', ''k'') := None))"
    by simp
  have f: "mem_objects demo_items (item_path 0) = Some ([serviceAttribute \<mapsto> ''mail'', ''folder'' \<mapsto> ''inbox''], ''x'')"
    by (simp add: mem_objects_def demo_items_def)
  have n: "\<not> item_attributes ''mail'' key \<subseteq>\<^sub>m [serviceAttribute \<mapsto> ''mail'', ''folder'' \<mapsto> ''inbox'']" for key
    by (simp add: item_attributes_le keyAttribute_def serviceAttribute_def)
  from dbus_refines_map [OF mem_service.secret_service_axioms demo_items_good demo_items_clear a s] f n
  show ?thesis unfolding kept_def by blast
qed

text \<open>C8 Nothing is left behind on the bus: from the dial on, \<open>Get\<close>, \<open>Set\<close>, \<open>Delete\<close> and \<open>Probe\<close> close
  their connection exactly once, as their last call, on every path through every error, a failed
  authentication or greeting included; the signal channel is removed as often as it was
  registered and every match rule that was added is removed.\<close>

theorem dbus_operations_release:
  assumes "bus_log c WithTimeout log" and "dials log st c" and "silent log x" and "fst (run_state x w) = None"
  shows "released log (dbus_Get WithTimeout st (Some x) service key) w
     \<and> released log (dbus_Set WithTimeout st (Some x) service key contents) w
     \<and> released log (dbus_Delete WithTimeout st (Some x) service key) w
     \<and> released log (dbus_Probe WithTimeout st (Some x)) w"
  using bus_log.dialled_release [OF assms] bus_log.probe_release [OF assms] by blast

text \<open>A service that asks for a prompt on every unlock; the prompt's channel is closed.\<close>

definition prompting :: "string \<Rightarrow> string \<Rightarrow> go_error + bus_value list" where
  "prompting p m = (if m = serviceInterface @ ''.Unlock'' then Inr [VPaths [], VPath ''/prompt''] else Inr [])"

theorem dbus_operations_release_witness:
  "\<exists>es. snd (run_state (dbus_Get (\<lambda>x _. ret (x, ret ())) (ready_bus (log_connection prompting Channel_closed))
       Background ''s'' ''k'') []) = es @ [Bus_closed] \<and> balanced es"
proof -
  let ?c = "log_connection prompting Channel_closed"
  have "silent (\<lambda>es. es) (the Background)" by (simp add: silent_def Background_def)
  moreover have "dials (\<lambda>es. es) (ready_bus ?c) ?c" by (simp add: dials_def ready_bus_def silent_def)
  moreover have "fst (run_state (the Background) []) = None" by (simp add: Background_def)
  ultimately have "released (\<lambda>es. es) (dbus_Get (\<lambda>x _. ret (x, ret ())) (ready_bus ?c) (Some (the Background)) ''s'' ''k'') []"
    using dbus_operations_release [OF logged.bus_log_axioms] by blast
  then show ?thesis by (simp add: Background_def released_def)
qed

text \<open>C11 An operation that needs a prompt goes on only if the user granted it: when \<open>handlePrompt\<close> returns no
  error for a real prompt, the first thing the select statement found was the prompt's
  \<open>Completed\<close> signal with \<open>false\<close> for dismissed. Every other first event is an error; a
  dismissed prompt is \<open>ErrInteractionRequired\<close>, a signal of another kind \<open>ErrBackendFailure\<close>.\<close>

theorem handlePrompt_granted:
  assumes "run_state (handlePrompt WithTimeout c x prompt) w = (None, w')" and "prompt \<noteq> ''/''"
    and "\<And>u u'. run_state (select_signal c x) u = (Context_done, u') \<Longrightarrow> fst (run_state x u') \<noteq> None"
  shows "(\<exists>u u' s v vs. run_state (select_signal c x) u = (Signal_received s, u')
       \<and> sig_Name s = promptInterface @ ''.Completed'' \<and> sig_Body s = VBool False # v # vs)
   \<and> (prompt_result \<lparr>sig_Name = promptInterface @ ''.Completed'', sig_Body = [VBool True, y]\<rparr> = Some e \<longrightarrow>
       err_is e (Category ErrInteractionRequired))
   \<and> (sig_Name t \<noteq> promptInterface @ ''.Completed'' \<longrightarrow>
       (\<exists>e. prompt_result t = Some e \<and> err_is e (Category ErrBackendFailure)))"
proof -
  obtain u where u: "fst (run_state (wait_prompt c x) u) = None"
    using assms(1,2) by (auto simp: handlePrompt_def backendError_def split: prod.splits option.splits sum.splits)
      (metis fst_conv)
  obtain ev u' where s: "run_state (select_signal c x) u = (ev, u')" by fastforce
  have "ev \<noteq> Context_done"
  proof
    assume "ev = Context_done"
    with u s assms(3) [of u u'] show False
      by (auto simp: wait_prompt_def dbus_contextError_def split: prod.splits if_splits)
  qed
  moreover have "ev \<noteq> Channel_closed"
    using u s by (auto simp: wait_prompt_def promptChannelError_def split: prod.splits)
  ultimately obtain g where g: "ev = Signal_received g" by (cases ev) auto
  with u s have "prompt_result g = None" by (simp add: wait_prompt_def)
  then have "sig_Name g = promptInterface @ ''.Completed'' \<and> (\<exists>v vs. sig_Body g = VBool False # v # vs)"
    by (cases "sig_Body g"; cases "tl (sig_Body g)")
      (auto simp: prompt_result_def split: if_splits bus_value.splits)
  with s g have "\<exists>u u' s v vs. run_state (select_signal c x) u = (Signal_received s, u')
       \<and> sig_Name s = promptInterface @ ''.Completed'' \<and> sig_Body s = VBool False # v # vs" by blast
  then show ?thesis by (intro conjI impI) (assumption | fastforce simp: prompt_result_def)+
qed

text \<open>A connection whose prompt was granted.\<close>

definition granting :: "unit connection" where
  "granting =
     \<lparr>CallWithContext = (\<lambda>_ _ _ _ _. ret (Inr [])), store_error = Plain ''dbus.Store'', Close = ret None,
      AddMatchSignalContext = (\<lambda>_ _. ret None), RemoveMatchSignalContext = (\<lambda>_ _. ret None),
      Signal = ret (), RemoveSignal = ret (),
      select_signal = (\<lambda>_. ret (Signal_received \<lparr>sig_Name = promptInterface @ ''.Completed'',
        sig_Body = [VBool False, VPaths []]\<rparr>))\<rparr>"

theorem handlePrompt_granted_witness:
  "\<exists>s v vs. fst (run_state (select_signal granting (the Background)) ()) = Signal_received s
     \<and> sig_Body s = VBool False # v # vs"
proof -
  have "run_state (handlePrompt (\<lambda>x _. ret (x, ret ())) granting (the Background) ''/p'') () = (None, ())"
    by (simp add: handlePrompt_def granting_def wait_prompt_def prompt_result_def)
  moreover have "fst (run_state (the Background) u') \<noteq> None"
    if "run_state (select_signal granting (the Background)) u = (Context_done, u')" for u u'
    using that by (simp add: granting_def)
  ultimately show ?thesis
    using handlePrompt_granted [of "\<lambda>x _. ret (x, ret ())" granting "the Background" "''/p''" "()" "()"]
    by fastforce
qed

text \<open>Errors of the bus are classified by their names, keep the error in their chain, and lose to the
  context: if the context has ended, its error is returned instead, whatever the bus said; an
  error that already has a portable category gets no second one.\<close>

lemma backendError_classifies:
  "(\<exists>e. run_state (backendError Background op (BusError n)) w = (e, w) \<and> err_is e (BusError n)
      \<and> (err_is e (Category c) \<longleftrightarrow> c = bus_category n))
   \<and> (\<exists>e. run_state (backendError Background op (Errorf f [Category ErrPermissionDenied, BusError n])) w = (e, w)
      \<and> (err_is e (Category c) \<longleftrightarrow> c = ErrPermissionDenied))
   \<and> run_state (backendError (Some (ret (Some Canceled))) op err) w = (Canceled, w)
   \<and> (\<exists>e. run_state (backendError (Some (ret (Some DeadlineExceeded))) op err) w = (e, w)
      \<and> err_is e (Category ErrTimeout) \<and> err_is e DeadlineExceeded)"
  by (auto simp: backendError_def dbus_contextError_eq ContextError_def Background_def classify_bus_def
      dbus_portable_def as_BusError_def as_find.simps)

end
