(* ===== verification/Utf8.thy ===== *)
theory Utf8
  imports Prelude
begin

text \<open>
  UTF-8 as Go's \<open>unicode/utf8\<close> reads it, and the length in UTF-16 code units of
  \<open>utf16.Encode([]rune(s))\<close>. An encoding that is not valid (overlong, surrogate, beyond
  U+10FFFF, truncated) is one byte long and stands for U+FFFD in a conversion to runes.
\<close>

abbreviation byte_num :: "char \<Rightarrow> nat" where "byte_num \<equiv> of_char"

definition continuation :: "nat \<Rightarrow> bool" where
  "continuation b \<longleftrightarrow> 0x80 \<le> b \<and> b \<le> 0xBF"

text \<open>The code point at the head of the string and its number of bytes; \<open>None\<close> if invalid.\<close>

definition decode2 :: "nat \<Rightarrow> nat \<Rightarrow> nat option" where
  "decode2 a b = (if 0xC2 \<le> a \<and> a \<le> 0xDF \<and> continuation b
     then Some ((a - 0xC0) * 64 + (b - 0x80)) else None)"

definition decode3 :: "nat \<Rightarrow> nat \<Rightarrow> nat \<Rightarrow> nat option" where
  "decode3 a b c = (if 0xE0 \<le> a \<and> a \<le> 0xEF \<and> continuation b \<and> continuation c
       \<and> (a = 0xE0 \<longrightarrow> 0xA0 \<le> b) \<and> (a = 0xED \<longrightarrow> b \<le> 0x9F)
     then Some ((a - 0xE0) * 4096 + (b - 0x80) * 64 + (c - 0x80)) else None)"

definition decode4 :: "nat \<Rightarrow> nat \<Rightarrow> nat \<Rightarrow> nat \<Rightarrow> nat option" where
  "decode4 a b c d = (if 0xF0 \<le> a \<and> a \<le> 0xF4 \<and> continuation b \<and> continuation c \<and> continuation d
       \<and> (a = 0xF0 \<longrightarrow> 0x90 \<le> b) \<and> (a = 0xF4 \<longrightarrow> b \<le> 0x8F)
     then Some ((a - 0xF0) * 262144 + (b - 0x80) * 4096 + (c - 0x80) * 64 + (d - 0x80)) else None)"

definition or_else :: "'a option \<Rightarrow> 'a option \<Rightarrow> 'a option" where
  "or_else x y = (case x of None \<Rightarrow> y | Some _ \<Rightarrow> x)"

fun decode_rune :: "string \<Rightarrow> (nat \<times> nat) option" where
  "decode_rune [] = None"
| "decode_rune (a # s) =
     (if byte_num a < 0x80 then Some (byte_num a, 1)
      else or_else
        (case s of b # _ \<Rightarrow> map_option (\<lambda>r. (r, 2)) (decode2 (byte_num a) (byte_num b)) | _ \<Rightarrow> None)
        (or_else
          (case s of b # c # _ \<Rightarrow> map_option (\<lambda>r. (r, 3)) (decode3 (byte_num a) (byte_num b) (byte_num c))
           | _ \<Rightarrow> None)
          (case s of b # c # d # _ \<Rightarrow>
              map_option (\<lambda>r. (r, 4)) (decode4 (byte_num a) (byte_num b) (byte_num c) (byte_num d))
           | _ \<Rightarrow> None)))"

lemma decode_rune_size: "decode_rune s = Some (r, n) \<Longrightarrow> 0 < n \<and> n \<le> length s"
  by (cases s; cases "tl s"; cases "tl (tl s)"; cases "tl (tl (tl s))")
    (auto simp: or_else_def split: if_splits option.splits)

lemma decode_rune_units: "decode_rune s = Some (r, n) \<Longrightarrow> 0x10000 \<le> r \<Longrightarrow> n = 4"
  by (cases s; cases "tl s"; cases "tl (tl s)"; cases "tl (tl (tl s))")
    (auto simp: or_else_def decode2_def decode3_def continuation_def split: if_splits option.splits)

lemma decode_rune_wide: "decode_rune s = Some (r, n) \<Longrightarrow> n \<le> 3 \<or> n = 4 \<and> 0x10000 \<le> r"
  by (cases s; cases "tl s"; cases "tl (tl s)"; cases "tl (tl (tl s))")
    (auto simp: or_else_def decode4_def continuation_def split: if_splits option.splits)

lemma decode_rune_append: "decode_rune s = Some p \<Longrightarrow> decode_rune (s @ t) = Some p"
  by (cases s; cases "tl s"; cases "tl (tl s)"; cases "tl (tl (tl s))"; cases t)
    (auto simp: or_else_def split: if_splits option.splits)

text \<open>\<open>utf8.ValidString\<close>, and the runes of a conversion.\<close>

function ValidString :: "string \<Rightarrow> bool" where
  "ValidString s =
     (s = [] \<or> (case decode_rune s of None \<Rightarrow> False | Some (_, n) \<Rightarrow> ValidString (drop n s)))"
  by pat_completeness auto
termination
  by (relation "measure length") (auto dest: decode_rune_size)

function runes :: "string \<Rightarrow> nat list" where
  "runes s =
     (if s = [] then []
      else case decode_rune s of
          None \<Rightarrow> 0xFFFD # runes (tl s)
        | Some (r, n) \<Rightarrow> r # runes (drop n s))"
  by pat_completeness auto
termination
  by (relation "measure length") (auto dest: decode_rune_size)

declare ValidString.simps [simp del] runes.simps [simp del]

definition utf16_len :: "nat \<Rightarrow> nat" where
  "utf16_len r = (if 0x10000 \<le> r then 2 else 1)"

definition utf16_length :: "nat list \<Rightarrow> nat" where
  "utf16_length rs = sum_list (map utf16_len rs)"

text \<open>A string has at most as many code units as bytes.\<close>

lemma utf16_le_bytes: "utf16_length (runes s) \<le> length s"
proof (induction s rule: runes.induct)
  case (1 s)
  show ?case
  proof (cases "s = []")
    case False
    show ?thesis
    proof (cases "decode_rune s")
      case None
      have "utf16_length (runes s) = 1 + utf16_length (runes (tl s))"
        using None False by (simp add: runes.simps [of s] utf16_length_def utf16_len_def)
      also have "\<dots> \<le> 1 + length (tl s)" using "1.IH"(1) [OF False None] by simp
      finally show ?thesis using False by simp
    next
      case (Some p)
      obtain r n where p: "p = (r, n)" by (cases p) auto
      have n: "0 < n" "n \<le> length s" using decode_rune_size Some p by auto
      have "utf16_len r \<le> n" using decode_rune_units [of s r n] Some p n by (auto simp: utf16_len_def)
      moreover have "utf16_length (runes (drop n s)) \<le> length (drop n s)"
        using "1.IH"(2) [OF False] Some p by simp
      moreover have "utf16_length (runes s) = utf16_len r + utf16_length (runes (drop n s))"
        using Some p False by (simp add: runes.simps [of s] utf16_length_def)
      ultimately show ?thesis using n by simp
    qed
  qed (simp add: runes.simps utf16_length_def)
qed

text \<open>A string has at most three bytes for each code unit, since four bytes are two units.\<close>

lemma bytes_le_utf16: "length s \<le> 3 * utf16_length (runes s)"
proof (induction s rule: runes.induct)
  case (1 s)
  show ?case
  proof (cases "s = []")
    case False
    show ?thesis
    proof (cases "decode_rune s")
      case None
      then have "utf16_length (runes s) = 1 + utf16_length (runes (tl s))"
        using False by (simp add: runes.simps [of s] utf16_length_def utf16_len_def)
      moreover have "length (tl s) \<le> 3 * utf16_length (runes (tl s))" using "1.IH"(1) [OF False None] .
      ultimately show ?thesis by simp
    next
      case (Some p)
      obtain r n where p: "p = (r, n)" by (cases p) auto
      have n: "0 < n" "n \<le> length s" using decode_rune_size Some p by auto
      have "n \<le> 3 * utf16_len r" using decode_rune_wide [of s r n] Some p by (auto simp: utf16_len_def)
      moreover have "length (drop n s) \<le> 3 * utf16_length (runes (drop n s))"
        using "1.IH"(2) [OF False] Some p by simp
      moreover have "utf16_length (runes s) = utf16_len r + utf16_length (runes (drop n s))"
        using Some p False by (simp add: runes.simps [of s] utf16_length_def)
      ultimately show ?thesis using n by simp
    qed
  qed simp
qed

lemma ValidString_append: "ValidString s \<Longrightarrow> ValidString t \<Longrightarrow> ValidString (s @ t)"
proof (induction s rule: ValidString.induct)
  case (1 s)
  show ?case
  proof (cases "s = []")
    case False
    then obtain r n where d: "decode_rune s = Some (r, n)" "ValidString (drop n s)"
      using "1.prems"(1) by (auto simp: ValidString.simps [of s] split: option.splits)
    with "1.IH" False "1.prems"(2) have "ValidString (drop n s @ t)" by blast
    moreover have "n \<le> length s" using decode_rune_size [OF d(1)] by simp
    ultimately show ?thesis
      using decode_rune_append [OF d(1), of t] by (simp add: ValidString.simps [of "s @ t"])
  qed (use "1.prems" in simp)
qed

text \<open>ASCII strings are valid and have one code unit for each byte.\<close>

lemma ascii_utf8:
  assumes "\<forall>c \<in> set s. byte_num c < 0x80"
  shows "ValidString s \<and> utf16_length (runes s) = length s"
  using assms
proof (induction s)
  case (Cons c s)
  then show ?case
    by (simp add: ValidString.simps [of "c # s"] runes.simps [of "c # s"] utf16_length_def utf16_len_def)
qed (simp add: ValidString.simps runes.simps utf16_length_def)

end
