(* ===== verification/Go_Strings.thy ===== *)
theory Go_Strings
  imports Prelude
begin

text \<open>
  The functions of packages \<open>strings\<close>, \<open>bytes\<close> and \<open>strconv\<close> that the repository calls,
  on byte strings. White space and letter case are Unicode notions in Go; the definitions
  work on the UTF-8 encodings, so non-ASCII white space and the non-ASCII characters that
  fold or lower to an ASCII letter are covered.
\<close>

section \<open>Prefixes, fields, cuts\<close>

abbreviation HasPrefix :: "string \<Rightarrow> string \<Rightarrow> bool" where
  "HasPrefix s p \<equiv> prefix p s"

abbreviation Contains :: "string \<Rightarrow> string \<Rightarrow> bool" where
  "Contains s p \<equiv> sublist p s"

text \<open>\<open>strings.Cut\<close> at a one-byte separator.\<close>

fun Cut :: "char \<Rightarrow> string \<Rightarrow> (string \<times> string) option" where
  "Cut sep [] = None"
| "Cut sep (c # s) =
     (if c = sep then Some ([], s) else map_option (\<lambda>(a, b). (c # a, b)) (Cut sep s))"

lemma Cut_Some: "Cut sep s = Some (a, b) \<longleftrightarrow> s = a @ sep # b \<and> sep \<notin> set a"
proof (induction s arbitrary: a)
  case (Cons c s)
  show ?case
  proof (cases "c = sep")
    case True
    then show ?thesis by (cases a) auto
  next
    case False
    then have "Cut sep (c # s) = Some (a, b) \<longleftrightarrow> (\<exists>a'. Cut sep s = Some (a', b) \<and> a = c # a')"
      by (auto split: prod.splits)
    with False Cons.IH show ?thesis by (cases a) auto
  qed
qed simp

text \<open>\<open>strings.Split\<close> at a one-byte separator: n separators give n + 1 parts.\<close>

fun Split :: "char \<Rightarrow> string \<Rightarrow> string list" where
  "Split sep [] = [[]]"
| "Split sep (c # s) =
     (if c = sep then [] # Split sep s
      else (case Split sep s of [] \<Rightarrow> [[c]] | p # ps \<Rightarrow> (c # p) # ps))"

fun Join_with :: "char \<Rightarrow> string list \<Rightarrow> string" where
  "Join_with sep [] = []"
| "Join_with sep [p] = p"
| "Join_with sep (p # ps) = p @ sep # Join_with sep ps"

lemma Split_nonempty [simp]: "Split sep s \<noteq> []"
  by (induction s) (auto split: list.splits)

lemma Split_no_sep: "p \<in> set (Split sep s) \<Longrightarrow> sep \<notin> set p"
  by (induction s arbitrary: p) (auto split: list.splits if_splits)

lemma Split_id: "sep \<notin> set s \<Longrightarrow> Split sep s = [s]"
  by (induction s) auto

lemma Split_append: "sep \<notin> set a \<Longrightarrow> Split sep (a @ sep # b) = a # Split sep b"
  by (induction a) auto

lemma Join_with_Cons: "ps \<noteq> [] \<Longrightarrow> Join_with sep (p # ps) = p @ sep # Join_with sep ps"
  by (cases ps) auto

lemma Join_with_push: "Join_with sep ((c # p) # ps) = c # Join_with sep (p # ps)"
  by (cases ps) auto

lemma Join_Split: "Join_with sep (Split sep s) = s"
proof (induction s)
  case (Cons c s)
  obtain p ps where "Split sep s = p # ps" by (cases "Split sep s") auto
  with Cons show ?case by (auto simp: Join_with_Cons Join_with_push)
qed simp

lemma Split_Join:
  "ps \<noteq> [] \<Longrightarrow> (\<And>p. p \<in> set ps \<Longrightarrow> sep \<notin> set p) \<Longrightarrow> Split sep (Join_with sep ps) = ps"
proof (induction sep ps rule: Join_with.induct)
  case (2 sep p)
  then show ?case by (simp add: Split_id)
next
  case (3 sep p q ps)
  then show ?case by (simp add: Split_append)
qed simp

section \<open>White space\<close>

text \<open>
  The UTF-8 encodings of the characters of \<open>unicode.IsSpace\<close>: tab, newline, vertical tab,
  form feed, carriage return, space, U+0085, U+00A0, U+1680, U+2000 to U+200A, U+2028,
  U+2029, U+202F, U+205F, U+3000. No encoding starts inside another character, because
  lead bytes are not continuation bytes, so looking for them byte by byte finds exactly
  the white space characters that decoding finds.
\<close>

definition space_seqs :: "string list" where
  "space_seqs =
     [[CHR 9], [CHR 10], [CHR 11], [CHR 12], [CHR 13], [CHR 32],
      [CHR 0xC2, CHR 0x85], [CHR 0xC2, CHR 0xA0], [CHR 0xE1, CHR 0x9A, CHR 0x80]]
     @ map (\<lambda>c. [CHR 0xE2, CHR 0x80, c])
         [CHR 0x80, CHR 0x81, CHR 0x82, CHR 0x83, CHR 0x84, CHR 0x85, CHR 0x86, CHR 0x87,
          CHR 0x88, CHR 0x89, CHR 0x8A, CHR 0xA8, CHR 0xA9, CHR 0xAF]
     @ [[CHR 0xE2, CHR 0x81, CHR 0x9F], [CHR 0xE3, CHR 0x80, CHR 0x80]]"

text \<open>The length of the white space character at the front, zero when there is none.\<close>

definition space_len :: "string list \<Rightarrow> string \<Rightarrow> nat" where
  "space_len seqs s = (case find (\<lambda>q. prefix q s) seqs of None \<Rightarrow> 0 | Some q \<Rightarrow> length q)"

fun trim_left_seqs :: "string list \<Rightarrow> string \<Rightarrow> string" where
  "trim_left_seqs seqs [] = []"
| "trim_left_seqs seqs (c # s) =
     (case space_len seqs (c # s) of 0 \<Rightarrow> c # s | Suc n \<Rightarrow> trim_left_seqs seqs (drop n s))"

definition TrimSpace :: "string \<Rightarrow> string" where
  "TrimSpace s =
     rev (trim_left_seqs (map rev space_seqs) (rev (trim_left_seqs space_seqs s)))"

text \<open>\<open>strings.Fields\<close>: the maximal runs without white space.\<close>

fun fields_from :: "string \<Rightarrow> string \<Rightarrow> string list" where
  "fields_from cur [] = (if cur = [] then [] else [rev cur])"
| "fields_from cur (c # s) =
     (case space_len space_seqs (c # s) of
        0 \<Rightarrow> fields_from (c # cur) s
      | Suc n \<Rightarrow> (if cur = [] then [] else [rev cur]) @ fields_from [] (drop n s))"

definition Fields :: "string \<Rightarrow> string list" where
  "Fields s = fields_from [] s"

lemma Fields_nonempty: "[] \<notin> set (Fields s)"
proof -
  have "[] \<notin> set (fields_from cur s)" for cur
    by (induction cur s rule: fields_from.induct) (auto split: nat.splits)
  then show ?thesis by (simp add: Fields_def)
qed

text \<open>Bytes that start no white space character: printable ASCII in particular.\<close>

definition space_free :: "string \<Rightarrow> bool" where
  "space_free s \<longleftrightarrow> (\<forall>c \<in> set s. 32 < (of_char c :: nat) \<and> (of_char c :: nat) < 128)"

lemma space_free_simps [simp]:
  "space_free []"
  "space_free (c # s) \<longleftrightarrow> 32 < (of_char c :: nat) \<and> (of_char c :: nat) < 128 \<and> space_free s"
  "space_free (s @ t) \<longleftrightarrow> space_free s \<and> space_free t"
  "space_free (rev s) \<longleftrightarrow> space_free s"
  by (auto simp: space_free_def)

definition lead_space :: "nat \<Rightarrow> bool" where
  "lead_space n \<longleftrightarrow> n \<le> 32 \<or> 128 \<le> n"

lemma space_len_none:
  assumes "\<forall>q \<in> set seqs. \<exists>b q'. q = b # q' \<and> lead_space (of_char b)"
    and "32 < (of_char c :: nat)" "(of_char c :: nat) < 128"
  shows "space_len seqs (c # s) = 0"
proof -
  have "find (\<lambda>q. prefix q (c # s)) seqs = None"
    unfolding find_None_iff using assms by (fastforce simp: lead_space_def)
  then show ?thesis by (simp add: space_len_def)
qed

lemma space_seqs_lead:
  "\<forall>q \<in> set space_seqs. \<exists>b q'. q = b # q' \<and> lead_space (of_char b)"
  "\<forall>q \<in> set (map rev space_seqs). \<exists>b q'. q = b # q' \<and> lead_space (of_char b)"
  by (simp_all add: space_seqs_def lead_space_def)

lemma TrimSpace_space_free: "space_free s \<Longrightarrow> TrimSpace s = s"
proof -
  have "space_free s \<Longrightarrow> trim_left_seqs space_seqs s = s" for s
    by (cases s) (simp_all add: space_len_none [OF space_seqs_lead(1)])
  moreover have "space_free s \<Longrightarrow> trim_left_seqs (map rev space_seqs) s = s" for s
    by (cases s) (simp_all add: space_len_none [OF space_seqs_lead(2)])
  moreover assume "space_free s"
  ultimately show ?thesis by (simp add: TrimSpace_def)
qed

lemma space_len_newline:
  "space_len space_seqs (CHR 10 # t) = 1" "space_len (map rev space_seqs) (CHR 10 # t) = 1"
  by (simp_all add: space_len_def space_seqs_def)

lemma TrimSpace_newline: "space_free s \<Longrightarrow> TrimSpace (s @ [CHR 10]) = s"
proof -
  assume sf: "space_free s"
  have nl: "trim_left_seqs (map rev space_seqs) (CHR 10 # t) = trim_left_seqs (map rev space_seqs) t" for t
    by (simp add: space_len_newline)
  have r: "trim_left_seqs (map rev space_seqs) t = t" if "space_free t" for t
    using that by (cases t) (simp_all add: space_len_none [OF space_seqs_lead(2)])
  show ?thesis
  proof (cases s)
    case Nil
    show ?thesis by (simp add: Nil TrimSpace_def space_len_newline)
  next
    case (Cons c t)
    with sf have "trim_left_seqs space_seqs (s @ [CHR 10]) = s @ [CHR 10]"
      by (simp add: space_len_none [OF space_seqs_lead(1)])
    with sf show ?thesis by (simp add: TrimSpace_def nl r del: trim_left_seqs.simps)
  qed
qed

section \<open>Letter case\<close>

definition lower_byte :: "char \<Rightarrow> char" where
  "lower_byte c = (let n = of_char c :: nat in if 65 \<le> n \<and> n \<le> 90 then char_of (n + 32) else c)"

text \<open>
  \<open>strings.ToLower\<close>. Of the non-ASCII characters exactly U+0130 and U+212A lower to an ASCII
  letter; the others lower to non-ASCII characters and are left as they are, which the
  comparisons with ASCII patterns in this repository cannot tell apart.
\<close>

fun ToLower :: "string \<Rightarrow> string" where
  "ToLower [] = []"
| "ToLower (a # b # c # s) =
     (if a = CHR 0xC4 \<and> b = CHR 0xB0 then CHR ''i'' # ToLower (c # s)
      else if a = CHR 0xE2 \<and> b = CHR 0x84 \<and> c = CHR 0xAA
      then CHR ''k'' # ToLower s
      else lower_byte a # ToLower (b # c # s))"
| "ToLower [a, b] =
     (if a = CHR 0xC4 \<and> b = CHR 0xB0 then [CHR ''i'']
      else [lower_byte a, lower_byte b])"
| "ToLower [a] = [lower_byte a]"

text \<open>
  \<open>strings.EqualFold(s, t)\<close> for an ASCII \<open>t\<close>: each byte of \<open>t\<close> matches itself and its other
  case; \<open>s\<close> also matches U+017F and \<open>k\<close> also U+212A, the non-ASCII members of their orbits.
\<close>

fun EqualFold :: "string \<Rightarrow> string \<Rightarrow> bool" where
  "EqualFold [] t = (t = [])"
| "EqualFold (a # s) [] = False"
| "EqualFold (a # s) (c # t) =
     (if lower_byte a = lower_byte c then EqualFold s t
      else if lower_byte c = CHR ''s'' \<and> a = CHR 0xC5
      then (case s of b # s' \<Rightarrow> b = CHR 0xBF \<and> EqualFold s' t | [] \<Rightarrow> False)
      else if lower_byte c = CHR ''k'' \<and> a = CHR 0xE2
      then (case s of b # d # s' \<Rightarrow> b = CHR 0x84 \<and> d = CHR 0xAA \<and> EqualFold s' t
            | _ \<Rightarrow> False)
      else False)"

section \<open>strconv.ParseUint with base 10\<close>

definition digit_val :: "char \<Rightarrow> nat option" where
  "digit_val c = (let n = of_char c :: nat in if 48 \<le> n \<and> n \<le> 57 then Some (n - 48) else None)"

fun digits_val :: "nat \<Rightarrow> string \<Rightarrow> nat option" where
  "digits_val acc [] = Some acc"
| "digits_val acc (c # s) =
     (case digit_val c of None \<Rightarrow> None | Some d \<Rightarrow> digits_val (10 * acc + d) s)"

text \<open>Empty input and non-digits are syntax errors, values of more than \<open>bits\<close> bits range errors.\<close>

definition ParseUint :: "string \<Rightarrow> nat \<Rightarrow> nat option" where
  "ParseUint s bits =
     (if s = [] then None
      else (case digits_val 0 s of None \<Rightarrow> None | Some n \<Rightarrow> if n < 2 ^ bits then Some n else None))"

lemma ParseUint_bound: "ParseUint s bits = Some n \<Longrightarrow> n < 2 ^ bits"
  by (auto simp: ParseUint_def split: if_splits option.splits)

text \<open>The decimal numeral of a number, for stating what the parser accepts.\<close>

fun decimal :: "nat \<Rightarrow> string" where
  "decimal n = (if n < 10 then [char_of (48 + n)] else decimal (n div 10) @ [char_of (48 + n mod 10)])"

declare decimal.simps [simp del]

lemma digits_val_append:
  "digits_val acc (s @ [c]) =
     (case digits_val acc s of None \<Rightarrow> None
      | Some n \<Rightarrow> map_option (\<lambda>d. 10 * n + d) (digit_val c))"
  by (induction s arbitrary: acc) (auto split: option.splits)

lemma digit_val_char [simp]: "d < 10 \<Longrightarrow> digit_val (char_of (48 + d)) = Some d"
  by (simp add: digit_val_def)

lemma digits_val_decimal: "digits_val 0 (decimal n) = Some n"
proof (induction n rule: decimal.induct)
  case (1 n)
  then show ?case
    by (cases "n < 10")
       (simp_all add: decimal.simps [of n] digits_val_append digit_val_char [of n])
qed

lemma decimal_digits: "c \<in> set (decimal n) \<Longrightarrow> 48 \<le> (of_char c :: nat) \<and> (of_char c :: nat) \<le> 57"
proof (induction n rule: decimal.induct)
  case (1 n)
  then show ?case
    by (cases "n < 10") (auto simp: decimal.simps [of n])
qed

lemma decimal_nonempty [simp]: "decimal n \<noteq> []"
  by (subst decimal.simps) simp

lemma ParseUint_decimal: "n < 2 ^ bits \<Longrightarrow> ParseUint (decimal n) bits = Some n"
  by (simp add: ParseUint_def digits_val_decimal)

end
