(* ===== verification/Windows.thy ===== *)
theory Windows
  imports Keyringer Utf8 Go_Strings
begin

text \<open>
  \<open>internal/backend/windows\<close>: the adapter to Windows Credential Manager. The three native
  operations are arguments (package variables in the code); those of \<open>native_windows.go\<close>
  over the calls of \<open>wincred\<close>, and those of \<open>native_other.go\<close>, are instances.
\<close>

definition maxCredentialBlobBytes :: nat where "maxCredentialBlobBytes = 5 * 512"
definition maxGenericTargetUnits :: nat where "maxGenericTargetUnits = 32767"
definition maxUsernameUnits :: nat where "maxUsernameUnits = 513"

record 'w native_credentials =
  readCredential :: "string \<Rightarrow> ('w, go_error + bytes) state"
  writeCredential :: "string \<Rightarrow> string \<Rightarrow> bytes \<Rightarrow> ('w, go_error option) state"
  deleteCredential :: "string \<Rightarrow> ('w, go_error option) state"

definition utf16Units :: "string \<Rightarrow> nat" where
  "utf16Units s = utf16_length (runes s)"

definition win_invalid :: "string \<Rightarrow> go_error + string" where
  "win_invalid why = Inl (Errorf why [Category ErrInvalidArgument])"

definition validatedTarget :: "string \<Rightarrow> string \<Rightarrow> go_error + string" where
  "validatedTarget service key =
     (if service = '''' then win_invalid ''%w: service is empty''
      else if key = '''' then win_invalid ''%w: key is empty''
      else if CHR 0x00 \<in> set service \<or> CHR 0x00 \<in> set key
      then win_invalid ''%w: service or key contains NUL''
      else if \<not> ValidString service \<or> \<not> ValidString key
      then win_invalid ''%w: service or key is not valid UTF-8''
      else if utf16Units key > maxUsernameUnits
      then win_invalid ''%w: Windows credential username exceeds %d UTF-16 code units''
      else
        let target = service @ '':'' @ key
        in if utf16Units target > maxGenericTargetUnits
           then win_invalid ''%w: Windows credential target exceeds %d UTF-16 code units''
           else Inr target)"

definition win_portable :: "category list" where
  "win_portable = [ErrNotFound, ErrInvalidArgument, ErrValueTooLarge, ErrBackendUnavailable,
     ErrPermissionDenied, ErrUnsupported]"

definition win_operationError :: "string \<Rightarrow> go_error option \<Rightarrow> go_error option" where
  "win_operationError operation err =
     (case err of
        None \<Rightarrow> None
      | Some e \<Rightarrow>
          Some (if list_ex (\<lambda>c. err_is e (Category c)) win_portable
                then Errorf (operation @ '': %w'') [e]
                else Errorf (''%w: '' @ operation @ '': %w'') [Category ErrBackendFailure, e]))"

definition win_Get ::
  "'w native_credentials \<Rightarrow> 'w ctx option \<Rightarrow> string \<Rightarrow> string \<Rightarrow> ('w, go_error + bytes) state" where
  "win_Get native ctx service key = do {
     cerr \<leftarrow> ContextError ctx;
     (case cerr of
        Some err \<Rightarrow> ret (Inl err)
      | None \<Rightarrow>
          (case validatedTarget service key of
             Inl err \<Rightarrow> ret (Inl err)
           | Inr target \<Rightarrow> do {
               r \<leftarrow> readCredential native target;
               ret (case r of
                  Inl err \<Rightarrow> Inl (the (win_operationError ''get credential'' (Some err)))
                | Inr contents \<Rightarrow> Inr contents)
             }))
   }"

definition win_Set ::
  "'w native_credentials \<Rightarrow> 'w ctx option \<Rightarrow> string \<Rightarrow> string \<Rightarrow> bytes \<Rightarrow> ('w, go_error option) state" where
  "win_Set native ctx service key contents = do {
     cerr \<leftarrow> ContextError ctx;
     (case cerr of
        Some err \<Rightarrow> ret (Some err)
      | None \<Rightarrow>
          (case validatedTarget service key of
             Inl err \<Rightarrow> ret (Some err)
           | Inr target \<Rightarrow>
               (if length contents > maxCredentialBlobBytes
                then ret (Some (Errorf ''%w: Windows credential blob exceeds %d bytes''
                  [Category ErrValueTooLarge]))
                else do {
                  r \<leftarrow> writeCredential native target key contents;
                  ret (win_operationError ''set credential'' r)
                })))
   }"

definition win_Delete ::
  "'w native_credentials \<Rightarrow> 'w ctx option \<Rightarrow> string \<Rightarrow> string \<Rightarrow> ('w, go_error option) state" where
  "win_Delete native ctx service key = do {
     cerr \<leftarrow> ContextError ctx;
     (case cerr of
        Some err \<Rightarrow> ret (Some err)
      | None \<Rightarrow>
          (case validatedTarget service key of
             Inl err \<Rightarrow> ret (Some err)
           | Inr target \<Rightarrow> do {
               r \<leftarrow> deleteCredential native target;
               ret (win_operationError ''delete credential'' r)
             }))
   }"

section \<open>Native operations\<close>

text \<open>The calls of package \<open>wincred\<close>: a credential is its user name and blob.\<close>

record 'w wincred =
  GetGenericCredential :: "string \<Rightarrow> ('w, go_error + string \<times> bytes) state"
  WriteGeneric :: "string \<Rightarrow> string \<Rightarrow> bytes \<Rightarrow> ('w, go_error option) state"
  DeleteGeneric :: "string \<Rightarrow> ('w, go_error option) state"

definition windowsError :: "go_error option \<Rightarrow> go_error option" where
  "windowsError err =
     (case err of
        None \<Rightarrow> None
      | Some e \<Rightarrow>
          Some (if err_is e (WinError ErrElementNotFound)
                then Errorf ''%w: %w'' [Category ErrNotFound, e]
                else if err_is e (WinError ErrInvalidParameter) \<or> err_is e (WinError ErrBadUsername)
                then Errorf ''%w: %w'' [Category ErrInvalidArgument, e]
                else if err_is e (WinError ERROR_ACCESS_DENIED)
                then Errorf ''%w: %w'' [Category ErrPermissionDenied, e]
                else if err_is e (WinError ERROR_NO_SUCH_LOGON_SESSION)
                then Errorf ''%w: %w'' [Category ErrBackendUnavailable, e]
                else e))"

definition nativeReadCredential :: "'w wincred \<Rightarrow> string \<Rightarrow> ('w, go_error + bytes) state" where
  "nativeReadCredential api target = do {
     r \<leftarrow> GetGenericCredential api target;
     ret (case r of
        Inl err \<Rightarrow> Inl (the (windowsError (Some err)))
      | Inr (user, blob) \<Rightarrow> Inr blob)
   }"

definition nativeWriteCredential ::
  "'w wincred \<Rightarrow> string \<Rightarrow> string \<Rightarrow> bytes \<Rightarrow> ('w, go_error option) state" where
  "nativeWriteCredential api target username contents = do {
     r \<leftarrow> WriteGeneric api target username contents;
     ret (windowsError r)
   }"

definition nativeDeleteCredential :: "'w wincred \<Rightarrow> string \<Rightarrow> ('w, go_error option) state" where
  "nativeDeleteCredential api target = do {
     r \<leftarrow> DeleteGeneric api target;
     ret (windowsError r)
   }"

definition native_windows :: "'w wincred \<Rightarrow> 'w native_credentials" where
  "native_windows api = \<lparr>readCredential = nativeReadCredential api,
     writeCredential = nativeWriteCredential api, deleteCredential = nativeDeleteCredential api\<rparr>"

definition native_other :: "'w native_credentials" where
  "native_other = \<lparr>readCredential = (\<lambda>_. ret (Inl (Category ErrUnsupported))),
     writeCredential = (\<lambda>_ _ _. ret (Some (Category ErrUnsupported))),
     deleteCredential = (\<lambda>_. ret (Some (Category ErrUnsupported)))\<rparr>"

section \<open>Lemmas\<close>

lemma validatedTarget_Inr:
  "validatedTarget service key = Inr t \<longleftrightarrow>
     t = service @ '':'' @ key \<and> service \<noteq> '''' \<and> key \<noteq> ''''
     \<and> CHR 0x00 \<notin> set service \<and> CHR 0x00 \<notin> set key \<and> ValidString service \<and> ValidString key
     \<and> utf16Units key \<le> maxUsernameUnits \<and> utf16Units t \<le> maxGenericTargetUnits"
  by (auto simp: validatedTarget_def win_invalid_def Let_def)

lemma validatedTarget_Inl:
  "validatedTarget service key = Inl e \<Longrightarrow> err_is e (Category c) \<longleftrightarrow> c = ErrInvalidArgument"
  by (auto simp: validatedTarget_def win_invalid_def Let_def split: if_splits)

lemma win_operationError_simps [simp]:
  "win_operationError op None = None"
  "win_operationError op x = None \<longleftrightarrow> x = None"
  by (simp_all add: win_operationError_def split: option.splits)

section \<open>The contract\<close>

text \<open>Names that Windows can take: UTF-16 strings without a terminator, within a limit.\<close>

definition windows_name :: "nat \<Rightarrow> string \<Rightarrow> bool" where
  "windows_name limit s \<longleftrightarrow> s \<noteq> '''' \<and> CHR 0x00 \<notin> set s \<and> ValidString s \<and> utf16Units s \<le> limit"

text \<open>
  The documented behaviour of the credential manager on generic credentials. It takes some
  target names for the same, those that differ in case at least: \<open>entry\<close> is what a name
  designates, and nothing is required of it. Nothing is promised for other names than those.
\<close>

locale credential_manager =
  fixes api :: "'w wincred"
    and entry :: "string \<Rightarrow> 't"
    and creds :: "'w \<Rightarrow> 't \<rightharpoonup> string \<times> bytes"
  assumes read_found: "\<And>w t c. windows_name maxGenericTargetUnits t \<Longrightarrow> creds w (entry t) = Some c \<Longrightarrow>
      \<exists>w'. run_state (GetGenericCredential api t) w = (Inr c, w') \<and> creds w' = creds w"
    and read_missing: "\<And>w t. windows_name maxGenericTargetUnits t \<Longrightarrow> creds w (entry t) = None \<Longrightarrow>
      \<exists>e w'. run_state (GetGenericCredential api t) w = (Inl e, w')
        \<and> err_is e (WinError ErrElementNotFound) \<and> creds w' = creds w"
    and write_ok: "\<And>w t u v. windows_name maxGenericTargetUnits t \<Longrightarrow> windows_name maxUsernameUnits u \<Longrightarrow>
      length v \<le> maxCredentialBlobBytes \<Longrightarrow>
      \<exists>w'. run_state (WriteGeneric api t u v) w = (None, w') \<and> creds w' = (creds w)(entry t \<mapsto> (u, v))"
    and delete_found: "\<And>w t c. windows_name maxGenericTargetUnits t \<Longrightarrow> creds w (entry t) = Some c \<Longrightarrow>
      \<exists>w'. run_state (DeleteGeneric api t) w = (None, w') \<and> creds w' = (creds w)(entry t := None)"
    and delete_missing: "\<And>w t. windows_name maxGenericTargetUnits t \<Longrightarrow> creds w (entry t) = None \<Longrightarrow>
      \<exists>e w'. run_state (DeleteGeneric api t) w = (Some e, w')
        \<and> err_is e (WinError ErrElementNotFound) \<and> creds w' = creds w"

definition win_target :: "string \<Rightarrow> string \<Rightarrow> string" where
  "win_target service key = service @ '':'' @ key"

definition win_valid :: "string \<Rightarrow> string \<Rightarrow> bool" where
  "win_valid service key \<longleftrightarrow> validatedTarget service key = Inr (win_target service key)"

lemma win_valid_names:
  "win_valid service key \<Longrightarrow> windows_name maxGenericTargetUnits (win_target service key)"
  "win_valid service key \<Longrightarrow> windows_name maxUsernameUnits key"
proof -
  have "ValidString '':''" by (rule conjunct1 [OF ascii_utf8]) simp
  then show "win_valid service key \<Longrightarrow> windows_name maxGenericTargetUnits (win_target service key)"
    using ValidString_append [of service "'':'' @ key"] ValidString_append [of "'':''" key]
    by (simp add: win_valid_def validatedTarget_Inr windows_name_def win_target_def)
  show "win_valid service key \<Longrightarrow> windows_name maxUsernameUnits key"
    by (simp add: win_valid_def validatedTarget_Inr windows_name_def)
qed

definition win_view :: "('w \<Rightarrow> 't \<rightharpoonup> string \<times> bytes) \<Rightarrow> 'w \<Rightarrow> 't \<rightharpoonup> bytes" where
  "win_view creds w t = map_option snd (creds w t)"

lemma win_view_upd:
  "creds w' = (creds w)(t \<mapsto> (u, v)) \<Longrightarrow> win_view creds w' = (win_view creds w)(t \<mapsto> v)"
  "creds w' = (creds w)(t := None) \<Longrightarrow> win_view creds w' = (win_view creds w)(t := None)"
  "creds w' = creds w \<Longrightarrow> win_view creds w' = win_view creds w"
  by (auto simp: win_view_def fun_eq_iff)

sublocale credential_manager \<subseteq> keyring: keyringer_contract
  "win_Get (native_windows api) Background service" "win_Set (native_windows api) Background service"
  "win_Delete (native_windows api) Background service" "win_view creds" "\<lambda>k. entry (win_target service k)"
  "\<lambda>_. True" "win_valid service" "\<lambda>_ v. length v \<le> maxCredentialBlobBytes" for service
proof (unfold_locales, goal_cases)
  case (1 w k v)
  then obtain u where "creds w (entry (win_target service k)) = Some (u, v)" by (auto simp: win_view_def)
  with 1 read_found win_valid_names(1) show ?case
    by (fastforce simp: win_Get_def win_valid_def native_windows_def nativeReadCredential_def
        intro: win_view_upd)
next
  case (2 w k)
  then have "creds w (entry (win_target service k)) = None" by (simp add: win_view_def)
  from read_missing [OF win_valid_names(1) this] 2 obtain e w' where
    "run_state (GetGenericCredential api (win_target service k)) w = (Inl e, w')"
    "err_is e (WinError ErrElementNotFound)" "creds w' = creds w" by blast
  with 2 show ?case
    by (auto simp: win_Get_def win_valid_def native_windows_def nativeReadCredential_def
        windowsError_def win_operationError_def win_portable_def intro: win_view_upd)
next
  case (3 w k v)
  with write_ok win_valid_names obtain w' where
    "run_state (WriteGeneric api (win_target service k) k v) w = (None, w')"
    "creds w' = (creds w)(entry (win_target service k) \<mapsto> (k, v))" by blast
  with 3 show ?case
    by (auto simp: win_Set_def win_valid_def native_windows_def nativeWriteCredential_def
        windowsError_def intro: win_view_upd)
next
  case (4 w k v)
  then obtain u where "creds w (entry (win_target service k)) = Some (u, v)" by (auto simp: win_view_def)
  from delete_found [OF win_valid_names(1) this] 4 show ?case
    by (auto simp: win_Delete_def win_valid_def native_windows_def nativeDeleteCredential_def
        windowsError_def intro: win_view_upd)
next
  case (5 w k)
  then have "creds w (entry (win_target service k)) = None" by (simp add: win_view_def)
  from delete_missing [OF win_valid_names(1) this] 5 obtain e w' where
    "run_state (DeleteGeneric api (win_target service k)) w = (Some e, w')"
    "err_is e (WinError ErrElementNotFound)" "creds w' = creds w" by blast
  with 5 show ?case
    by (auto simp: win_Delete_def win_valid_def native_windows_def nativeDeleteCredential_def
        windowsError_def win_operationError_def win_portable_def intro: win_view_upd)
qed

context credential_manager
begin

lemma requests_refine:
  assumes "\<forall>r\<in>set rs. acceptable (win_valid service) (\<lambda>_ v. length v \<le> maxCredentialBlobBytes) r"
    and "spec_run (\<lambda>k. entry (win_target service k)) rs (win_view creds w) = (as, m)"
  shows "\<exists>w'. run_state (impl_run (win_Get (native_windows api) Background service)
       (win_Set (native_windows api) Background service)
       (win_Delete (native_windows api) Background service) rs) w = (as, w') \<and> win_view creds w' = m"
  using keyring.run_refines [OF _ assms] by simp

lemma services_collide:
  assumes "length v \<le> maxCredentialBlobBytes"
    and "win_valid (a @ '':'' @ b) c" and "win_valid a (b @ '':'' @ c)"
  shows "\<exists>w1 w2 w3 e w4.
     run_state (win_Set (native_windows api) Background (a @ '':'' @ b) c v) w = (None, w1)
     \<and> run_state (win_Get (native_windows api) Background a (b @ '':'' @ c)) w1 = (Inr v, w2)
     \<and> run_state (win_Delete (native_windows api) Background a (b @ '':'' @ c)) w2 = (None, w3)
     \<and> run_state (win_Get (native_windows api) Background (a @ '':'' @ b) c) w3 = (Inl e, w4)
     \<and> err_is e (Category ErrNotFound)"
proof -
  let ?n = "native_windows api" let ?t = "entry (win_target a (b @ '':'' @ c))"
  have t: "entry (win_target (a @ '':'' @ b) c) = ?t" by (simp add: win_target_def)
  obtain w1 where 1: "run_state (win_Set ?n Background (a @ '':'' @ b) c v) w = (None, w1)"
      "win_view creds w1 ?t = Some v"
    using keyring.set_stores [OF _ assms(2,1)] t by fastforce
  obtain w2 where 2: "run_state (win_Get ?n Background a (b @ '':'' @ c)) w1 = (Inr v, w2)"
      "win_view creds w2 ?t = Some v"
    using keyring.get_found [OF _ assms(3) 1(2)] 1(2) by fastforce
  obtain w3 where 3: "run_state (win_Delete ?n Background a (b @ '':'' @ c)) w2 = (None, w3)"
      "win_view creds w3 ?t = None"
    using keyring.delete_found [OF _ assms(3) 2(2)] by fastforce
  obtain e w4 where "run_state (win_Get ?n Background (a @ '':'' @ b) c) w3 = (Inl e, w4)"
      "err_is e (Category ErrNotFound)"
    using keyring.get_missing [OF _ assms(2) 3(2) [folded t]] by fastforce
  with 1 2 3 show ?thesis by blast
qed

end

text \<open>The store of the interpretation: generic credentials by target without its case, with the checks
  of the API.\<close>

abbreviation no_case :: "string \<Rightarrow> string" where "no_case \<equiv> map lower_byte"

definition mem_wincred :: "(string \<rightharpoonup> string \<times> bytes) wincred" where
  "mem_wincred =
     \<lparr>GetGenericCredential = (\<lambda>t. do { m \<leftarrow> State_Monad.get;
        ret (case m (no_case t) of None \<Rightarrow> Inl (WinError ErrElementNotFound) | Some c \<Rightarrow> Inr c) }),
      WriteGeneric = (\<lambda>t u v. do { m \<leftarrow> State_Monad.get;
        (if length v > maxCredentialBlobBytes \<or> \<not> windows_name maxGenericTargetUnits t
         then ret (Some (WinError ErrInvalidParameter))
         else if \<not> windows_name maxUsernameUnits u then ret (Some (WinError ErrBadUsername))
         else do { State_Monad.set (m(no_case t \<mapsto> (u, v))); ret None }) }),
      DeleteGeneric = (\<lambda>t. do { m \<leftarrow> State_Monad.get;
        (case m (no_case t) of None \<Rightarrow> ret (Some (WinError ErrElementNotFound))
         | Some _ \<Rightarrow> do { State_Monad.set (m(no_case t := None)); ret None }) })\<rparr>"

interpretation mem_manager: credential_manager mem_wincred no_case "\<lambda>m. m"
  by unfold_locales (auto simp: mem_wincred_def)

section \<open>Properties\<close>

text \<open>C25 Over any credential manager with the documented behaviour on target and user names that Windows
  can represent, the Windows adapter answers every sequence of requests on keys its validation
  accepts and values of at most 2560 bytes as a map does whose entries are what the targets
  \<open>service:key\<close> designate. Keys whose targets the manager takes for the same, such as those that
  differ in case, are one entry: a value stored under the one is read, overwritten and deleted
  through the other.\<close>

theorem win_refines_map:
  assumes "credential_manager api entry creds"
    and "\<forall>r\<in>set rs. acceptable (win_valid service) (\<lambda>_ v. length v \<le> maxCredentialBlobBytes) r"
    and "spec_run (\<lambda>k. entry (win_target service k)) rs (win_view creds w) = (as, m)"
  shows "\<exists>w'. run_state (impl_run (win_Get (native_windows api) Background service)
       (win_Set (native_windows api) Background service)
       (win_Delete (native_windows api) Background service) rs) w = (as, w') \<and> win_view creds w' = m"
  using assms by (rule credential_manager.requests_refine)

lemma ascii_units: "\<forall>c\<in>set s. byte_num c < 0x80 \<Longrightarrow> utf16Units s = length s \<and> ValidString s"
  using ascii_utf8 [of s] by (simp add: utf16Units_def)

lemma win_valid_ascii:
  assumes "service \<noteq> ''''" "key \<noteq> ''''" "length key \<le> 513" "length service + length key < 32767"
    and "\<forall>c\<in>set (service @ key). c \<noteq> CHR 0x00 \<and> byte_num c < 0x80"
  shows "win_valid service key"
  using assms ascii_units [of service] ascii_units [of key] ascii_units [of "service @ '':'' @ key"]
  by (auto simp: win_valid_def validatedTarget_Inr win_target_def maxUsernameUnits_def maxGenericTargetUnits_def)

lemma mail_alice_valid: "win_valid ''mail'' ''alice''" "win_valid ''mail'' ''Alice''"
  by (rule win_valid_ascii; simp)+

theorem win_refines_map_witness:
  "\<exists>w'. run_state (impl_run (win_Get (native_windows mem_wincred) Background ''mail'')
       (win_Set (native_windows mem_wincred) Background ''mail'')
       (win_Delete (native_windows mem_wincred) Background ''mail'')
       [Get_req ''alice'', Set_req ''Alice'' ''s'', Get_req ''alice'']) Map.empty
     = ([Missing, Done_ok, Value ''s''], w')"
proof -
  let ?rs = "[Get_req ''alice'', Set_req ''Alice'' ''s'', Get_req ''alice'']"
  have a: "\<forall>r\<in>set ?rs. acceptable (win_valid ''mail'') (\<lambda>_ v. length v \<le> maxCredentialBlobBytes) r"
    using mail_alice_valid by (simp add: maxCredentialBlobBytes_def)
  have same: "no_case (win_target ''mail'' ''Alice'') = no_case (win_target ''mail'' ''alice'')"
    by code_simp
  have s: "spec_run (\<lambda>k. no_case (win_target ''mail'' k)) ?rs (win_view (\<lambda>m. m) Map.empty) =
      ([Missing, Done_ok, Value ''s''], [no_case (win_target ''mail'' ''alice'') \<mapsto> ''s''])"
    by (simp add: win_view_def fun_eq_iff same del: list.map)
  show ?thesis using win_refines_map [OF mem_manager.credential_manager_axioms a s] by auto
qed

text \<open>The Windows adapter asks the manager only for what it accepts: a target is accepted exactly
  when both names are non-empty valid UTF-8 without NUL and within the limits in UTF-16 code
  units, and every refusal matches \<open>ErrInvalidArgument\<close> and no other category and reaches no
  native call.\<close>

lemma win_target_validation:
  "((\<exists>t. validatedTarget service key = Inr t) =
       (service \<noteq> [] \<and> key \<noteq> [] \<and> CHR 0x00 \<notin> set (service @ key) \<and> ValidString service \<and> ValidString key
        \<and> utf16Units key \<le> 513 \<and> utf16Units (service @ '':'' @ key) \<le> 32767))
   \<and> (case validatedTarget service key of
       Inr t \<Rightarrow> t = service @ '':'' @ key
     | Inl e \<Rightarrow> (err_is e (Category c) = (c = ErrInvalidArgument))
         \<and> run_state (win_Get native Background service key) w = (Inl e, w)
         \<and> run_state (win_Set native Background service key contents) w = (Some e, w)
         \<and> run_state (win_Delete native Background service key) w = (Some e, w))"
  (is "?valid \<and> ?calls")
proof
  show ?valid
    by (auto simp: validatedTarget_Inr maxUsernameUnits_def maxGenericTargetUnits_def)
  show ?calls
    using validatedTarget_Inl [of service key _ c]
    by (auto simp: win_Get_def win_Set_def win_Delete_def validatedTarget_Inr split: sum.splits)
qed

text \<open>C35 Targets are ambiguous across services: a colon may stand in either name, so that when both
  pairs are accepted, what \<open>Set\<close> stores for key \<open>c\<close> of service \<open>a:b\<close> is what \<open>Get\<close> returns for key
  \<open>b:c\<close> of service \<open>a\<close>, and \<open>Delete\<close> on the one removes the other, over any credential manager
  with the documented behaviour.\<close>

theorem win_services_collide:
  assumes "credential_manager api entry creds" and "length v \<le> maxCredentialBlobBytes"
    and "win_valid (a @ '':'' @ b) c" and "win_valid a (b @ '':'' @ c)"
  shows "\<exists>w1 w2 w3 e w4.
     run_state (win_Set (native_windows api) Background (a @ '':'' @ b) c v) w = (None, w1)
     \<and> run_state (win_Get (native_windows api) Background a (b @ '':'' @ c)) w1 = (Inr v, w2)
     \<and> run_state (win_Delete (native_windows api) Background a (b @ '':'' @ c)) w2 = (None, w3)
     \<and> run_state (win_Get (native_windows api) Background (a @ '':'' @ b) c) w3 = (Inl e, w4)
     \<and> err_is e (Category ErrNotFound)"
  using assms by (rule credential_manager.services_collide)

lemma mail_colon_valid: "win_valid (''mail'' @ '':'' @ ''a'') ''b''" "win_valid ''mail'' (''a'' @ '':'' @ ''b'')"
  by (rule win_valid_ascii; simp)+

theorem win_services_collide_witness:
  "\<exists>w1 w2. run_state (win_Set (native_windows mem_wincred) Background ''mail:a'' ''b'' ''s'') Map.empty = (None, w1)
     \<and> run_state (win_Get (native_windows mem_wincred) Background ''mail'' ''a:b'') w1 = (Inr ''s'', w2)"
proof -
  have "length ''s'' \<le> maxCredentialBlobBytes" by (simp add: maxCredentialBlobBytes_def)
  from win_services_collide [OF mem_manager.credential_manager_axioms this mail_colon_valid, of Map.empty]
  show ?thesis by auto
qed

text \<open>Errors of the Windows API are portable: whatever it returns, the caller gets the category of the
  documented code (missing, invalid, denied, no session), \<open>ErrBackendFailure\<close> for any other,
  and the original error stays in the chain.\<close>

lemma win_errors_portable:
  "\<exists>e'. win_operationError op (windowsError (Some (WinError n))) = Some e'
     \<and> err_is e' (WinError n)
     \<and> (\<forall>c. err_is e' (Category c) \<longleftrightarrow>
          c = (case n of ErrElementNotFound \<Rightarrow> ErrNotFound
             | ErrInvalidParameter \<Rightarrow> ErrInvalidArgument | ErrBadUsername \<Rightarrow> ErrInvalidArgument
             | ERROR_ACCESS_DENIED \<Rightarrow> ErrPermissionDenied
             | ERROR_NO_SUCH_LOGON_SESSION \<Rightarrow> ErrBackendUnavailable
             | OtherWinError _ \<Rightarrow> ErrBackendFailure))"
  by (cases n) (auto simp: windowsError_def win_operationError_def win_portable_def)

end
