(* ===== verification/Encoding.thy ===== *)
theory Encoding
  imports Go_Errors
begin

text \<open>
  \<open>encoding/hex\<close> and \<open>encoding/base64\<close> as the repository uses them: hexadecimal text both
  ways, standard base64 with padding, and its decoder in the lenient and the strict mode.
\<close>

abbreviation byte_val :: "char \<Rightarrow> nat" where
  "byte_val c \<equiv> of_char c"

lemma byte_val_less [simp]: "byte_val c < 256"
  by (metis char_of_char of_char_of mod_less_divisor zero_less_numeral)

section \<open>Hexadecimal\<close>

definition hex_digit :: "nat \<Rightarrow> char" where
  "hex_digit n = (if n < 10 then char_of (48 + n) else char_of (87 + n))"

definition hex_val :: "char \<Rightarrow> nat option" where
  "hex_val c =
     (let n = byte_val c in
      if 48 \<le> n \<and> n \<le> 57 then Some (n - 48)
      else if 97 \<le> n \<and> n \<le> 102 then Some (n - 87)
      else if 65 \<le> n \<and> n \<le> 70 then Some (n - 55)
      else None)"

fun hex_EncodeToString :: "bytes \<Rightarrow> string" where
  "hex_EncodeToString [] = []"
| "hex_EncodeToString (c # s) =
     hex_digit (byte_val c div 16) # hex_digit (byte_val c mod 16) # hex_EncodeToString s"

text \<open>An odd length or a character that is no digit is an error.\<close>

fun hex_DecodeString :: "string \<Rightarrow> go_error + bytes" where
  "hex_DecodeString [] = Inr []"
| "hex_DecodeString [p] = Inl (Plain ''encoding/hex: invalid'')"
| "hex_DecodeString (p # q # s) =
     (case (hex_val p, hex_val q) of
        (Some a, Some b) \<Rightarrow>
          (case hex_DecodeString s of Inl e \<Rightarrow> Inl e | Inr t \<Rightarrow> Inr (char_of (16 * a + b) # t))
      | _ \<Rightarrow> Inl (Plain ''encoding/hex: invalid''))"

lemma hex_val_digit [simp]: "n < 16 \<Longrightarrow> hex_val (hex_digit n) = Some n"
  by (auto simp: hex_val_def hex_digit_def)

lemma hex_roundtrip: "hex_DecodeString (hex_EncodeToString s) = Inr s"
  by (induction s) (simp_all add: less_mult_imp_div_less)

lemma length_hex [simp]: "length (hex_EncodeToString s) = 2 * length s"
  by (induction s) simp_all

lemma hex_inj: "hex_EncodeToString s = hex_EncodeToString t \<longleftrightarrow> s = t"
  by (metis hex_roundtrip sum.inject(2))

lemma hex_digit_range:
  "n < 16 \<Longrightarrow> byte_val (hex_digit n) \<in> {48..57} \<union> {97..102}"
  by (auto simp: hex_digit_def)

lemma hex_chars: "c \<in> set (hex_EncodeToString s) \<Longrightarrow> byte_val c \<in> {48..57} \<union> {97..102}"
proof (induction s)
  case (Cons a s)
  have "byte_val a div 16 < 16" "byte_val a mod 16 < 16"
    by (simp_all add: less_mult_imp_div_less)
  then have "byte_val (hex_digit (byte_val a div 16)) \<in> {48..57} \<union> {97..102}
    \<and> byte_val (hex_digit (byte_val a mod 16)) \<in> {48..57} \<union> {97..102}"
    using hex_digit_range by blast
  with Cons show ?case by (simp only: hex_EncodeToString.simps list.set insert_iff) blast
qed simp

section \<open>Base64\<close>

definition b64_char :: "nat \<Rightarrow> char" where
  "b64_char n =
     (if n < 26 then char_of (65 + n) else if n < 52 then char_of (71 + n)
      else if n < 62 then char_of (n - 4) else if n = 62 then CHR ''+'' else CHR ''/'')"

definition b64_val :: "char \<Rightarrow> nat option" where
  "b64_val c =
     (let n = byte_val c in
      if 65 \<le> n \<and> n \<le> 90 then Some (n - 65)
      else if 97 \<le> n \<and> n \<le> 122 then Some (n - 71)
      else if 48 \<le> n \<and> n \<le> 57 then Some (n + 4)
      else if c = CHR ''+'' then Some 62
      else if c = CHR ''/'' then Some 63
      else None)"

fun base64_encode :: "bytes \<Rightarrow> string" where
  "base64_encode [] = []"
| "base64_encode [x] =
     [b64_char (byte_val x div 4), b64_char (byte_val x mod 4 * 16), CHR ''='', CHR ''='']"
| "base64_encode [x, y] =
     [b64_char (byte_val x div 4), b64_char (byte_val x mod 4 * 16 + byte_val y div 16),
      b64_char (byte_val y mod 16 * 4), CHR ''='']"
| "base64_encode (x # y # z # s) =
     b64_char (byte_val x div 4)
     # b64_char (byte_val x mod 4 * 16 + byte_val y div 16)
     # b64_char (byte_val y mod 16 * 4 + byte_val z div 64)
     # b64_char (byte_val z mod 64) # base64_encode s"

text \<open>
  The decoder skips carriage returns and newlines anywhere, then reads groups of four.
  Padding ends the input; in strict mode the bits it leaves unused must be zero.
\<close>

definition b64_corrupt :: go_error where
  "b64_corrupt = Plain ''illegal base64 data''"

fun b64_quanta :: "bool \<Rightarrow> string \<Rightarrow> go_error + bytes" where
  "b64_quanta strict [] = Inr []"
| "b64_quanta strict (a # b # c # d # s) =
     (case (b64_val a, b64_val b) of
        (Some x, Some y) \<Rightarrow>
          (if c = CHR ''='' then
             (if d = CHR ''='' \<and> s = [] \<and> (strict \<longrightarrow> y mod 16 = 0)
              then Inr [char_of (x * 4 + y div 16)] else Inl b64_corrupt)
           else (case b64_val c of
              None \<Rightarrow> Inl b64_corrupt
            | Some z \<Rightarrow>
                (if d = CHR ''='' then
                   (if s = [] \<and> (strict \<longrightarrow> z mod 4 = 0)
                    then Inr [char_of (x * 4 + y div 16), char_of (y mod 16 * 16 + z div 4)]
                    else Inl b64_corrupt)
                 else (case b64_val d of
                    None \<Rightarrow> Inl b64_corrupt
                  | Some u \<Rightarrow>
                      (case b64_quanta strict s of
                         Inl e \<Rightarrow> Inl e
                       | Inr t \<Rightarrow> Inr (char_of (x * 4 + y div 16) # char_of (y mod 16 * 16 + z div 4)
                           # char_of (z mod 4 * 64 + u) # t))))))
      | _ \<Rightarrow> Inl b64_corrupt)"
| "b64_quanta strict _ = Inl b64_corrupt"

definition base64_decode :: "bool \<Rightarrow> string \<Rightarrow> go_error + bytes" where
  "base64_decode strict s = b64_quanta strict (filter (\<lambda>c. c \<noteq> CHR 10 \<and> c \<noteq> CHR 13) s)"

lemma b64_char_cases:
  assumes "n < 64"
  shows "b64_val (b64_char n) = Some n" "b64_char n \<noteq> CHR ''=''"
    "b64_char n \<noteq> CHR 10" "b64_char n \<noteq> CHR 13"
    "32 < byte_val (b64_char n)" "byte_val (b64_char n) < 128"
proof -
  consider "n < 26" | "26 \<le> n" "n < 52" | "52 \<le> n" "n < 62" | "n = 62" | "n = 63"
    using assms by linarith
  then have "b64_val (b64_char n) = Some n \<and> 32 < byte_val (b64_char n)
      \<and> byte_val (b64_char n) < 128 \<and> byte_val (b64_char n) \<noteq> 61"
    by cases (auto simp: b64_val_def b64_char_def Let_def)
  then show "b64_val (b64_char n) = Some n" "b64_char n \<noteq> CHR ''=''"
    "b64_char n \<noteq> CHR 10" "b64_char n \<noteq> CHR 13"
    "32 < byte_val (b64_char n)" "byte_val (b64_char n) < 128"
    by auto
qed

lemma b64_arith:
  assumes "x < 256" "y < 256" "z < (256 :: nat)"
  shows "x div 4 < 64" "x mod 4 * 16 < 64" "x mod 4 * 16 + y div 16 < 64" "y mod 16 * 4 < 64"
    "y mod 16 * 4 + z div 64 < 64" "z mod 64 < 64"
    "x div 4 * 4 + (x mod 4 * 16) div 16 = x"
    "x div 4 * 4 + (x mod 4 * 16 + y div 16) div 16 = x"
    "(x mod 4 * 16 + y div 16) mod 16 * 16 + (y mod 16 * 4) div 4 = y"
    "(x mod 4 * 16 + y div 16) mod 16 * 16 + (y mod 16 * 4 + z div 64) div 4 = y"
    "(y mod 16 * 4 + z div 64) mod 4 * 64 + z mod 64 = z"
proof -
  have lo: "y div 16 < 16" "z div 64 < 4" using assms by auto
  then have d: "(x mod 4 * 16 + y div 16) div 16 = x mod 4" "(x mod 4 * 16 + y div 16) mod 16 = y div 16"
    "(y mod 16 * 4 + z div 64) div 4 = y mod 16" "(y mod 16 * 4 + z div 64) mod 4 = z div 64"
    by simp_all
  show "x div 4 < 64" "x mod 4 * 16 < 64" "x mod 4 * 16 + y div 16 < 64" "y mod 16 * 4 < 64"
    "y mod 16 * 4 + z div 64 < 64" "z mod 64 < 64"
    using assms lo mod_less_divisor [of 4 x] mod_less_divisor [of 16 y] by auto
  show "x div 4 * 4 + (x mod 4 * 16) div 16 = x"
    "x div 4 * 4 + (x mod 4 * 16 + y div 16) div 16 = x"
    "(x mod 4 * 16 + y div 16) mod 16 * 16 + (y mod 16 * 4) div 4 = y"
    "(x mod 4 * 16 + y div 16) mod 16 * 16 + (y mod 16 * 4 + z div 64) div 4 = y"
    "(y mod 16 * 4 + z div 64) mod 4 * 64 + z mod 64 = z"
    unfolding d by simp_all
qed

lemma b64_arith_bytes [simp]:
  "byte_val x div 4 < 64" "byte_val x mod 4 * 16 < 64"
  "byte_val x mod 4 * 16 + byte_val y div 16 < 64" "byte_val y mod 16 * 4 < 64"
  "byte_val y mod 16 * 4 + byte_val z div 64 < 64"
  using b64_arith [of "byte_val x" "byte_val y" "byte_val z"] by simp_all

lemma base64_encode_chars:
  "c \<in> set (base64_encode s) \<Longrightarrow> 32 < byte_val c \<and> byte_val c < 128"
  by (induction s rule: base64_encode.induct) (auto simp: b64_char_cases)

text \<open>One group of the encoder's output: full, with one and with two padding characters.\<close>

lemma quantum_full:
  assumes "x < 64" "y < 64" "z < 64" "u < 64"
  shows "b64_quanta strict (b64_char x # b64_char y # b64_char z # b64_char u # s) =
     (case b64_quanta strict s of Inl e \<Rightarrow> Inl e
      | Inr t \<Rightarrow> Inr (char_of (x * 4 + y div 16) # char_of (y mod 16 * 16 + z div 4)
                      # char_of (z mod 4 * 64 + u) # t))"
  using assms by (simp add: b64_char_cases)

lemma quantum_two:
  assumes "x < 64" "y < 64" "z < 64" "z mod 4 = 0"
  shows "b64_quanta strict [b64_char x, b64_char y, b64_char z, CHR ''=''] =
     Inr [char_of (x * 4 + y div 16), char_of (y mod 16 * 16 + z div 4)]"
  using assms by (simp add: b64_char_cases)

lemma quantum_one:
  assumes "x < 64" "y < 64" "y mod 16 = 0"
  shows "b64_quanta strict [b64_char x, b64_char y, CHR ''='', CHR ''=''] =
     Inr [char_of (x * 4 + y div 16)]"
  using assms by (simp add: b64_char_cases)

lemma b64_quanta_encode: "b64_quanta strict (base64_encode s) = Inr s"
proof (induction s rule: base64_encode.induct)
  case 1
  show ?case by simp
next
  case (2 x)
  note a = b64_arith [of "byte_val x" "byte_val x" "byte_val x", OF byte_val_less byte_val_less byte_val_less]
  show ?case
    by (simp only: base64_encode.simps quantum_one [OF a(1) a(2) mod_mult_self2_is_0] a(7) char_of_char)
next
  case (3 x y)
  have m: "byte_val y mod 16 * 4 mod 4 = 0" by simp
  note a = b64_arith [of "byte_val x" "byte_val y" "byte_val x", OF byte_val_less byte_val_less byte_val_less]
  show ?case
    by (simp only: base64_encode.simps quantum_two [OF a(1) a(3) a(4) m] a(8,9) char_of_char)
next
  case (4 x y z s)
  note a = b64_arith [of "byte_val x" "byte_val y" "byte_val z", OF byte_val_less byte_val_less byte_val_less]
  show ?case
    by (simp only: base64_encode.simps quantum_full [OF a(1) a(3) a(5) a(6)] a(8,10,11) 4
        char_of_char sum.case)
qed

lemma base64_roundtrip: "base64_decode strict (base64_encode s) = Inr s"
proof -
  have "filter (\<lambda>c. c \<noteq> CHR 10 \<and> c \<noteq> CHR 13) (base64_encode s) = base64_encode s"
    by (rule filter_True) (auto dest: base64_encode_chars)
  then show ?thesis by (simp add: base64_decode_def b64_quanta_encode)
qed

lemma length_base64 [simp]: "length (base64_encode s) = 4 * ((length s + 2) div 3)"
proof (induction s rule: base64_encode.induct)
  case (4 x y z s)
  have "(length s + 3 + 2) div 3 = (length s + 2) div 3 + 1" by simp
  with 4 show ?case by simp
qed simp_all

end
