(* ===== verification/Darwin.thy ===== *)
theory Darwin
  imports Contract Encoding Go_Strings
begin

text \<open>
  \<open>internal/backend/darwin\<close>: values in macOS Keychain through the \<open>security\<close> tool. Running
  the tool is an argument (a package variable in the code): context, standard input if any,
  and arguments; its results are the combined output and the error. \<open>shellescape.Quote\<close> of
  the third-party package is an argument as well.
\<close>

definition securityPath :: string where "securityPath = ''/usr/bin/security''"
definition legacyEncodingPrefix :: string where "legacyEncodingPrefix = ''go-keyring-encoded:''"
definition base64Prefix :: string where "base64Prefix = ''go-keyring-base64:''"
definition commandLimit :: nat where "commandLimit = 4096"

type_synonym 'w commandFunc =
  "'w ctx option \<Rightarrow> bytes option \<Rightarrow> string list \<Rightarrow> ('w, bytes \<times> go_error option) state"

text \<open>\<open>runCommand\<close> over \<open>exec.CommandContext\<close> and \<open>CombinedOutput\<close>.\<close>

definition runCommand ::
  "('w ctx option \<Rightarrow> string \<Rightarrow> string list \<Rightarrow> bytes option \<Rightarrow> ('w, bytes \<times> go_error option) state)
     \<Rightarrow> 'w commandFunc" where
  "runCommand CombinedOutput ctx input arguments = CombinedOutput ctx securityPath arguments input"

definition decodeValue :: "string \<Rightarrow> go_error + bytes" where
  "decodeValue s =
     (let failed = (\<lambda>err. Errorf ''%w: decode Keychain credential: %w'' [Category ErrBackendFailure, err])
      in if prefix legacyEncodingPrefix s
         then (case hex_DecodeString (drop (length legacyEncodingPrefix) s) of
             Inl err \<Rightarrow> Inl (failed err) | Inr decoded \<Rightarrow> Inr decoded)
         else if prefix base64Prefix s
         then (case base64_decode False (drop (length base64Prefix) s) of
             Inl err \<Rightarrow> Inl (failed err) | Inr decoded \<Rightarrow> Inr decoded)
         else Inr s)"

definition darwin_contextError :: "'w ctx option \<Rightarrow> ('w, go_error option) state" where
  "darwin_contextError ctx =
     (case ctx of
        None \<Rightarrow> ret (Some (Errorf ''%w: context is nil'' [Category ErrInvalidArgument]))
      | Some Err \<Rightarrow> do {
          err \<leftarrow> Err;
          (if opt_is err DeadlineExceeded
           then ret (Some (Errorf ''%w: %w'' [Category ErrTimeout, the err]))
           else ret err)
        })"

definition keychain_category :: "bytes \<Rightarrow> go_error \<Rightarrow> category" where
  "keychain_category out e =
     (if err_is e ExecErrNotFound \<or> err_is e ErrNotExist then ErrBackendUnavailable
      else if sublist ''could not be found'' out then ErrNotFound
      else ErrBackendFailure)"

definition keychainError ::
  "'w ctx option \<Rightarrow> string \<Rightarrow> bytes \<Rightarrow> go_error option \<Rightarrow> ('w, go_error option) state" where
  "keychainError ctx operation out err =
     (case err of
        None \<Rightarrow> ret None
      | Some e \<Rightarrow> do {
          contextErr \<leftarrow> darwin_contextError ctx;
          ret (if contextErr \<noteq> None then contextErr
               else Some (Errorf (''%w: '' @ operation @ '': %w'') [Category (keychain_category out e), e]))
        })"

definition darwin_Get ::
  "'w commandFunc \<Rightarrow> 'w ctx option \<Rightarrow> string \<Rightarrow> string \<Rightarrow> ('w, go_error + bytes) state" where
  "darwin_Get executeCommand ctx service key = do {
     cerr \<leftarrow> darwin_contextError ctx;
     (case cerr of
        Some err \<Rightarrow> ret (Inl err)
      | None \<Rightarrow> do {
          r \<leftarrow> executeCommand ctx None [''find-generic-password'', ''-s'', service, ''-wa'', key];
          (case r of (out, err) \<Rightarrow>
             (if err \<noteq> None then do {
                e \<leftarrow> keychainError ctx ''get credential'' out err;
                ret (Inl (the e)) }
              else ret (decodeValue (TrimSpace out))))
        })
   }"

definition add_command :: "(string \<Rightarrow> string) \<Rightarrow> string \<Rightarrow> string \<Rightarrow> bytes \<Rightarrow> string" where
  "add_command Quote service key contents =
     ''add-generic-password -U -s '' @ Quote service @ '' -a '' @ Quote key @ '' -w ''
       @ Quote (base64Prefix @ base64_encode contents) @ [CHR 10]"

definition darwin_Set ::
  "(string \<Rightarrow> string) \<Rightarrow> 'w commandFunc \<Rightarrow> 'w ctx option \<Rightarrow> string \<Rightarrow> string \<Rightarrow> bytes
     \<Rightarrow> ('w, go_error option) state" where
  "darwin_Set Quote executeCommand ctx service key contents = do {
     cerr \<leftarrow> darwin_contextError ctx;
     (case cerr of
        Some err \<Rightarrow> ret (Some err)
      | None \<Rightarrow>
          let command = add_command Quote service key contents
          in (if length command > commandLimit
              then ret (Some (Errorf ''%w: macOS security command exceeds %d bytes'' [Category ErrValueTooLarge]))
              else do {
                r \<leftarrow> executeCommand ctx (Some command) [''-i''];
                (case r of (out, err) \<Rightarrow> keychainError ctx ''set credential'' out err)
              }))
   }"

definition darwin_Delete ::
  "'w commandFunc \<Rightarrow> 'w ctx option \<Rightarrow> string \<Rightarrow> string \<Rightarrow> ('w, go_error option) state" where
  "darwin_Delete executeCommand ctx service key = do {
     cerr \<leftarrow> darwin_contextError ctx;
     (case cerr of
        Some err \<Rightarrow> ret (Some err)
      | None \<Rightarrow> do {
          r \<leftarrow> executeCommand ctx None [''delete-generic-password'', ''-s'', service, ''-a'', key];
          (case r of (out, err) \<Rightarrow> keychainError ctx ''delete credential'' out err)
        })
   }"

section \<open>Lemmas\<close>

text \<open>The package repeats \<open>contract.ContextError\<close>.\<close>

lemma darwin_contextError_eq: "darwin_contextError = ContextError"
  by (rule ext) (simp add: darwin_contextError_def ContextError_def)

lemma keychainError_Background:
  "run_state (keychainError Background op out err) w =
     (map_option (\<lambda>e. Errorf (''%w: '' @ op @ '': %w'') [Category (keychain_category out e), e]) err, w)"
  by (cases err) (simp_all add: keychainError_def darwin_contextError_eq)

lemma base64_space_free: "space_free (base64_encode s)"
  unfolding space_free_def
proof
  fix c assume "c \<in> set (base64_encode s)"
  then show "32 < (of_char c :: nat) \<and> (of_char c :: nat) < 128"
    using base64_encode_chars [of c s] by auto
qed

lemma prefix_decode: "\<not> prefix legacyEncodingPrefix (base64Prefix @ s)"
  by (simp add: legacyEncodingPrefix_def base64Prefix_def)

section \<open>Properties\<close>

text \<open>Any byte sequence survives the trip through the text of Keychain: what \<open>Set\<close> puts on its
  command line is what \<open>Get\<close> decodes when the tool prints it with a newline, for every
  value, binary or empty or looking like an encoding, and values written by older versions in
  hexadecimal decode as well.\<close>

lemma keychain_value_roundtrip:
  "decodeValue (TrimSpace (base64Prefix @ base64_encode contents @ [CHR 10])) = Inr contents
   \<and> decodeValue (TrimSpace (legacyEncodingPrefix @ hex_EncodeToString contents @ [CHR 10])) = Inr contents"
proof
  have "space_free (base64Prefix @ base64_encode contents)"
    by (simp add: base64_space_free) (simp add: base64Prefix_def)
  from TrimSpace_newline [OF this]
  show "decodeValue (TrimSpace (base64Prefix @ base64_encode contents @ [CHR 10])) = Inr contents"
    by (simp add: decodeValue_def prefix_decode base64_roundtrip)
  have "32 < byte_val c \<and> byte_val c < 128" if "c \<in> set (hex_EncodeToString contents)" for c
    using hex_chars [OF that] by auto
  then have "space_free (hex_EncodeToString contents)"
    by (simp add: space_free_def)
  then have "space_free (legacyEncodingPrefix @ hex_EncodeToString contents)"
    by simp (simp add: legacyEncodingPrefix_def)
  from TrimSpace_newline [OF this]
  show "decodeValue (TrimSpace (legacyEncodingPrefix @ hex_EncodeToString contents @ [CHR 10])) = Inr contents"
    by (simp add: decodeValue_def hex_roundtrip)
qed

text \<open>What the caller learns when the tool fails: the context's error if the context ended, whatever
  the tool said; otherwise unavailable if the tool could not be started, not found if its
  output says so, and a backend failure in every other case, always with the cause.\<close>

lemma keychain_failures_classified:
  assumes "run_state (darwin_contextError ctx) w = (None, w1)"
    and "run_state (run ctx None [''delete-generic-password'', ''-s'', service, ''-a'', key]) w1 =
       ((out, Some e), w2)"
    and "run_state (darwin_contextError ctx) w2 = (late, w3)"
  shows "\<exists>e'. run_state (darwin_Delete run ctx service key) w = (Some e', w3) \<and>
     (case late of
        Some l \<Rightarrow> e' = l
      | None \<Rightarrow> err_is e' e \<and> err_is e' (Category (
          if err_is e ExecErrNotFound \<or> err_is e ErrNotExist then ErrBackendUnavailable
          else if sublist ''could not be found'' out then ErrNotFound else ErrBackendFailure)))"
  using assms by (cases late) (auto simp: darwin_Delete_def keychainError_def keychain_category_def)

lemma keychain_failures_classified_witness:
  "\<exists>e'. run_state (darwin_Delete (\<lambda>_ _ _. ret (''The item could not be found.'', Some (ExitError 44)))
       Background ''s'' ''k'') () = (Some e', ()) \<and> err_is e' (Category ErrNotFound)"
proof -
  let ?run = "\<lambda>_ _ _. ret (''The item could not be found.'', Some (ExitError 44)) :: (unit, bytes \<times> go_error option) state"
  have c: "run_state (darwin_contextError Background) () = (None, ())"
    by (simp add: darwin_contextError_eq)
  have r: "run_state (?run Background None [''delete-generic-password'', ''-s'', ''s'', ''-a'', ''k'']) () =
      ((''The item could not be found.'', Some (ExitError 44)), ())" by simp
  have "sublist ''could not be found'' ''The item could not be found.''"
    by (simp add: sublist_def) (rule exI [of _ "''The item ''"], simp)
  moreover have "\<exists>e'. run_state (darwin_Delete ?run Background ''s'' ''k'') () = (Some e', ())
     \<and> err_is e' (ExitError 44) \<and> err_is e' (Category (
          if err_is (ExitError 44) ExecErrNotFound \<or> err_is (ExitError 44) ErrNotExist then ErrBackendUnavailable
          else if sublist ''could not be found'' ''The item could not be found.'' then ErrNotFound
          else ErrBackendFailure))"
    using keychain_failures_classified [where run = ?run, OF c r c] by simp
  ultimately show ?thesis by auto
qed

text \<open>A command the tool cannot read is never sent: \<open>Set\<close> runs the tool at most once, with a command
  of at most 4096 bytes on standard input, so the secret is not in the argument list; a
  longer command is refused with \<open>ErrValueTooLarge\<close> and nothing is run.\<close>

lemma keychain_command_bounded:
  "run_state (darwin_Set Quote run Background service key contents) w =
     (if length (add_command Quote service key contents) \<le> 4096
      then (case run_state (run Background (Some (add_command Quote service key contents)) [''-i'']) w of
          ((out, err), w') \<Rightarrow>
            (map_option (\<lambda>e. Errorf ''%w: set credential: %w'' [Category (keychain_category out e), e]) err, w'))
      else (Some (Errorf ''%w: macOS security command exceeds %d bytes'' [Category ErrValueTooLarge]), w))"
  by (auto simp: darwin_Set_def darwin_contextError_eq commandLimit_def Let_def keychainError_Background
      split: prod.splits)

end
