(* ===== verification/Native.thy ===== *)
theory Native
  imports Dbus Windows Darwin
begin

text \<open>
  \<open>internal/backend/native\<close>: the adapter of the current platform. The build constraints choose
  one file of the package; \<open>goos\<close> names the classes of targets they distinguish, here and in
  the packages above. The three adapters are those of \<open>Dbus\<close>, \<open>Darwin\<close> and \<open>Windows\<close>, over
  what is outside the repository: the session bus, the \<open>security\<close> tool, the \<open>wincred\<close> library.
\<close>

text \<open>\<open>linux\<close>; another \<open>unix\<close> target than Linux and Darwin; \<open>darwin\<close>; \<open>windows\<close>; the rest.\<close>

datatype goos = Linux | Other_unix | MacOS | Windows_NT | Other_target

record 'w native_ops =
  native_Get :: "'w ctx option \<Rightarrow> string \<Rightarrow> string \<Rightarrow> ('w, go_error + bytes) state"
  native_Set :: "'w ctx option \<Rightarrow> string \<Rightarrow> string \<Rightarrow> bytes \<Rightarrow> ('w, go_error option) state"
  native_Delete :: "'w ctx option \<Rightarrow> string \<Rightarrow> string \<Rightarrow> ('w, go_error option) state"

text \<open>What the adapters use of the platform.\<close>

record 'w native_world =
  nw_WithTimeout :: "'w with_timeout"
  nw_bus :: "'w bus_stages"
  nw_Quote :: "string \<Rightarrow> string"
  nw_security :: "'w commandFunc"
  nw_wincred :: "'w wincred"

definition native_linux :: "'w native_world \<Rightarrow> 'w native_ops" where
  "native_linux nw =
     \<lparr>native_Get = dbus_Get (nw_WithTimeout nw) (nw_bus nw),
      native_Set = dbus_Set (nw_WithTimeout nw) (nw_bus nw),
      native_Delete = dbus_Delete (nw_WithTimeout nw) (nw_bus nw)\<rparr>"

definition native_darwin :: "'w native_world \<Rightarrow> 'w native_ops" where
  "native_darwin nw =
     \<lparr>native_Get = darwin_Get (nw_security nw),
      native_Set = darwin_Set (nw_Quote nw) (nw_security nw),
      native_Delete = darwin_Delete (nw_security nw)\<rparr>"

definition native_windows_ops :: "'w native_world \<Rightarrow> 'w native_ops" where
  "native_windows_ops nw =
     \<lparr>native_Get = win_Get (native_windows (nw_wincred nw)),
      native_Set = win_Set (native_windows (nw_wincred nw)),
      native_Delete = win_Delete (native_windows (nw_wincred nw))\<rparr>"

text \<open>Targets without a native store.\<close>

definition native_unsupported :: go_error where
  "native_unsupported = Errorf ''%w: native credential store'' [Category ErrUnsupported]"

definition native_other_Get :: "'w ctx option \<Rightarrow> string \<Rightarrow> string \<Rightarrow> ('w, go_error + bytes) state" where
  "native_other_Get ctx service key = do {
     cerr \<leftarrow> ContextError ctx;
     (case cerr of Some err \<Rightarrow> ret (Inl err) | None \<Rightarrow> ret (Inl native_unsupported))
   }"

definition native_other_Set ::
  "'w ctx option \<Rightarrow> string \<Rightarrow> string \<Rightarrow> bytes \<Rightarrow> ('w, go_error option) state" where
  "native_other_Set ctx service key contents = do {
     cerr \<leftarrow> ContextError ctx;
     (case cerr of Some err \<Rightarrow> ret (Some err) | None \<Rightarrow> ret (Some native_unsupported))
   }"

definition native_other_Delete :: "'w ctx option \<Rightarrow> string \<Rightarrow> string \<Rightarrow> ('w, go_error option) state" where
  "native_other_Delete ctx service key = do {
     cerr \<leftarrow> ContextError ctx;
     (case cerr of Some err \<Rightarrow> ret (Some err) | None \<Rightarrow> ret (Some native_unsupported))
   }"

definition native_other_ops :: "'w native_ops" where
  "native_other_ops =
     \<lparr>native_Get = native_other_Get, native_Set = native_other_Set, native_Delete = native_other_Delete\<rparr>"

text \<open>The constraint of \<open>other.go\<close> is \<open>!linux && !darwin && !windows\<close>.\<close>

definition native_ops_of :: "goos \<Rightarrow> 'w native_world \<Rightarrow> 'w native_ops" where
  "native_ops_of os nw =
     (case os of
        Linux \<Rightarrow> native_linux nw
      | MacOS \<Rightarrow> native_darwin nw
      | Windows_NT \<Rightarrow> native_windows_ops nw
      | Other_unix \<Rightarrow> native_other_ops
      | Other_target \<Rightarrow> native_other_ops)"

lemma native_ops_of_simps [simp]:
  "native_ops_of Linux nw = native_linux nw"
  "native_ops_of MacOS nw = native_darwin nw"
  "native_ops_of Windows_NT nw = native_windows_ops nw"
  "native_ops_of Other_unix nw = native_other_ops"
  "native_ops_of Other_target nw = native_other_ops"
  by (simp_all add: native_ops_of_def)

lemma native_linux_simps [simp]:
  "native_Get (native_linux nw) = dbus_get (nw_WithTimeout nw) (newConnector (nw_bus nw))"
  "native_Set (native_linux nw) = dbus_set (nw_WithTimeout nw) (newConnector (nw_bus nw))"
  "native_Delete (native_linux nw) = dbus_remove (nw_WithTimeout nw) (newConnector (nw_bus nw))"
  by (simp_all add: native_linux_def dbus_entries)

text \<open>Where no store is supported, every operation fails with \<open>ErrUnsupported\<close> and does nothing.\<close>

lemma native_other_fails:
  "run_state (native_Get native_other_ops Background service key) w = (Inl native_unsupported, w)"
  "run_state (native_Set native_other_ops Background service key contents) w = (Some native_unsupported, w)"
  "run_state (native_Delete native_other_ops Background service key) w = (Some native_unsupported, w)"
  "err_is native_unsupported (Category c) \<longleftrightarrow> c = ErrUnsupported"
  by (auto simp: native_other_ops_def native_other_Get_def native_other_Set_def native_other_Delete_def
      native_unsupported_def)

end
