(* ===== verification/Paths.thy ===== *)
theory Paths
  imports Go_Strings
begin

text \<open>
  The lexical functions of \<open>path/filepath\<close> on Unix: \<open>Clean\<close>, \<open>Join\<close>, \<open>Dir\<close> and \<open>Rel\<close>.
  A path is taken apart at its slashes; \<open>Clean\<close> is a fold over the elements with a stack.
\<close>

definition slash :: char where "slash = CHR ''/''"
definition dot :: string where "dot = ''.''"
definition dotdot :: string where "dotdot = ''..''"

lemmas path_chars = slash_def dot_def dotdot_def

fun rooted :: "string \<Rightarrow> bool" where
  "rooted [] = False"
| "rooted (c # s) = (c = slash)"

text \<open>One element: empty and \<open>.\<close> are dropped, \<open>..\<close> goes back where there is something to leave.\<close>

definition clean_step :: "bool \<Rightarrow> string \<Rightarrow> string list \<Rightarrow> string list" where
  "clean_step r e stack =
     (if e = [] \<or> e = dot then stack
      else if e = dotdot then
        (case stack of
           [] \<Rightarrow> (if r then [] else [dotdot])
         | t # rest \<Rightarrow> (if t = dotdot then dotdot # stack else rest))
      else e # stack)"

definition clean_elems :: "string \<Rightarrow> string list" where
  "clean_elems p = rev (fold (clean_step (rooted p)) (Split slash p) [])"

definition Clean :: "string \<Rightarrow> string" where
  "Clean p =
     (if rooted p then slash # Join_with slash (clean_elems p)
      else if clean_elems p = [] then dot
      else Join_with slash (clean_elems p))"

definition path_Join :: "string list \<Rightarrow> string" where
  "path_Join elems =
     (case dropWhile (\<lambda>e. e = []) elems of [] \<Rightarrow> [] | es \<Rightarrow> Clean (Join_with slash es))"

definition Dir :: "string \<Rightarrow> string" where
  "Dir p = Clean (rev (dropWhile (\<lambda>c. c \<noteq> slash) (rev p)))"

fun strip_common :: "'a list \<Rightarrow> 'a list \<Rightarrow> 'a list \<times> 'a list" where
  "strip_common (b # bs) (t # ts) = (if b = t then strip_common bs ts else (b # bs, t # ts))"
| "strip_common bs ts = (bs, ts)"

text \<open>The elements of a cleaned path: none for the root.\<close>

definition elems_of :: "string \<Rightarrow> string list" where
  "elems_of p =
     (let body = (if rooted p then tl p else p) in if body = [] then [] else Split slash body)"

text \<open>
  \<open>filepath.Rel\<close>. Both paths are cleaned; after the common elements, one \<open>..\<close> per remaining
  element of the base is followed by the remaining elements of the target.
\<close>

definition Rel :: "string \<Rightarrow> string \<Rightarrow> string option" where
  "Rel basepath targpath =
     (let base = Clean basepath; targ = Clean targpath in
      if targ = base then Some dot
      else
        let base' = (if base = dot then [] else base) in
        if rooted base' \<noteq> rooted targ then None
        else
          let (bs, ts) = strip_common (elems_of base') (elems_of targ) in
          if ts \<noteq> [] \<and> bs \<noteq> [] \<and> hd bs = dotdot then None
          else Some (Join_with slash (replicate (length bs) dotdot @ ts)))"

section \<open>Cleaned rooted paths\<close>

definition plain_elem :: "string \<Rightarrow> bool" where
  "plain_elem e \<longleftrightarrow> e \<noteq> [] \<and> e \<noteq> dot \<and> e \<noteq> dotdot \<and> slash \<notin> set e"

lemma clean_step_plain:
  "slash \<notin> set e \<Longrightarrow> list_all plain_elem st \<Longrightarrow> list_all plain_elem (clean_step True e st)"
  by (cases st) (auto simp: clean_step_def plain_elem_def)

lemma clean_elems_plain: "rooted p \<Longrightarrow> list_all plain_elem (clean_elems p)"
proof -
  assume r: "rooted p"
  have "list_all plain_elem st \<Longrightarrow> \<forall>e \<in> set es. slash \<notin> set e \<Longrightarrow>
      list_all plain_elem (fold (clean_step True) es st)" for es st
    by (induction es arbitrary: st) (auto intro: clean_step_plain)
  from this [of "[]" "Split slash p"] have "list_all plain_elem (fold (clean_step True) (Split slash p) [])"
    by (auto dest: Split_no_sep)
  with r show ?thesis by (simp add: clean_elems_def list_all_iff)
qed

lemma fold_clean_plain: "list_all plain_elem es \<Longrightarrow> fold (clean_step True) es st = rev es @ st"
  by (induction es arbitrary: st) (auto simp: clean_step_def plain_elem_def)

lemma plain_no_slash: "list_all plain_elem es \<Longrightarrow> e \<in> set es \<Longrightarrow> slash \<notin> set e"
  by (auto simp: list_all_iff plain_elem_def)

lemma Split_Join_plain:
  "list_all plain_elem es \<Longrightarrow> es \<noteq> [] \<Longrightarrow> Split slash (Join_with slash es) = es"
  using plain_no_slash by (intro Split_Join) blast+

lemma Join_with_Nil_iff: "list_all plain_elem es \<Longrightarrow> Join_with sep es = [] \<longleftrightarrow> es = []"
  by (cases "(sep, es)" rule: Join_with.cases) (auto simp: plain_elem_def)

lemma Split_slash_root: "Split slash (slash # s) = [] # Split slash s"
  by simp

lemma clean_elems_rooted_join:
  assumes "list_all plain_elem es"
  shows "clean_elems (slash # Join_with slash es) = es"
proof -
  have "fold (clean_step True) (Split slash (Join_with slash es)) [] = rev es"
  proof (cases es)
    case Nil
    then show ?thesis by (simp add: clean_step_def)
  next
    case (Cons e es')
    with assms have "Split slash (Join_with slash es) = es"
      by (simp add: Split_Join_plain del: Join_with.simps)
    with fold_clean_plain [OF assms, of "[]"] show ?thesis by simp
  qed
  then show ?thesis by (simp add: clean_elems_def clean_step_def)
qed

lemma Clean_rooted: "rooted p \<Longrightarrow> Clean p = slash # Join_with slash (clean_elems p)"
  by (simp add: Clean_def)

lemma rooted_Clean [simp]: "rooted p \<Longrightarrow> rooted (Clean p)"
  by (simp add: Clean_def)

text \<open>\<open>Clean\<close> is idempotent on rooted paths, and equal results mean equal elements.\<close>

lemma clean_elems_Clean: "rooted p \<Longrightarrow> clean_elems (Clean p) = clean_elems p"
  by (simp add: Clean_rooted clean_elems_rooted_join clean_elems_plain)

lemma Clean_idem: "rooted p \<Longrightarrow> Clean (Clean p) = Clean p"
  using Clean_rooted [OF rooted_Clean, of p] by (metis clean_elems_Clean Clean_rooted)

lemma Clean_eq_iff: "rooted p \<Longrightarrow> rooted q \<Longrightarrow> Clean p = Clean q \<longleftrightarrow> clean_elems p = clean_elems q"
  by (metis Clean_rooted clean_elems_Clean)

lemma elems_of_Clean: "rooted p \<Longrightarrow> elems_of (Clean p) = clean_elems p"
proof -
  assume r: "rooted p"
  note pl = clean_elems_plain [OF r]
  show ?thesis
  proof (cases "clean_elems p")
    case Nil
    with r show ?thesis by (simp add: elems_of_def Clean_rooted)
  next
    case (Cons e es)
    then have "Split slash (Join_with slash (clean_elems p)) = clean_elems p"
      using pl by (simp add: Split_Join_plain del: Join_with.simps)
    moreover have "Join_with slash (clean_elems p) \<noteq> []"
      using pl Cons by (simp add: Join_with_Nil_iff del: Join_with.simps)
    ultimately show ?thesis using r by (simp add: elems_of_def Clean_rooted Let_def)
  qed
qed

lemma strip_common_prefix: "fst (strip_common bs ts) = [] \<longleftrightarrow> prefix bs ts"
  by (induction bs ts rule: strip_common.induct) auto

lemma strip_common_snd: "prefix bs ts \<Longrightarrow> snd (strip_common bs ts) = drop (length bs) ts"
  by (induction bs ts rule: strip_common.induct) auto

lemma strip_common_plain:
  "list_all plain_elem ts \<Longrightarrow> list_all plain_elem (snd (strip_common bs ts))"
  "list_all plain_elem bs \<Longrightarrow> list_all plain_elem (fst (strip_common bs ts))"
  by (induction bs ts rule: strip_common.induct) auto

lemma Join_plain_not_up:
  assumes "list_all plain_elem es"
  shows "Join_with slash es \<noteq> dotdot" "\<not> prefix (dotdot @ [slash]) (Join_with slash es)"
proof -
  have "Split slash (Join_with slash es) = es" if "es \<noteq> []"
    using that assms by (simp add: Split_Join_plain)
  moreover have "Split slash dotdot = [dotdot]" "Split slash (dotdot @ slash # t) = dotdot # Split slash t" for t
    by (simp_all add: path_chars)
  ultimately have "Join_with slash es \<noteq> dotdot \<and> \<not> prefix (dotdot @ [slash]) (Join_with slash es)"
    if "es \<noteq> []"
    using that assms by (cases es) (auto simp: plain_elem_def prefix_def)
  then show "Join_with slash es \<noteq> dotdot" "\<not> prefix (dotdot @ [slash]) (Join_with slash es)"
    by (cases "es = []"; auto simp: path_chars)+
qed

text \<open>
  The relative path goes up exactly when the base is no ancestor: it is \<open>..\<close> or starts with
  \<open>../\<close> unless the base's elements are a prefix of the target's.
\<close>

lemma Rel_within:
  assumes "rooted base" and "rooted targ"
  shows "\<exists>r. Rel base targ = Some r \<and>
     ((r \<noteq> dotdot \<and> \<not> prefix (dotdot @ [slash]) r) \<longleftrightarrow> prefix (clean_elems base) (clean_elems targ))"
proof (cases "Clean targ = Clean base")
  case True
  with assms show ?thesis by (simp add: Rel_def Clean_eq_iff path_chars)
next
  case False
  obtain bs ts where st: "strip_common (clean_elems base) (clean_elems targ) = (bs, ts)"
    by fastforce
  have pl: "list_all plain_elem bs" "list_all plain_elem ts"
    using strip_common_plain [of "clean_elems targ" "clean_elems base"]
      strip_common_plain(2) [of "clean_elems base" "clean_elems targ"] assms st
    by (simp_all add: clean_elems_plain)
  have nd: "Clean base \<noteq> dot" using assms by (simp add: Clean_rooted path_chars)
  have up: "\<not> (bs \<noteq> [] \<and> hd bs = dotdot)"
    using pl(1) by (cases bs) (auto simp: plain_elem_def)
  have r: "Rel base targ = Some (Join_with slash (replicate (length bs) dotdot @ ts))"
    using False assms nd up st by (auto simp: Rel_def Let_def elems_of_Clean)
  have pre: "prefix (clean_elems base) (clean_elems targ) \<longleftrightarrow> bs = []"
    using strip_common_prefix [of "clean_elems base" "clean_elems targ"] st by simp
  show ?thesis
  proof (cases bs)
    case Nil
    with r pre pl Join_plain_not_up [OF pl(2)] show ?thesis by simp
  next
    case (Cons b bs')
    let ?rest = "replicate (length bs') dotdot @ ts"
    have "Join_with slash (dotdot # ?rest) = dotdot \<or>
        prefix (dotdot @ [slash]) (Join_with slash (dotdot # ?rest))"
      by (cases ?rest) (auto simp: Join_with_Cons)
    with r pre Cons show ?thesis by auto
  qed
qed

text \<open>\<open>Dir\<close> of a rooted path is rooted and drops the last element.\<close>

lemma rooted_Dir: "rooted p \<Longrightarrow> rooted (Dir p)"
proof -
  assume r: "rooted p"
  then obtain s where p: "p = slash # s" by (cases p) auto
  have "rooted (rev (dropWhile (\<lambda>c. c \<noteq> slash) (rev p)))"
    by (simp add: p dropWhile_append)
  then show ?thesis by (simp add: Dir_def)
qed

section \<open>Dir gets smaller\<close>

text \<open>
  Going up from any path reaches a fixed point: the number of slashes drops, or the path
  becomes \<open>.\<close> or \<open>/\<close>.
\<close>

definition slashes :: "string \<Rightarrow> nat" where
  "slashes s = length (filter (\<lambda>c. c = slash) s)"

definition dir_measure :: "string \<Rightarrow> nat" where
  "dir_measure p = 2 * slashes p + (if p = dot \<or> p = [slash] then 0 else 1)"

lemma slashes_simps [simp]:
  "slashes [] = 0" "slashes (slash # s) = Suc (slashes s)"
  "c \<noteq> slash \<Longrightarrow> slashes (c # s) = slashes s"
  "slashes (s @ t) = slashes s + slashes t" "slashes dot = 0"
  by (simp_all add: slashes_def path_chars)

lemma slashes_zero: "slash \<notin> set s \<Longrightarrow> slashes s = 0"
  by (induction s) (auto simp: slashes_def)

lemma length_Split: "length (Split slash s) = Suc (slashes s)"
  by (induction s) (auto simp: slashes_def split: list.splits)

lemma length_clean_fold:
  "length (fold (clean_step r) es st) \<le> length (filter (\<lambda>e. e \<noteq> []) es) + length st"
proof (induction es arbitrary: st)
  case (Cons e es)
  have "length (clean_step r e st) \<le> (if e = [] then 0 else 1) + length st"
    by (auto simp: clean_step_def split: list.splits)
  with Cons [of "clean_step r e st"] show ?case by auto
qed simp

lemma fold_clean_no_slash:
  assumes "\<forall>e \<in> set es. slash \<notin> set e" and "\<forall>e \<in> set st. slash \<notin> set e"
  shows "\<forall>e \<in> set (fold (clean_step r) es st). slash \<notin> set e"
  using assms
proof (induction es arbitrary: st)
  case (Cons e es)
  have "\<forall>x \<in> set (clean_step r e st). slash \<notin> set x"
    using Cons.prems by (auto simp: clean_step_def path_chars split: list.splits if_splits)
  with Cons show ?case by auto
qed simp

lemma slashes_Join:
  "\<forall>e \<in> set es. slash \<notin> set e \<Longrightarrow> slashes (Join_with slash es) = length es - 1"
  by (induction slash es rule: Join_with.induct) (auto simp: slashes_zero)

lemma clean_elems_no_slash: "\<forall>e \<in> set (clean_elems p). slash \<notin> set e"
  using fold_clean_no_slash [of "Split slash p" "[]" "rooted p"]
  by (auto simp: clean_elems_def dest: Split_no_sep)

lemma Split_snoc_slash: "Split slash (s @ [slash]) = Split slash s @ [[]]"
proof (induction s)
  case (Cons c s)
  then show ?case by (cases "Split slash s") auto
qed simp

lemma slashes_Clean_dir:
  "slashes (Clean (s @ [slash])) \<le> (if s = [] then 1 else slashes s)"
proof -
  let ?q = "s @ [slash]"
  have len: "length (clean_elems ?q) \<le> length (filter (\<lambda>e. e \<noteq> []) (Split slash s))"
    using length_clean_fold [of "rooted ?q" "Split slash ?q" "[]"]
    by (simp add: clean_elems_def Split_snoc_slash)
  have sj: "slashes (Join_with slash (clean_elems ?q)) = length (clean_elems ?q) - 1"
    by (rule slashes_Join) (rule clean_elems_no_slash)
  show ?thesis
  proof (cases s)
    case Nil
    then show ?thesis by (simp add: Clean_def clean_elems_def clean_step_def)
  next
    case (Cons c t)
    show ?thesis
    proof (cases "c = slash")
      case True
      with Cons len have "length (clean_elems ?q) \<le> Suc (slashes t)"
        using length_filter_le [of "\<lambda>e. e \<noteq> []" "Split slash t"] by (simp add: length_Split)
      with Cons True sj show ?thesis by (simp add: Clean_def)
    next
      case False
      have "length (clean_elems ?q) \<le> Suc (slashes s)"
        using len length_filter_le [of "\<lambda>e. e \<noteq> []" "Split slash s"] by (simp add: length_Split)
      then have "length (clean_elems ?q) - 1 \<le> slashes s" by linarith
      with Cons False sj show ?thesis by (simp add: Clean_def)
    qed
  qed
qed

lemma Dir_decreases:
  assumes "Dir p \<noteq> p"
  shows "dir_measure (Dir p) < dir_measure p"
proof (cases "slash \<in> set p")
  case False
  then have "dropWhile (\<lambda>c. c \<noteq> slash) (rev p) = []"
    by (simp add: dropWhile_eq_Nil_conv) metis
  then have "Dir p = Clean []" unfolding Dir_def by (simp only: rev.simps)
  then have d: "Dir p = dot" by (simp add: Clean_def clean_elems_def clean_step_def)
  with False assms show ?thesis by (auto simp: dir_measure_def)
next
  case True
  then obtain s t where p: "p = s @ slash # t" "slash \<notin> set t"
    by (metis split_list_last)
  then have "dropWhile (\<lambda>c. c \<noteq> slash) (rev p) = slash # rev s"
    by (subst p(1)) (simp add: dropWhile_append)
  then have d: "Dir p = Clean (s @ [slash])" by (simp add: Dir_def)
  have sp: "slashes p = Suc (slashes s)" using p by (simp add: slashes_zero)
  show ?thesis
  proof (cases "s = []")
    case True
    then have "Dir p = [slash]" using d by (simp add: Clean_def clean_elems_def clean_step_def)
    with assms sp True show ?thesis by (auto simp: dir_measure_def)
  next
    case False
    with d sp slashes_Clean_dir [of s] show ?thesis by (simp add: dir_measure_def)
  qed
qed

end
