(* ===== verification/Fs_Layout.thy ===== *)
theory Fs_Layout
  imports Sha256 Encoding Paths
begin

text \<open>
  \<open>internal/backend/fs/layout.go\<close>: where a service and a key are stored below the root.
\<close>

definition layoutVersion :: string where "layoutVersion = ''v1''"
definition serviceDomain :: string where "serviceDomain = ''service'' @ [CHR 0x00]"
definition keyDomain :: string where "keyDomain = ''key'' @ [CHR 0x00]"

definition fs_identifier :: "string \<Rightarrow> string \<Rightarrow> string" where
  "fs_identifier domain value = hex_EncodeToString (Sum256 (domain @ value))"

record layout =
  serviceID :: string

definition newLayout :: "string \<Rightarrow> layout" where
  "newLayout service = \<lparr>serviceID = fs_identifier serviceDomain service\<rparr>"

definition servicePath :: "layout \<Rightarrow> string" where
  "servicePath l = path_Join [layoutVersion, serviceID l]"

definition keyPath :: "layout \<Rightarrow> string \<Rightarrow> string" where
  "keyPath l key = path_Join [servicePath l, fs_identifier keyDomain key]"

section \<open>Identifiers are plain path elements\<close>

lemma length_identifier [simp]: "length (fs_identifier d v) = 64"
  by (simp add: fs_identifier_def)

lemma identifier_chars:
  "c \<in> set (fs_identifier d v) \<Longrightarrow> byte_val c \<in> {48..57} \<union> {97..102}"
  unfolding fs_identifier_def by (rule hex_chars)

lemma identifier_no_char:
  "byte_val c \<notin> {48..57} \<union> {97..102} \<Longrightarrow> c \<notin> set (fs_identifier d v)"
  using identifier_chars by blast

lemma identifier_plain: "plain_elem (fs_identifier d v)"
proof -
  have "slash \<notin> set (fs_identifier d v)"
    by (rule identifier_no_char) (simp add: slash_def)
  moreover have "length (fs_identifier d v) = 64" by simp
  then have "fs_identifier d v \<noteq> []" "fs_identifier d v \<noteq> dot" "fs_identifier d v \<noteq> dotdot"
    by (auto simp del: length_identifier simp: path_chars)
  ultimately show ?thesis by (simp add: plain_elem_def)
qed

text \<open>Equal identifiers mean equal digests; the domains never share an input.\<close>

lemma identifier_eq_iff: "fs_identifier d v = fs_identifier d' v' \<longleftrightarrow> Sum256 (d @ v) = Sum256 (d' @ v')"
  by (simp add: fs_identifier_def hex_inj)

lemma domains_disjoint: "serviceDomain @ s \<noteq> keyDomain @ k"
  by (simp add: serviceDomain_def keyDomain_def)

section \<open>Paths\<close>

lemma version_plain: "plain_elem layoutVersion"
  by (simp add: plain_elem_def layoutVersion_def path_chars)

lemma unrooted_plain: "plain_elem e \<Longrightarrow> \<not> rooted (e @ s)"
  by (cases e) (auto simp: plain_elem_def)

lemma clean_unrooted_plain:
  assumes "list_all plain_elem es" and "es \<noteq> []"
  shows "clean_elems (Join_with slash es) = es"
proof -
  obtain e es' where es: "es = e # es'" using assms(2) by (cases es) auto
  have "\<not> rooted (Join_with slash es)"
    using assms(1) es unrooted_plain [of e "[]"] unrooted_plain [of e "slash # Join_with slash es'"]
    by (cases "es' = []") (simp_all add: Join_with_Cons)
  moreover have "Split slash (Join_with slash es) = es"
    using assms by (rule Split_Join_plain)
  moreover have "list_all plain_elem xs \<Longrightarrow> fold (clean_step False) xs st = rev xs @ st" for xs st
    by (induction xs arbitrary: st) (auto simp: clean_step_def plain_elem_def)
  ultimately show ?thesis using assms(1) by (simp add: clean_elems_def)
qed

lemma Clean_unrooted_plain:
  assumes "list_all plain_elem es" and "es \<noteq> []"
  shows "Clean (Join_with slash es) = Join_with slash es"
proof -
  obtain e es' where es: "es = e # es'" using assms(2) by (cases es) auto
  have "\<not> rooted (Join_with slash es)"
    using assms(1) es unrooted_plain [of e "[]"] unrooted_plain [of e "slash # Join_with slash es'"]
    by (cases "es' = []") (simp_all add: Join_with_Cons)
  then show ?thesis using clean_unrooted_plain [OF assms] assms(2) by (simp add: Clean_def)
qed

lemma Join_with_append:
  "es \<noteq> [] \<Longrightarrow> fs \<noteq> [] \<Longrightarrow> Join_with s (es @ fs) = Join_with s es @ s # Join_with s fs"
  by (induction s es rule: Join_with.induct) (auto simp: Join_with_Cons)

lemma path_Join_two:
  assumes "list_all plain_elem es" "es \<noteq> []" "plain_elem e"
  shows "path_Join [Join_with slash es, e] = Join_with slash (es @ [e])"
proof -
  have "Join_with slash es \<noteq> []" using assms by (simp add: Join_with_Nil_iff)
  then have "path_Join [Join_with slash es, e] = Clean (Join_with slash (es @ [e]))"
    using assms by (simp add: path_Join_def Join_with_append)
  then show ?thesis using assms by (simp add: Clean_unrooted_plain)
qed

lemma servicePath_elems:
  "servicePath (newLayout s) = Join_with slash [layoutVersion, fs_identifier serviceDomain s]"
  using path_Join_two [of "[layoutVersion]" "fs_identifier serviceDomain s"]
  by (simp add: servicePath_def newLayout_def version_plain identifier_plain)

lemma keyPath_elems:
  "keyPath (newLayout s) k =
     Join_with slash [layoutVersion, fs_identifier serviceDomain s, fs_identifier keyDomain k]"
  using path_Join_two [of "[layoutVersion, fs_identifier serviceDomain s]" "fs_identifier keyDomain k"]
  by (simp add: keyPath_def servicePath_elems version_plain identifier_plain)

section \<open>Properties\<close>

text \<open>User input cannot escape the configured root: for every service name and key, whatever
  bytes they contain (slashes, dots, NUL, nothing), the credential's path below an absolute
  root is the root's elements followed by exactly three: the layout version and two 64-digit
  hexadecimal names, none of them empty, \<open>.\<close> or \<open>..\<close>.\<close>

lemma keyPath_below_root:
  assumes "rooted root"
  shows "clean_elems (root @ slash # keyPath (newLayout service) key) =
     clean_elems root @ [layoutVersion, fs_identifier serviceDomain service, fs_identifier keyDomain key]
   \<and> (\<forall>e \<in> {fs_identifier serviceDomain service, fs_identifier keyDomain key}.
        length e = 64 \<and> plain_elem e)"
proof -
  let ?es = "[layoutVersion, fs_identifier serviceDomain service, fs_identifier keyDomain key]"
  have pl: "list_all plain_elem ?es" by (simp add: version_plain identifier_plain)
  have "Split slash (root @ slash # t) = Split slash root @ Split slash t" for t
  proof (induction root)
    case (Cons c r)
    then show ?case by (cases "Split slash r") auto
  qed simp
  then have "Split slash (root @ slash # Join_with slash ?es) = Split slash root @ ?es"
    using pl by (simp add: Split_Join_plain del: Join_with.simps)
  moreover have "rooted (root @ slash # t)" for t using assms by (cases root) auto
  ultimately have "clean_elems (root @ slash # Join_with slash ?es) = clean_elems root @ ?es"
    using assms fold_clean_plain [OF pl] by (simp add: clean_elems_def del: Join_with.simps)
  then show ?thesis by (simp add: keyPath_elems identifier_plain del: Join_with.simps)
qed

lemma keyPath_below_root_witness:
  "clean_elems (''/var/lib/k'' @ slash # keyPath (newLayout ''../..'') ''/etc/passwd'') =
     clean_elems ''/var/lib/k'' @
       [layoutVersion, fs_identifier serviceDomain ''../..'', fs_identifier keyDomain ''/etc/passwd'']"
proof -
  have "rooted ''/var/lib/k''" by (simp add: slash_def)
  from keyPath_below_root [OF this, of "''../..''" "''/etc/passwd''"] show ?thesis by blast
qed

end
