(* ===== verification/Fs_Directory.thy ===== *)
theory Fs_Directory
  imports Fs_Layout Contract
begin

text \<open>
  \<open>internal/backend/fs/directory_linux.go\<close>: creating and opening the managed directories. The
  system calls are arguments, by the names the code calls them.
\<close>

unbundle bit_operations_syntax

datatype open_flag =
  O_RDONLY | O_WRONLY | O_CREAT | O_EXCL | O_CLOEXEC | O_DIRECTORY | O_NOFOLLOW | O_NONBLOCK

text \<open>The two fields of \<open>Stat_t\<close> that the code reads.\<close>

record stat =
  st_mode :: "32 word"
  st_uid :: "32 word"

definition S_IFMT :: "32 word" where "S_IFMT = 0xF000"
definition S_IFDIR :: "32 word" where "S_IFDIR = 0x4000"
definition S_IFREG :: "32 word" where "S_IFREG = 0x8000"

definition directoryMode :: "32 word" where "directoryMode = 0x1C0"

text \<open>The permission bits of group and others, octal 077.\<close>

definition group_other_bits :: "32 word" where "group_other_bits = 0x3F"

record 'w directory_calls =
  os_MkdirAll :: "string \<Rightarrow> 32 word \<Rightarrow> ('w, go_error option) state"
  unix_Open :: "string \<Rightarrow> open_flag list \<Rightarrow> 32 word \<Rightarrow> ('w, go_error + int) state"
  unix_Openat :: "int \<Rightarrow> string \<Rightarrow> open_flag list \<Rightarrow> 32 word \<Rightarrow> ('w, go_error + int) state"
  unix_Mkdirat :: "int \<Rightarrow> string \<Rightarrow> 32 word \<Rightarrow> ('w, go_error option) state"
  unix_Fstat :: "int \<Rightarrow> ('w, go_error + stat) state"
  unix_Close :: "int \<Rightarrow> ('w, go_error option) state"

definition directoryError :: "go_error \<Rightarrow> go_error" where
  "directoryError err =
     (if err_is err ErrNotExist then Errorf ''%s: %w'' [err]
      else if err_is err ErrPermission then Errorf ''%w: %s: %w'' [Category ErrPermissionDenied, err]
      else if err_is err ErrExist \<or> err_is err (Errno ELOOP) \<or> err_is err (Errno ENOTDIR)
      then Errorf ''%w: %s: %w'' [Category ErrInsecureFallback, err]
      else Errorf ''%w: %s: %w'' [Category ErrBackendFailure, err])"

definition insecure :: "string \<Rightarrow> go_error" where
  "insecure why = Errorf why [Category ErrInsecureFallback]"

definition validateDirectory :: "'w directory_calls \<Rightarrow> int \<Rightarrow> 32 word \<Rightarrow> ('w, go_error option) state" where
  "validateDirectory sys directory effectiveUID = do {
     r \<leftarrow> unix_Fstat sys directory;
     ret (case r of
        Inl err \<Rightarrow> Some (directoryError err)
      | Inr status \<Rightarrow>
          (if st_mode status AND S_IFMT \<noteq> S_IFDIR
           then Some (insecure ''%w: managed path is not a directory'')
           else if st_uid status \<noteq> effectiveUID
           then Some (insecure ''%w: directory owner %d does not match effective user %d'')
           else if st_mode status AND group_other_bits \<noteq> 0
           then Some (insecure ''%w: directory mode %#o grants group or other access'')
           else None))
   }"

definition directory_flags :: "open_flag list" where
  "directory_flags = [O_RDONLY, O_CLOEXEC, O_DIRECTORY, O_NOFOLLOW]"

text \<open>The common end of \<open>openDirectory\<close> and \<open>openDirectoryAt\<close>: a descriptor that does not
  validate is closed again.\<close>

definition check_opened ::
  "'w directory_calls \<Rightarrow> 32 word \<Rightarrow> go_error + int \<Rightarrow> ('w, go_error + int) state" where
  "check_opened sys effectiveUID r =
     (case r of
        Inl err \<Rightarrow> ret (Inl (directoryError err))
      | Inr directory \<Rightarrow> do {
          v \<leftarrow> validateDirectory sys directory effectiveUID;
          (case v of
             Some err \<Rightarrow> do { _ \<leftarrow> unix_Close sys directory; ret (Inl err) }
           | None \<Rightarrow> ret (Inr directory))
        })"

definition openDirectory ::
  "'w directory_calls \<Rightarrow> string \<Rightarrow> 32 word \<Rightarrow> ('w, go_error + int) state" where
  "openDirectory sys path effectiveUID = do {
     r \<leftarrow> unix_Open sys path directory_flags 0;
     check_opened sys effectiveUID r
   }"

definition openDirectoryAt ::
  "'w directory_calls \<Rightarrow> int \<Rightarrow> string \<Rightarrow> 32 word \<Rightarrow> ('w, go_error + int) state" where
  "openDirectoryAt sys parent name effectiveUID = do {
     r \<leftarrow> unix_Openat sys parent name directory_flags 0;
     check_opened sys effectiveUID r
   }"

definition openOrCreateDirectory ::
  "'w directory_calls \<Rightarrow> int \<Rightarrow> string \<Rightarrow> 32 word \<Rightarrow> ('w, go_error + int) state" where
  "openOrCreateDirectory sys parent name effectiveUID = do {
     r \<leftarrow> openDirectoryAt sys parent name effectiveUID;
     (case r of
        Inr directory \<Rightarrow> ret (Inr directory)
      | Inl err \<Rightarrow>
          (if \<not> err_is err ErrNotExist then ret (Inl err)
           else do {
             m \<leftarrow> unix_Mkdirat sys parent name directoryMode;
             (if m \<noteq> None \<and> \<not> opt_is m ErrExist
              then ret (Inl (directoryError (the m)))
              else openDirectoryAt sys parent name effectiveUID)
           }))
   }"

text \<open>A deferred close runs when the rest has ended, and its error is ignored.\<close>

definition defer_close :: "(int \<Rightarrow> ('w, go_error option) state) \<Rightarrow> int \<Rightarrow> ('w, 'a) state \<Rightarrow> ('w, 'a) state" where
  "defer_close close fd m = do { r \<leftarrow> m; _ \<leftarrow> close fd; ret r }"

definition prepareDirectories ::
  "'w directory_calls \<Rightarrow> string \<Rightarrow> layout \<Rightarrow> 32 word \<Rightarrow> ('w, go_error option) state" where
  "prepareDirectories sys rootPath l effectiveUID = do {
     m \<leftarrow> os_MkdirAll sys rootPath directoryMode;
     (case m of
        Some err \<Rightarrow> ret (Some (directoryError err))
      | None \<Rightarrow> do {
          r \<leftarrow> openDirectory sys rootPath effectiveUID;
          (case r of
             Inl err \<Rightarrow> ret (Some (Errorf ''open fallback root: %w'' [err]))
           | Inr root \<Rightarrow> defer_close (unix_Close sys) root (do {
               v \<leftarrow> openOrCreateDirectory sys root layoutVersion effectiveUID;
               (case v of
                  Inl err \<Rightarrow> ret (Some (Errorf ''open fallback layout: %w'' [err]))
                | Inr version \<Rightarrow> defer_close (unix_Close sys) version (do {
                    s \<leftarrow> openOrCreateDirectory sys version (serviceID l) effectiveUID;
                    (case s of
                       Inl err \<Rightarrow> ret (Some (Errorf ''open fallback service: %w'' [err]))
                     | Inr service \<Rightarrow> defer_close (unix_Close sys) service (ret None))
                  }))
             }))
        })
   }"

section \<open>Lemmas\<close>

definition secure_directory :: "32 word \<Rightarrow> stat \<Rightarrow> bool" where
  "secure_directory uid st \<longleftrightarrow>
     st_mode st AND S_IFMT = S_IFDIR \<and> st_uid st = uid \<and> st_mode st AND group_other_bits = 0"

lemma validateDirectory_None:
  "run_state (validateDirectory sys fd uid) w = (None, w') \<longleftrightarrow>
     (\<exists>st. run_state (unix_Fstat sys fd) w = (Inr st, w') \<and> secure_directory uid st)"
  by (auto simp: validateDirectory_def secure_directory_def split: prod.splits sum.splits if_splits)

lemma validateDirectory_insecure:
  assumes "run_state (unix_Fstat sys fd) w = (Inr st, w')" and "\<not> secure_directory uid st"
  shows "\<exists>why. run_state (validateDirectory sys fd uid) w = (Some (insecure why), w')"
  using assms
  by (cases "st_mode st AND S_IFMT = S_IFDIR"; cases "st_uid st = uid")
    (auto simp: validateDirectory_def secure_directory_def)

text \<open>
  The category of an error is determined: a missing path keeps \<open>ErrNotExist\<close> and no category
  of its own; everything else is denied, insecure or a failure.
\<close>

lemma directoryError_is:
  "err_is (directoryError err) (Category c) \<longleftrightarrow>
     err_is err (Category c) \<or> \<not> err_is err ErrNotExist \<and>
     (if err_is err ErrPermission then c = ErrPermissionDenied
      else if err_is err ErrExist \<or> err_is err (Errno ELOOP) \<or> err_is err (Errno ENOTDIR)
      then c = ErrInsecureFallback else c = ErrBackendFailure)"
  by (auto simp: directoryError_def)

lemma check_opened_ok:
  assumes "run_state (check_opened sys uid r) w = (Inr fd, w')"
  shows "r = Inr fd \<and> (\<exists>st. run_state (unix_Fstat sys fd) w = (Inr st, w') \<and> secure_directory uid st)"
proof (cases r)
  case (Inr d)
  with assms have "d = fd" "run_state (validateDirectory sys fd uid) w = (None, w')"
    by (auto simp: check_opened_def split: prod.splits option.splits)
  with Inr show ?thesis by (simp add: validateDirectory_None)
qed (use assms in \<open>simp add: check_opened_def\<close>)

lemma openDirectoryAt_ok:
  assumes "run_state (openDirectoryAt sys parent name uid) w = (Inr fd, w')"
  shows "\<exists>w1 st. run_state (unix_Openat sys parent name directory_flags 0) w = (Inr fd, w1)
     \<and> run_state (unix_Fstat sys fd) w1 = (Inr st, w') \<and> secure_directory uid st"
  using assms check_opened_ok by (fastforce simp: openDirectoryAt_def split: prod.splits)

section \<open>Properties\<close>

text \<open>C39 A managed directory is only used after it was checked: whenever \<open>openOrCreateDirectory\<close>
  returns a descriptor, it came from an open with \<open>O_DIRECTORY\<close> and \<open>O_NOFOLLOW\<close>, and the last
  thing that happened was an \<open>Fstat\<close> of that very descriptor showing a directory, owned by
  the effective user, without any group or other permission bit, also when the directory was
  created by someone else in between.\<close>

theorem openOrCreateDirectory_secure:
  assumes "run_state (openOrCreateDirectory sys parent name uid) w = (Inr fd, w')"
  shows "\<exists>w0 w1 st. run_state (unix_Openat sys parent name directory_flags 0) w0 = (Inr fd, w1)
     \<and> run_state (unix_Fstat sys fd) w1 = (Inr st, w')
     \<and> st_mode st AND S_IFMT = S_IFDIR \<and> st_uid st = uid \<and> st_mode st AND group_other_bits = 0
     \<and> {O_DIRECTORY, O_NOFOLLOW} \<subseteq> set directory_flags"
proof -
  have "\<exists>w0. run_state (openDirectoryAt sys parent name uid) w0 = (Inr fd, w')"
    using assms by (auto simp: openOrCreateDirectory_def split: prod.splits sum.splits if_splits)
  then show ?thesis
    using openDirectoryAt_ok by (fastforce simp: secure_directory_def directory_flags_def)
qed

text \<open>A world in which the directory exists with mode 0700 or is missing.\<close>

definition demo_calls :: "32 word \<Rightarrow> bool directory_calls" where
  "demo_calls mode =
     \<lparr>os_MkdirAll = (\<lambda>_ _. ret None), unix_Open = (\<lambda>_ _ _. ret (Inr 3)),
      unix_Openat = (\<lambda>_ _ _ _. do { e \<leftarrow> State_Monad.get;
         ret (if e then Inr 4 else Inl (Errno ENOENT)) }),
      unix_Mkdirat = (\<lambda>_ _ _. do { State_Monad.set True; ret None }),
      unix_Fstat = (\<lambda>_. ret (Inr \<lparr>st_mode = mode, st_uid = 1000\<rparr>)),
      unix_Close = (\<lambda>_. ret None)\<rparr>"

lemma directoryError_ENOENT: "err_is (directoryError (Errno ENOENT)) ErrNotExist"
  by (simp add: directoryError_def)

theorem openOrCreateDirectory_secure_witness:
  "\<exists>st. run_state (unix_Fstat (demo_calls 0x41C0) 4) True = (Inr st, True) \<and> st_uid st = 1000"
proof -
  have "run_state (openOrCreateDirectory (demo_calls 0x41C0) 3 ''v1'' 1000) False = (Inr 4, True)"
    by (simp add: openOrCreateDirectory_def openDirectoryAt_def check_opened_def demo_calls_def
        directoryError_ENOENT validateDirectory_def S_IFMT_def S_IFDIR_def group_other_bits_def)
  from openOrCreateDirectory_secure [OF this] show ?thesis
    by (auto simp: demo_calls_def)
qed

text \<open>An insecure directory is refused, whatever is behind its name: when the name opens but the
  descriptor shows something that is no directory, has another owner or grants group or other
  access, opening fails with \<open>ErrInsecureFallback\<close>, the descriptor is closed and nothing is
  created.\<close>

lemma insecure_directory_refused:
  assumes "run_state (unix_Openat sys parent name directory_flags 0) w = (Inr fd, w1)"
    and "run_state (unix_Fstat sys fd) w1 = (Inr st, w2)"
    and "st_mode st AND S_IFMT \<noteq> S_IFDIR \<or> st_uid st \<noteq> uid \<or> st_mode st AND group_other_bits \<noteq> 0"
  shows "\<exists>err. run_state (openOrCreateDirectory sys parent name uid) w =
       (Inl err, snd (run_state (unix_Close sys fd) w2))
     \<and> err_is err (Category ErrInsecureFallback)"
proof -
  obtain why where why: "run_state (validateDirectory sys fd uid) w1 = (Some (insecure why), w2)"
    using validateDirectory_insecure [OF assms(2)] assms(3) by (auto simp: secure_directory_def)
  then have "run_state (openDirectoryAt sys parent name uid) w =
      (Inl (insecure why), snd (run_state (unix_Close sys fd) w2))"
    using assms(1) by (simp add: openDirectoryAt_def check_opened_def split: prod.splits)
  moreover have "\<not> err_is (insecure why) ErrNotExist" by (simp add: insecure_def)
  ultimately show ?thesis
    by (simp add: openOrCreateDirectory_def) (simp add: insecure_def)
qed

lemma insecure_directory_refused_witness:
  "\<exists>err. run_state (openOrCreateDirectory (demo_calls 0x41E8) 3 ''v1'' 1000) True = (Inl err, True)
     \<and> err_is err (Category ErrInsecureFallback)"
proof -
  have "run_state (unix_Openat (demo_calls 0x41E8) 3 ''v1'' directory_flags 0) True = (Inr 4, True)"
    "run_state (unix_Fstat (demo_calls 0x41E8) 4) True = (Inr \<lparr>st_mode = 0x41E8, st_uid = 1000\<rparr>, True)"
    by (simp_all add: demo_calls_def)
  from insecure_directory_refused [OF this, of 1000] show ?thesis
    by (simp add: demo_calls_def group_other_bits_def)
qed

end
