(* ===== verification/Fs_Mount.thy ===== *)
theory Fs_Mount
  imports Paths Contract
begin

text \<open>
  \<open>internal/backend/fs/mount_linux.go\<close>: which mount a fallback directory is on, and the
  refusal of DrvFS. The four operations of the \<open>mountEnvironment\<close> interface, and the library
  functions that split a device number, are arguments.
\<close>

section \<open>Data\<close>

record mountDevice =
  dev_major :: "32 word"
  dev_minor :: "32 word"

record mount =
  device :: mountDevice
  point :: string
  filesystem :: string
  source :: string
  superOptions :: string

text \<open>
  \<open>openMountInfo\<close> gives a reader; what the scanner sees of it is the bytes up to the end or
  to a read error.
\<close>

record 'w mountEnvironment =
  env_absolute :: "string \<Rightarrow> ('w, go_error + string) state"
  env_stat_dev :: "string \<Rightarrow> ('w, go_error + 64 word) state"
  env_evaluateSymlinks :: "string \<Rightarrow> ('w, go_error + string) state"
  env_openMountInfo :: "('w, go_error + bytes \<times> go_error option) state"
  unix_Major :: "64 word \<Rightarrow> 32 word"
  unix_Minor :: "64 word \<Rightarrow> 32 word"

definition maximumMountInfoLine :: nat where
  "maximumMountInfoLine = 1024 * 1024"

definition mountError :: "go_error \<Rightarrow> go_error" where
  "mountError err = Errorf ''%w: %s: %w'' [Category ErrInsecureFallback, err]"

section \<open>Parsing mountinfo\<close>

definition parseMountDevice :: "string \<Rightarrow> go_error + mountDevice" where
  "parseMountDevice value =
     (case Cut (CHR '':'') value of
        None \<Rightarrow> Inl (Plain ''invalid mount device'')
      | Some (majorValue, minorValue) \<Rightarrow>
          (case ParseUint majorValue 32 of
             None \<Rightarrow> Inl (Errorf ''invalid mount major'' [Plain ''strconv''])
           | Some major \<Rightarrow>
               (case ParseUint minorValue 32 of
                  None \<Rightarrow> Inl (Errorf ''invalid mount minor'' [Plain ''strconv''])
                | Some minor \<Rightarrow>
                    Inr \<lparr>dev_major = word_of_nat major, dev_minor = word_of_nat minor\<rparr>)))"

definition mount_escapes :: "(string \<times> char) list" where
  "mount_escapes = [(''011'', CHR 9), (''012'', CHR 10), (''040'', CHR 32), (''134'', CHR 92)]"

fun unescapeMountField :: "string \<Rightarrow> go_error + string" where
  "unescapeMountField [] = Inr []"
| "unescapeMountField (c # s) =
     (if c \<noteq> CHR 92 then
        (case unescapeMountField s of Inl e \<Rightarrow> Inl e | Inr t \<Rightarrow> Inr (c # t))
      else
        (case s of
           d1 # d2 # d3 # rest \<Rightarrow>
             (case map_of mount_escapes [d1, d2, d3] of
                None \<Rightarrow> Inl (Plain ''unsupported mountinfo escape'')
              | Some decoded \<Rightarrow>
                  (case unescapeMountField rest of Inl e \<Rightarrow> Inl e | Inr t \<Rightarrow> Inr (decoded # t)))
         | _ \<Rightarrow> Inl (Plain ''truncated mountinfo escape'')))"

text \<open>
  The separator is the first field \<open>-\<close>. There are at least six fields before it and three
  after it.
\<close>

definition parseMountInfoLine :: "string \<Rightarrow> go_error + mount" where
  "parseMountInfoLine line =
     (let fields = Fields line;
          separator = length (takeWhile (\<lambda>field. field \<noteq> ''-'') fields) in
      if separator = length fields \<or> separator < 6 \<or> length fields < separator + 4
      then Inl (Plain ''invalid mountinfo record'')
      else
        (case parseMountDevice (fields ! 2) of
           Inl e \<Rightarrow> Inl e
         | Inr dev \<Rightarrow>
             (case unescapeMountField (fields ! 4) of
                Inl e \<Rightarrow> Inl e
              | Inr pnt \<Rightarrow>
                  (case unescapeMountField (fields ! (separator + 2)) of
                     Inl e \<Rightarrow> Inl e
                   | Inr src \<Rightarrow>
                       Inr \<lparr>device = dev, point = Clean pnt, filesystem = fields ! (separator + 1),
                            source = src, superOptions = fields ! (separator + 3)\<rparr>))))"

text \<open>
  The scanner's tokens: the text between newlines, a last unterminated line if it is not
  empty, each without a trailing carriage return. A line that does not fit the buffer with
  its newline is an error.
\<close>

definition drop_cr :: "string \<Rightarrow> string" where
  "drop_cr s = (if s \<noteq> [] \<and> last s = CHR 13 then butlast s else s)"

definition raw_lines :: "string \<Rightarrow> string list" where
  "raw_lines s =
     (let ls = Split (CHR 10) s in if last ls = [] then butlast ls else ls)"

fun parse_lines :: "string list \<Rightarrow> go_error option \<Rightarrow> mount list \<Rightarrow> go_error + mount list" where
  "parse_lines [] readErr mounts = (case readErr of None \<Rightarrow> Inr mounts | Some e \<Rightarrow> Inl e)"
| "parse_lines (l # ls) readErr mounts =
     (if maximumMountInfoLine \<le> length l then Inl (Plain ''bufio.Scanner: token too long'')
      else
        (case parseMountInfoLine (drop_cr l) of
           Inl e \<Rightarrow> Inl e
         | Inr entry \<Rightarrow> parse_lines ls readErr (mounts @ [entry])))"

definition parseMountInfo :: "bytes \<times> go_error option \<Rightarrow> go_error + mount list" where
  "parseMountInfo r = parse_lines (raw_lines (fst r)) (snd r) []"

section \<open>Selecting the mount\<close>

definition pathWithinMount :: "string \<Rightarrow> string \<Rightarrow> bool" where
  "pathWithinMount path mountPoint =
     (case Rel mountPoint path of
        None \<Rightarrow> False
      | Some relative \<Rightarrow> relative \<noteq> dotdot \<and> \<not> HasPrefix relative (dotdot @ [slash]))"

definition mount_matches :: "string \<Rightarrow> mountDevice \<Rightarrow> mount \<Rightarrow> bool" where
  "mount_matches path dev m \<longleftrightarrow> device m = dev \<and> pathWithinMount path (point m)"

fun select_loop_mount :: "mount list \<Rightarrow> string \<Rightarrow> mountDevice \<Rightarrow> mount option \<Rightarrow> mount option" where
  "select_loop_mount [] path dev selected = selected"
| "select_loop_mount (candidate # mounts) path dev selected =
     (if device candidate \<noteq> dev \<or> \<not> pathWithinMount path (point candidate)
      then select_loop_mount mounts path dev selected
      else
        (case selected of
           None \<Rightarrow> select_loop_mount mounts path dev (Some candidate)
         | Some s \<Rightarrow>
             (if length (point s) \<le> length (point candidate)
              then select_loop_mount mounts path dev (Some candidate)
              else select_loop_mount mounts path dev selected)))"

definition selectMount :: "mount list \<Rightarrow> string \<Rightarrow> mountDevice \<Rightarrow> go_error + mount" where
  "selectMount mounts path dev =
     (case select_loop_mount mounts path dev None of
        None \<Rightarrow> Inl (Plain ''mount was not found'')
      | Some m \<Rightarrow> Inr m)"

definition isDrvFS :: "mount \<Rightarrow> bool" where
  "isDrvFS m =
     (if EqualFold (filesystem m) ''drvfs'' \<or> EqualFold (source m) ''drvfs'' then True
      else if filesystem m \<noteq> ''9p'' then False
      else list_ex (\<lambda>option. ToLower option = ''aname=drvfs''
                           \<or> HasPrefix (ToLower option) ''aname=drvfs;'')
             (Split (CHR '','') (superOptions m)))"

section \<open>The check\<close>

function nearest_loop ::
  "'w mountEnvironment \<Rightarrow> string \<Rightarrow> ('w, go_error + string \<times> mountDevice) state" where
  "nearest_loop env path = do {
     r \<leftarrow> env_stat_dev env path;
     (case r of
        Inr dev \<Rightarrow> do {
          e \<leftarrow> env_evaluateSymlinks env path;
          (case e of
             Inl err \<Rightarrow> ret (Inl (mountError err))
           | Inr resolved \<Rightarrow>
               ret (Inr (resolved, \<lparr>dev_major = unix_Major env dev, dev_minor = unix_Minor env dev\<rparr>)))
        }
      | Inl err \<Rightarrow>
          (if \<not> err_is err ErrNotExist then ret (Inl (mountError err))
           else if Dir path = path then ret (Inl (mountError err))
           else nearest_loop env (Dir path)))
   }"
  by pat_completeness auto
termination
  by (relation "measure (\<lambda>(env, path). dir_measure path)") (auto intro: Dir_decreases)

declare nearest_loop.simps [simp del]

definition nearestExistingPath ::
  "string \<Rightarrow> 'w mountEnvironment \<Rightarrow> ('w, go_error + string \<times> mountDevice) state" where
  "nearestExistingPath rootPath env = do {
     a \<leftarrow> env_absolute env rootPath;
     (case a of
        Inl err \<Rightarrow> ret (Inl (mountError err))
      | Inr path \<Rightarrow> nearest_loop env (Clean path))
   }"

definition validateMountWithEnvironment ::
  "string \<Rightarrow> 'w mountEnvironment \<Rightarrow> ('w, go_error option) state" where
  "validateMountWithEnvironment rootPath env = do {
     n \<leftarrow> nearestExistingPath rootPath env;
     (case n of
        Inl err \<Rightarrow> ret (Some err)
      | Inr (existingPath, dev) \<Rightarrow> do {
          m \<leftarrow> env_openMountInfo env;
          ret (case m of
             Inl err \<Rightarrow> Some (mountError err)
           | Inr mountInfo \<Rightarrow>
               (case parseMountInfo mountInfo of
                  Inl err \<Rightarrow> Some (mountError err)
                | Inr mounts \<Rightarrow>
                    (case selectMount mounts existingPath dev of
                       Inl err \<Rightarrow> Some (mountError err)
                     | Inr selected \<Rightarrow>
                         (if isDrvFS selected
                          then Some (Errorf ''%w: DrvFS mount %q is not permitted''
                                 [Category ErrInsecureFallback])
                          else None))))
        })
   }"

section \<open>Lemmas\<close>

lemma select_loop_mount_spec:
  assumes "case selected of None \<Rightarrow> True | Some s \<Rightarrow> s \<in> M \<and> mount_matches path dev s"
  shows "(case select_loop_mount mounts path dev selected of
      None \<Rightarrow> selected = None \<and> (\<forall>m \<in> set mounts. \<not> mount_matches path dev m)
    | Some s \<Rightarrow> s \<in> M \<union> set mounts \<and> mount_matches path dev s
        \<and> (\<forall>m \<in> set mounts \<union> set_option selected.
             mount_matches path dev m \<longrightarrow> length (point m) \<le> length (point s)))"
  using assms
proof (induction mounts arbitrary: selected M)
  case Nil
  then show ?case by (auto split: option.splits)
next
  case (Cons c mounts)
  show ?case
  proof (cases "mount_matches path dev c")
    case False
    with Cons.prems Cons.IH [of M selected] show ?thesis
      by (auto simp: mount_matches_def split: option.splits)
  next
    case c: True
    show ?thesis
    proof (cases selected)
      case None
      with c Cons.IH [of "{c}" "Some c"] show ?thesis
        by (auto simp: mount_matches_def split: option.splits)
    next
      case (Some s)
      show ?thesis
      proof (cases "length (point s) \<le> length (point c)")
        case True
        with Some c Cons.prems Cons.IH [of "{c}" "Some c"] show ?thesis
          by (auto simp: mount_matches_def split: option.splits)
      next
        case False
        with Some c Cons.prems Cons.IH [of M selected] show ?thesis
          by (fastforce simp: mount_matches_def split: option.splits)
      qed
    qed
  qed
qed

lemma selectMount_Inr:
  "selectMount mounts path dev = Inr m \<Longrightarrow>
     m \<in> set mounts \<and> mount_matches path dev m
     \<and> (\<forall>m' \<in> set mounts. mount_matches path dev m' \<longrightarrow> length (point m') \<le> length (point m))"
  using select_loop_mount_spec [where selected = None and M = "{}" and path = path and dev = dev and mounts = mounts]
  by (auto simp: selectMount_def split: option.splits)

lemma selectMount_Inl:
  "selectMount mounts path dev = Inl e \<Longrightarrow> \<forall>m \<in> set mounts. \<not> mount_matches path dev m"
  using select_loop_mount_spec [where selected = None and M = "{}" and path = path and dev = dev and mounts = mounts]
  by (auto simp: selectMount_def split: option.splits)

lemma selectMount_total:
  "(\<exists>m \<in> set mounts. mount_matches path dev m) \<longleftrightarrow> (\<exists>m. selectMount mounts path dev = Inr m)"
  using selectMount_Inr selectMount_Inl by (cases "selectMount mounts path dev") blast+

text \<open>Errors of this file match \<open>ErrInsecureFallback\<close> and keep their cause.\<close>

lemma mountError_is [simp]:
  "err_is (mountError err) (Category c) \<longleftrightarrow> c = ErrInsecureFallback \<or> err_is err (Category c)"
  by (auto simp: mountError_def)

lemma nearest_loop_error:
  "run_state (nearest_loop env path) w = (Inl err, w') \<Longrightarrow>
     err_is err (Category ErrInsecureFallback)"
proof (induction env path arbitrary: w rule: nearest_loop.induct)
  case (1 env path)
  then show ?case
    by (auto simp: nearest_loop.simps [of env path] split: prod.splits sum.splits if_splits)
qed

text \<open>A path that a run asked for and was told does not exist.\<close>

definition reported_missing :: "'w mountEnvironment \<Rightarrow> string \<Rightarrow> bool" where
  "reported_missing env p \<longleftrightarrow> (\<exists>v e v'. run_state (env_stat_dev env p) v = (Inl e, v') \<and> err_is e ErrNotExist)"

text \<open>The path the loop settles on is the nearest ancestor that exists: the ones below it were reported
  missing, its status was read, and its links were resolved.\<close>

lemma nearest_loop_ok:
  "run_state (nearest_loop env path) w = (Inr (resolved, dev), w') \<Longrightarrow>
     \<exists>n w1 w2 d. (\<forall>j < n. reported_missing env ((Dir ^^ j) path))
       \<and> run_state (env_stat_dev env ((Dir ^^ n) path)) w1 = (Inr d, w2)
       \<and> run_state (env_evaluateSymlinks env ((Dir ^^ n) path)) w2 = (Inr resolved, w')
       \<and> dev = \<lparr>dev_major = unix_Major env d, dev_minor = unix_Minor env d\<rparr>"
proof (induction env path arbitrary: w rule: nearest_loop.induct)
  case (1 env path)
  obtain r w1 where r: "run_state (env_stat_dev env path) w = (r, w1)" by fastforce
  show ?case
  proof (cases r)
    case (Inr d)
    with "1.prems" r show ?thesis
      by (intro exI [of _ 0]) (fastforce simp: nearest_loop.simps [of env path] split: prod.splits sum.splits)
  next
    case (Inl e)
    with "1.prems" r have "err_is e ErrNotExist" "Dir path \<noteq> path"
      "run_state (nearest_loop env (Dir path)) w1 = (Inr (resolved, dev), w')"
      by (auto simp: nearest_loop.simps [of env path] split: if_splits)
    with "1.IH" Inl obtain n w2 w3 d where above: "\<forall>j < n. reported_missing env ((Dir ^^ j) (Dir path))"
      and found: "run_state (env_stat_dev env ((Dir ^^ n) (Dir path))) w2 = (Inr d, w3)"
       "run_state (env_evaluateSymlinks env ((Dir ^^ n) (Dir path))) w3 = (Inr resolved, w')"
       "dev = \<lparr>dev_major = unix_Major env d, dev_minor = unix_Minor env d\<rparr>" by blast
    have "reported_missing env path"
      using r Inl \<open>err_is e ErrNotExist\<close> by (auto simp: reported_missing_def)
    then have "reported_missing env ((Dir ^^ j) path)" if "j < Suc n" for j
      using above that by (cases j) (simp_all add: funpow_swap1)
    with found show ?thesis by (intro exI [of _ "Suc n"]) (auto simp: funpow_swap1)
  qed
qed

lemma nearestExistingPath_error:
  "run_state (nearestExistingPath rootPath env) w = (Inl err, w') \<Longrightarrow>
     err_is err (Category ErrInsecureFallback)"
  by (auto simp: nearestExistingPath_def dest: nearest_loop_error split: prod.splits sum.splits)

lemma nearestExistingPath_ok:
  "run_state (nearestExistingPath rootPath env) w = (Inr (resolved, dev), w') \<Longrightarrow>
     \<exists>root n w0 w1 w2 d. run_state (env_absolute env rootPath) w = (Inr root, w0)
       \<and> (\<forall>j < n. reported_missing env ((Dir ^^ j) (Clean root)))
       \<and> run_state (env_stat_dev env ((Dir ^^ n) (Clean root))) w1 = (Inr d, w2)
       \<and> run_state (env_evaluateSymlinks env ((Dir ^^ n) (Clean root))) w2 = (Inr resolved, w')
       \<and> dev = \<lparr>dev_major = unix_Major env d, dev_minor = unix_Minor env d\<rparr>"
proof -
  assume "run_state (nearestExistingPath rootPath env) w = (Inr (resolved, dev), w')"
  then obtain root w0 where a: "run_state (env_absolute env rootPath) w = (Inr root, w0)"
    and n: "run_state (nearest_loop env (Clean root)) w0 = (Inr (resolved, dev), w')"
    by (auto simp: nearestExistingPath_def split: prod.splits sum.splits)
  show ?thesis using a nearest_loop_ok [OF n] by blast
qed

section \<open>Rendering a record\<close>

text \<open>
  The other direction, after the kernel's documented format: fields separated by spaces, with
  tab, newline, space and backslash written as octal escapes.
\<close>

definition escape_char :: "char \<Rightarrow> string" where
  "escape_char c =
     (if c = CHR 9 then CHR 92 # ''011'' else if c = CHR 10 then CHR 92 # ''012''
      else if c = CHR 32 then CHR 92 # ''040'' else if c = CHR 92 then CHR 92 # ''134'' else [c])"

definition escape_field :: "string \<Rightarrow> string" where
  "escape_field s = concat (map escape_char s)"

lemma escape_field_simps [simp]:
  "escape_field [] = []" "escape_field (c # s) = escape_char c @ escape_field s"
  by (simp_all add: escape_field_def)

lemma unescape_escape_char:
  "unescapeMountField (escape_char c @ s) =
     (case unescapeMountField s of Inl e \<Rightarrow> Inl e | Inr t \<Rightarrow> Inr (c # t))"
  by (auto simp: escape_char_def mount_escapes_def)

lemma unescape_escape: "unescapeMountField (escape_field s) = Inr s"
  by (induction s) (simp_all add: unescape_escape_char del: unescapeMountField.simps(2))

text \<open>In the source the kernel escapes \<open>#\<close> too, which \<open>unescapeMountField\<close> does not know.\<close>

definition escape_source :: "string \<Rightarrow> string" where
  "escape_source s = concat (map (\<lambda>c. if c = CHR ''#'' then CHR 92 # ''043'' else escape_char c) s)"

lemma unescape_number_sign:
  "unescapeMountField (CHR 92 # ''043'' @ s) = Inl (Plain ''unsupported mountinfo escape'')"
  by (simp add: mount_escapes_def)

lemma unescape_source:
  "unescapeMountField (escape_source s) =
     (if CHR ''#'' \<in> set s then Inl (Plain ''unsupported mountinfo escape'') else Inr s)"
proof (induction s)
  case (Cons c s)
  show ?case
  proof (cases "c = CHR ''#''")
    case True
    then show ?thesis using unescape_number_sign [of "escape_source s"] by (simp add: escape_source_def)
  next
    case False
    then have "escape_source (c # s) = escape_char c @ escape_source s" by (simp add: escape_source_def)
    then show ?thesis using Cons.IH False unescape_escape_char [of c "escape_source s"] by simp
  qed
qed (simp add: escape_source_def)

definition render_mount :: "string list \<Rightarrow> string list \<Rightarrow> nat \<Rightarrow> nat \<Rightarrow> mount \<Rightarrow> string" where
  "render_mount four optional major minor m =
     Join_with (CHR 32)
       ([four ! 0, four ! 1, decimal major @ CHR '':'' # decimal minor, four ! 2,
         escape_field (point m), four ! 3] @ optional
        @ [''-'', filesystem m, escape_source (source m), superOptions m])"

text \<open>A string in which no white space character starts anywhere.\<close>

fun no_spaces :: "string \<Rightarrow> bool" where
  "no_spaces [] = True"
| "no_spaces (c # s) \<longleftrightarrow> space_len space_seqs (c # s) = 0 \<and> no_spaces s"

definition word_field :: "string \<Rightarrow> bool" where
  "word_field s \<longleftrightarrow> s \<noteq> [] \<and> no_spaces s"

lemma no_spaces_space_free: "space_free s \<Longrightarrow> no_spaces s"
  by (induction s) (simp_all add: space_len_none [OF space_seqs_lead(1)])

lemma word_field_ascii: "s \<noteq> [] \<Longrightarrow> space_free s \<Longrightarrow> word_field s"
  by (simp add: word_field_def no_spaces_space_free)

lemma space_len_zero: "space_len space_seqs s = 0 \<longleftrightarrow> (\<forall>q \<in> set space_seqs. \<not> prefix q s)"
proof -
  have "[] \<notin> set space_seqs" by (simp add: space_seqs_def)
  then have "find (\<lambda>q. prefix q s) space_seqs \<noteq> Some []"
    by (auto simp: find_Some_iff in_set_conv_nth)
  then have "space_len space_seqs s = 0 \<longleftrightarrow> find (\<lambda>q. prefix q s) space_seqs = None"
    by (auto simp: space_len_def split: option.splits)
  then show ?thesis by (simp add: find_None_iff Ball_def)
qed

text \<open>A blank after a word completes no white space character that starts in the word.\<close>

lemma space_len_before_blank:
  assumes "space_len space_seqs (c # s) = 0"
  shows "space_len space_seqs (c # s @ CHR 32 # t) = 0"
  unfolding space_len_zero
proof (intro ballI notI)
  fix q
  assume q: "q \<in> set space_seqs" "prefix q (c # s @ CHR 32 # t)"
  have no: "\<not> prefix q (c # s)" using assms q(1) unfolding space_len_zero by blast
  from q(2) have "prefix q ((c # s) @ CHR 32 # t)" by (simp only: append_Cons)
  with no obtain us where us: "q = (c # s) @ us" "prefix us (CHR 32 # t)"
    unfolding prefix_append by blast
  with no have "us \<noteq> []" by (metis append_Nil2 prefix_order.refl)
  with us have "CHR 32 \<in> set (tl q)" by (cases us) simp_all
  moreover have "\<forall>q \<in> set space_seqs. CHR 32 \<notin> set (tl q)" by (simp add: space_seqs_def)
  ultimately show False using q(1) by blast
qed

lemma fields_from_word:
  "no_spaces p \<Longrightarrow> fields_from cur (p @ CHR 32 # s) = fields_from (rev p @ cur) (CHR 32 # s)"
  by (induction p arbitrary: cur) (simp_all add: space_len_before_blank)

lemma fields_from_last: "no_spaces p \<Longrightarrow> fields_from cur p = fields_from (rev p @ cur) []"
  by (induction p arbitrary: cur) simp_all

lemma space_len_blank: "space_len space_seqs (CHR 32 # s) = 1"
  by (simp add: space_len_def space_seqs_def)

lemma Fields_Join:
  assumes "ps \<noteq> []" and "\<forall>p \<in> set ps. word_field p"
  shows "Fields (Join_with (CHR 32) ps) = ps"
  using assms
proof (induction "CHR 32" ps rule: Join_with.induct)
  case (2 p)
  then show ?case by (simp add: Fields_def fields_from_last word_field_def)
next
  case (3 p q ps)
  then have "Fields (Join_with (CHR 32) (q # ps)) = q # ps" by simp
  moreover have "Join_with (CHR 32) (p # q # ps) = p @ CHR 32 # Join_with (CHR 32) (q # ps)"
    by simp
  ultimately show ?case
    using 3 by (simp add: Fields_def fields_from_word space_len_blank word_field_def del: Join_with.simps)
qed simp

lemma space_free_decimal: "space_free (decimal n)"
  using decimal_digits [of _ n] by (fastforce simp: space_free_def)

lemma Cut_decimal:
  "Cut (CHR '':'') (decimal a @ CHR '':'' # decimal b) = Some (decimal a, decimal b)"
  using decimal_digits [of "CHR '':''" a] by (auto simp: Cut_Some)

lemma parseMountDevice_decimal:
  "a < 2 ^ 32 \<Longrightarrow> b < 2 ^ 32 \<Longrightarrow>
     parseMountDevice (decimal a @ CHR '':'' # decimal b) =
     Inr \<lparr>dev_major = word_of_nat a, dev_minor = word_of_nat b\<rparr>"
  by (simp add: parseMountDevice_def Cut_decimal ParseUint_decimal)

section \<open>Properties\<close>


lemma takeWhile_sep: "x \<notin> set xs \<Longrightarrow> takeWhile (\<lambda>y. y \<noteq> x) (xs @ x # ys) = xs"
  by (induction xs) auto



text \<open>The containment test on path strings is the containment of paths: for absolute paths,
  \<open>pathWithinMount\<close> holds exactly when the elements of the mount point are a prefix of the
  elements of the path, so a sibling that merely shares leading characters is not inside.\<close>

lemma pathWithinMount_prefix:
  assumes "rooted path" and "rooted mountPoint"
  shows "pathWithinMount path mountPoint \<longleftrightarrow>
     prefix (clean_elems mountPoint) (clean_elems path)"
  using Rel_within [OF assms(2,1)] by (auto simp: pathWithinMount_def)

lemma pathWithinMount_prefix_witness:
  "pathWithinMount ''/mnt/c/dir'' ''/mnt/c'' \<and> \<not> pathWithinMount ''/mnt/cd'' ''/mnt/c''"
proof -
  have "rooted ''/mnt/c/dir''" "rooted ''/mnt/cd''" "rooted ''/mnt/c''"
    by (simp_all add: slash_def)
  moreover have "clean_elems ''/mnt/c'' = [''mnt'', ''c'']"
    "clean_elems ''/mnt/c/dir'' = [''mnt'', ''c'', ''dir'']" "clean_elems ''/mnt/cd'' = [''mnt'', ''cd'']"
    by (simp_all add: clean_elems_def clean_step_def path_chars)
  ultimately show ?thesis
    using pathWithinMount_prefix [of "''/mnt/c/dir''" "''/mnt/c''"]
      pathWithinMount_prefix [of "''/mnt/cd''" "''/mnt/c''"] by simp
qed

text \<open>C37 A fallback directory is accepted only on a mount the check has identified: the nearest existing
  ancestor of the absolute root was found (the root itself and everything below that ancestor were
  reported missing) and resolved, mountinfo parsed, the chosen record is on the same device,
  contains the resolved path and is the deepest such record, and it is not DrvFS.\<close>

theorem validateMount_accepts:
  assumes "run_state (validateMountWithEnvironment rootPath env) w = (None, w')"
  shows "\<exists>root n d resolved w0 w1 w2 w3 info mounts m.
     run_state (env_absolute env rootPath) w = (Inr root, w0)
     \<and> (\<forall>j < n. reported_missing env ((Dir ^^ j) (Clean root)))
     \<and> run_state (env_stat_dev env ((Dir ^^ n) (Clean root))) w1 = (Inr d, w2)
     \<and> run_state (env_evaluateSymlinks env ((Dir ^^ n) (Clean root))) w2 = (Inr resolved, w3)
     \<and> run_state (env_openMountInfo env) w3 = (Inr info, w')
     \<and> parseMountInfo info = Inr mounts \<and> m \<in> set mounts
     \<and> device m = \<lparr>dev_major = unix_Major env d, dev_minor = unix_Minor env d\<rparr>
     \<and> pathWithinMount resolved (point m)
     \<and> (\<forall>m' \<in> set mounts. device m' = device m \<and> pathWithinMount resolved (point m')
          \<longrightarrow> length (point m') \<le> length (point m))
     \<and> \<not> isDrvFS m"
proof -
  obtain resolved dev w3 where n: "run_state (nearestExistingPath rootPath env) w = (Inr (resolved, dev), w3)"
    using assms by (auto simp: validateMountWithEnvironment_def split: prod.splits sum.splits)
  from assms n obtain info mounts m where
    i: "run_state (env_openMountInfo env) w3 = (Inr info, w')" "parseMountInfo info = Inr mounts"
       "selectMount mounts resolved dev = Inr m" "\<not> isDrvFS m"
    by (auto simp: validateMountWithEnvironment_def split: prod.splits sum.splits if_splits)
  from selectMount_Inr [OF i(3)] have
    m: "m \<in> set mounts" "device m = dev" "pathWithinMount resolved (point m)"
    "\<forall>m' \<in> set mounts. device m' = dev \<and> pathWithinMount resolved (point m')
        \<longrightarrow> length (point m') \<le> length (point m)"
    by (auto simp: mount_matches_def)
  from nearestExistingPath_ok [OF n] i m show ?thesis by (metis (no_types, lifting))
qed

text \<open>A world with one mount, on which the check succeeds.\<close>

definition demo_environment :: "unit mountEnvironment" where
  "demo_environment =
     \<lparr>env_absolute = (\<lambda>p. ret (Inr p)),
      env_stat_dev = (\<lambda>p. ret (if p = ''/'' then Inr 0 else Inl (Errno ENOENT))),
      env_evaluateSymlinks = (\<lambda>p. ret (Inr p)),
      env_openMountInfo = ret (Inr (''1 0 0:0 / / rw - ext4 d rw'', None)),
      unix_Major = (\<lambda>_. 0), unix_Minor = (\<lambda>_. 0)\<rparr>"

lemma demo_mountinfo:
  "parseMountInfo (''1 0 0:0 / / rw - ext4 d rw'', None) =
     Inr [\<lparr>device = \<lparr>dev_major = 0, dev_minor = 0\<rparr>, point = ''/'', filesystem = ''ext4'',
           source = ''d'', superOptions = ''rw''\<rparr>]"
proof -
  let ?l = "''1 0 0:0 / / rw - ext4 d rw''"
  have "?l = Join_with (CHR 32) [''1'', ''0'', ''0:0'', ''/'', ''/'', ''rw'', ''-'', ''ext4'', ''d'', ''rw'']"
    by simp
  then have "Fields ?l = [''1'', ''0'', ''0:0'', ''/'', ''/'', ''rw'', ''-'', ''ext4'', ''d'', ''rw'']"
    by (simp only:) (rule Fields_Join; simp add: word_field_ascii)
  moreover have "parseMountDevice ''0:0'' = Inr \<lparr>dev_major = 0, dev_minor = 0\<rparr>"
    by (simp add: parseMountDevice_def ParseUint_def digit_val_def)
  moreover have "Clean ''/'' = ''/''" by code_simp
  ultimately have "parseMountInfoLine ?l = Inr \<lparr>device = \<lparr>dev_major = 0, dev_minor = 0\<rparr>, point = ''/'',
      filesystem = ''ext4'', source = ''d'', superOptions = ''rw''\<rparr>"
    by (simp add: parseMountInfoLine_def)
  moreover have "raw_lines ?l = [?l]" by (simp add: raw_lines_def Split_id)
  ultimately show ?thesis
    by (simp add: parseMountInfo_def maximumMountInfoLine_def drop_cr_def)
qed

lemma demo_accepts: "run_state (validateMountWithEnvironment ''/a'' demo_environment) () = (None, ())"
proof -
  have "Clean ''/a'' = ''/a''" "Dir ''/a'' = ''/''" by code_simp+
  then have "run_state (nearestExistingPath ''/a'' demo_environment) () =
      (Inr (''/'', \<lparr>dev_major = 0, dev_minor = 0\<rparr>), ())"
    by (simp add: nearestExistingPath_def nearest_loop.simps [of _ "''/a''"]
        nearest_loop.simps [of _ "''/''"] demo_environment_def)
  moreover have "selectMount [\<lparr>device = \<lparr>dev_major = 0, dev_minor = 0\<rparr>, point = ''/'', filesystem = ''ext4'',
           source = ''d'', superOptions = ''rw''\<rparr>] ''/'' \<lparr>dev_major = 0, dev_minor = 0\<rparr> =
        Inr \<lparr>device = \<lparr>dev_major = 0, dev_minor = 0\<rparr>, point = ''/'', filesystem = ''ext4'',
           source = ''d'', superOptions = ''rw''\<rparr>"
    by code_simp
  moreover have "\<not> isDrvFS \<lparr>device = \<lparr>dev_major = 0, dev_minor = 0\<rparr>, point = ''/'', filesystem = ''ext4'',
           source = ''d'', superOptions = ''rw''\<rparr>"
    by code_simp
  ultimately show ?thesis
    by (simp add: validateMountWithEnvironment_def demo_mountinfo) (simp add: demo_environment_def demo_mountinfo)
qed

theorem validateMount_accepts_witness:
  "\<exists>n d w1 w2. run_state (env_stat_dev demo_environment ((Dir ^^ n) (Clean ''/a''))) w1 = (Inr d, w2)"
proof -
  obtain root n d w1 w2 w0 where "run_state (env_absolute demo_environment ''/a'') () = (Inr root, w0)"
    and "run_state (env_stat_dev demo_environment ((Dir ^^ n) (Clean root))) w1 = (Inr d, w2)"
    using validateMount_accepts [OF demo_accepts] by (elim exE conjE)
  moreover have "run_state (env_absolute demo_environment ''/a'') () = (Inr ''/a'', ())"
    by (simp add: demo_environment_def)
  ultimately show ?thesis by auto
qed

text \<open>Every refusal is reported as an insecure fallback: whatever fails, from resolving the path
  to an unparsable mountinfo, an unidentified mount or DrvFS, the error matches
  \<open>ErrInsecureFallback\<close>, never silence.\<close>

lemma validateMount_refuses:
  assumes "run_state (validateMountWithEnvironment rootPath env) w = (Some err, w')"
  shows "err_is err (Category ErrInsecureFallback)"
proof (cases "run_state (nearestExistingPath rootPath env) w")
  case (Pair n w1)
  show ?thesis
  proof (cases n)
    case (Inl e)
    with assms Pair show ?thesis
      by (auto simp: validateMountWithEnvironment_def dest: nearestExistingPath_error)
  next
    case (Inr y)
    with assms Pair show ?thesis
      by (auto simp: validateMountWithEnvironment_def split: prod.splits sum.splits if_splits)
  qed
qed

lemma validateMount_refuses_witness:
  "err_is (mountError (Errno EACCES)) (Category ErrInsecureFallback)"
proof -
  have "run_state (validateMountWithEnvironment ''/'' (demo_environment\<lparr>env_absolute :=
      (\<lambda>_. ret (Inl (Errno EACCES)))\<rparr>)) () = (Some (mountError (Errno EACCES)), ())"
    by (simp add: validateMountWithEnvironment_def nearestExistingPath_def demo_environment_def)
  then show ?thesis by (rule validateMount_refuses)
qed

section \<open>Observations\<close>

text \<open>
  A no-break space in a field splits it, although the kernel writes it unescaped; and the
  escape of \<open>#\<close>, which the kernel writes in source names, is refused.
\<close>

lemma Fields_splits_nbsp:
  "Fields (''/a'' @ [CHR 0xC2, CHR 0xA0] @ ''b'') = [''/a'', ''b'']"
  by code_simp

lemma unescape_hash_refused:
  "unescapeMountField (CHR 92 # ''043'') = Inl (Plain ''unsupported mountinfo escape'')"
  by (simp add: mount_escapes_def)

end
