(* ===== verification/Fs_Storage.thy ===== *)
theory Fs_Storage
  imports Fs_Directory Fs_Mount
begin

text \<open>
  \<open>internal/backend/fs/storage_linux.go\<close>: credentials as files of a service directory. The
  system is an argument, as it is in the code (interface \<open>linuxSystem\<close>).

  A read returns the count, the bytes put into the buffer and the error, as the system call
  does: on failure the count is -1. A write returns the count and the error.
\<close>

unbundle bit_operations_syntax

section \<open>The system\<close>

record 'w linux_system =
  sys_validateMount :: "string \<Rightarrow> ('w, go_error option) state"
  sys_prepareDirectories :: "string \<Rightarrow> layout \<Rightarrow> 32 word \<Rightarrow> ('w, go_error option) state"
  sys_openDirectory :: "string \<Rightarrow> 32 word \<Rightarrow> ('w, go_error + int) state"
  sys_openDirectoryAt :: "int \<Rightarrow> string \<Rightarrow> 32 word \<Rightarrow> ('w, go_error + int) state"
  sys_openFileAt :: "int \<Rightarrow> string \<Rightarrow> open_flag list \<Rightarrow> 32 word \<Rightarrow> ('w, go_error + int) state"
  sys_fstat :: "int \<Rightarrow> ('w, go_error + stat) state"
  sys_fchmod :: "int \<Rightarrow> 32 word \<Rightarrow> ('w, go_error option) state"
  sys_read :: "int \<Rightarrow> nat \<Rightarrow> ('w, int \<times> bytes \<times> go_error option) state"
  sys_write :: "int \<Rightarrow> bytes \<Rightarrow> ('w, int \<times> go_error option) state"
  sys_fsync :: "int \<Rightarrow> ('w, go_error option) state"
  sys_close :: "int \<Rightarrow> ('w, go_error option) state"
  sys_renameAt :: "int \<Rightarrow> string \<Rightarrow> int \<Rightarrow> string \<Rightarrow> ('w, go_error option) state"
  sys_unlinkAt :: "int \<Rightarrow> string \<Rightarrow> int \<Rightarrow> ('w, go_error option) state"

text \<open>The calls of package \<open>unix\<close> that \<open>realLinuxSystem\<close> forwards to, beside those of
  \<open>directory_calls\<close>.\<close>

record 'w file_calls =
  unix_Fchmod :: "int \<Rightarrow> 32 word \<Rightarrow> ('w, go_error option) state"
  unix_Read :: "int \<Rightarrow> nat \<Rightarrow> ('w, int \<times> bytes \<times> go_error option) state"
  unix_Write :: "int \<Rightarrow> bytes \<Rightarrow> ('w, int \<times> go_error option) state"
  unix_Fsync :: "int \<Rightarrow> ('w, go_error option) state"
  unix_Renameat :: "int \<Rightarrow> string \<Rightarrow> int \<Rightarrow> string \<Rightarrow> ('w, go_error option) state"
  unix_Unlinkat :: "int \<Rightarrow> string \<Rightarrow> int \<Rightarrow> ('w, go_error option) state"

definition realLinuxSystem ::
  "(string \<Rightarrow> ('w, go_error option) state) \<Rightarrow> 'w directory_calls \<Rightarrow> 'w file_calls \<Rightarrow> 'w linux_system" where
  "realLinuxSystem validate d f =
     \<lparr>sys_validateMount = validate,
      sys_prepareDirectories = prepareDirectories d,
      sys_openDirectory = openDirectory d,
      sys_openDirectoryAt = openDirectoryAt d,
      sys_openFileAt = unix_Openat d,
      sys_fstat = unix_Fstat d,
      sys_fchmod = unix_Fchmod f,
      sys_read = unix_Read f,
      sys_write = unix_Write f,
      sys_fsync = unix_Fsync f,
      sys_close = unix_Close d,
      sys_renameAt = unix_Renameat f,
      sys_unlinkAt = unix_Unlinkat f\<rparr>"

definition secretMode :: "32 word" where "secretMode = 0x180"
definition temporaryRandomBytes :: nat where "temporaryRandomBytes = 16"
definition temporaryCreateAttempts :: nat where "temporaryCreateAttempts = 128"

text \<open>
  The storage; \<open>random\<close> is \<open>io.ReadFull(s.random, _)\<close> by the number of bytes asked for.
  Two parameters stand for the growth of the buffer in \<open>io.ReadAll\<close> (how many bytes it offers
  beyond one, by the number it holds) and for the fuel of the read and write loops.
\<close>

record 'w linuxStorage =
  rootPath :: string
  storage_layout :: layout
  effectiveUID :: "32 word"
  system :: "'w linux_system"
  random :: "nat \<Rightarrow> ('w, go_error + bytes) state"
  room :: "nat \<Rightarrow> nat"
  loop_fuel :: nat

text \<open>The interface \<open>storage\<close>.\<close>

record 'w storage =
  storage_get :: "string \<Rightarrow> ('w, go_error + bytes) state"
  storage_set :: "string \<Rightarrow> bytes \<Rightarrow> ('w, go_error option) state"
  storage_delete :: "string \<Rightarrow> ('w, go_error option) state"

section \<open>Errors\<close>

definition classify_operation :: "string \<Rightarrow> bool \<Rightarrow> go_error \<Rightarrow> go_error" where
  "classify_operation operation missingIsNotFound err =
     (if missingIsNotFound \<and> err_is err ErrNotExist
      then Errorf (''%w: '' @ operation @ '': %w'') [Category ErrNotFound, err]
      else if err_is err ErrPermission
      then Errorf (''%w: '' @ operation @ '': %w'') [Category ErrPermissionDenied, err]
      else if err_is err (Errno ELOOP) \<or> err_is err (Errno ENOTDIR) \<or> err_is err (Errno EISDIR)
      then Errorf (''%w: '' @ operation @ '': %w'') [Category ErrInsecureFallback, err]
      else if err_is err (Category ErrInvalidArgument)
        \<or> err_is err (Category ErrInsecureFallback)
        \<or> err_is err (Category ErrPermissionDenied)
        \<or> err_is err (Category ErrBackendUnavailable)
        \<or> err_is err (Category ErrUnsupported)
        \<or> err_is err (Category ErrBackendFailure)
      then Errorf (operation @ '': %w'') [err]
      else Errorf (''%w: '' @ operation @ '': %w'') [Category ErrBackendFailure, err])"

definition operationError :: "string \<Rightarrow> bool \<Rightarrow> go_error option \<Rightarrow> go_error option" where
  "operationError operation missingIsNotFound err =
     (case err of None \<Rightarrow> None
      | Some e \<Rightarrow> Some (classify_operation operation missingIsNotFound e))"

lemma operationError_None [simp]: "operationError op m err = None \<longleftrightarrow> err = None"
  by (simp add: operationError_def split: option.split)

lemma operationError_Some [simp]: "operationError op m (Some e) = Some (classify_operation op m e)"
  by (simp add: operationError_def)

section \<open>Reading\<close>

definition descriptorReader_Read ::
  "'w linux_system \<Rightarrow> int \<Rightarrow> nat \<Rightarrow> ('w, int \<times> bytes \<times> go_error option) state" where
  "descriptorReader_Read sys descriptor len = do {
     r \<leftarrow> sys_read sys descriptor len;
     (case r of (n, contents, err) \<Rightarrow>
        (if n = 0 \<and> err = None then ret (0, contents, Some EOF) else ret (n, contents, err)))
   }"

text \<open>
  \<open>io.ReadAll\<close>: the buffer \<open>b\<close> is extended by the count that \<open>Read\<close> returned, which panics
  when the new length is negative or beyond the capacity.
\<close>

datatype read_all = AllRead bytes "go_error option" | ReadPanic | ReadForever

fun ReadAll ::
  "(nat \<Rightarrow> ('w, int \<times> bytes \<times> go_error option) state) \<Rightarrow> (nat \<Rightarrow> nat) \<Rightarrow> nat \<Rightarrow> bytes
     \<Rightarrow> ('w, read_all) state" where
  "ReadAll Read grow 0 b = ret ReadForever"
| "ReadAll Read grow (Suc fuel) b = do {
     r \<leftarrow> Read (Suc (grow (length b)));
     (case r of (n, contents, err) \<Rightarrow>
        (if int (length b) + n < 0 \<or> n > int (Suc (grow (length b))) then ret ReadPanic
         else
           let b' = take (nat (int (length b) + n)) (b @ contents)
           in (case err of
                 Some e \<Rightarrow> ret (AllRead b' (if e = EOF then None else Some e))
               | None \<Rightarrow> ReadAll Read grow fuel b')))
   }"

section \<open>Opening\<close>

definition credential_flags :: "open_flag list" where
  "credential_flags = [O_RDONLY, O_CLOEXEC, O_NOFOLLOW, O_NONBLOCK]"

definition temporary_flags :: "open_flag list" where
  "temporary_flags = [O_WRONLY, O_CREAT, O_EXCL, O_CLOEXEC, O_NOFOLLOW]"

definition openServiceDirectory :: "'w linuxStorage \<Rightarrow> bool \<Rightarrow> ('w, go_error + int) state" where
  "openServiceDirectory s create = do {
     v \<leftarrow> sys_validateMount (system s) (rootPath s);
     (case v of
        Some err \<Rightarrow> ret (Inl err)
      | None \<Rightarrow> do {
          p \<leftarrow> (if create
                then sys_prepareDirectories (system s) (rootPath s) (storage_layout s) (effectiveUID s)
                else ret None);
          (case p of
             Some err \<Rightarrow> ret (Inl err)
           | None \<Rightarrow> do {
               r \<leftarrow> sys_openDirectory (system s) (rootPath s) (effectiveUID s);
               (case r of
                  Inl err \<Rightarrow> ret (Inl err)
                | Inr root \<Rightarrow> defer_close (sys_close (system s)) root (do {
                    v \<leftarrow> sys_openDirectoryAt (system s) root layoutVersion (effectiveUID s);
                    (case v of
                       Inl err \<Rightarrow> ret (Inl err)
                     | Inr version \<Rightarrow> defer_close (sys_close (system s)) version
                         (sys_openDirectoryAt (system s) version (serviceID (storage_layout s))
                            (effectiveUID s)))
                  }))
             })
        })
   }"

definition validateCredential :: "'w linuxStorage \<Rightarrow> int \<Rightarrow> ('w, go_error option) state" where
  "validateCredential s descriptor = do {
     r \<leftarrow> sys_fstat (system s) descriptor;
     ret (case r of
        Inl err \<Rightarrow> Some err
      | Inr status \<Rightarrow>
          (if st_mode status AND S_IFMT \<noteq> S_IFREG
           then Some (insecure ''%w: credential is not a regular file'')
           else if st_uid status \<noteq> effectiveUID s
           then Some (insecure ''%w: credential owner %d does not match effective user %d'')
           else if st_mode status AND group_other_bits \<noteq> 0
           then Some (insecure ''%w: credential mode %#o grants group or other access'')
           else None))
   }"

definition openCredential :: "'w linuxStorage \<Rightarrow> int \<Rightarrow> string \<Rightarrow> ('w, go_error + int) state" where
  "openCredential s directory name = do {
     r \<leftarrow> sys_openFileAt (system s) directory name credential_flags 0;
     (case r of
        Inl err \<Rightarrow> ret (Inl err)
      | Inr descriptor \<Rightarrow> do {
          v \<leftarrow> validateCredential s descriptor;
          (case v of
             Some err \<Rightarrow> do { _ \<leftarrow> sys_close (system s) descriptor; ret (Inl err) }
           | None \<Rightarrow> ret (Inr descriptor))
        })
   }"

definition validateExistingCredential ::
  "'w linuxStorage \<Rightarrow> int \<Rightarrow> string \<Rightarrow> ('w, go_error option) state" where
  "validateExistingCredential s directory name = do {
     r \<leftarrow> openCredential s directory name;
     (case r of
        Inl err \<Rightarrow> ret (if err_is err ErrNotExist then None else Some err)
      | Inr descriptor \<Rightarrow> sys_close (system s) descriptor)
   }"

section \<open>Writing\<close>

text \<open>
  A count beyond the slice panics; the deferred functions of the callers run, and the panic is
  carried to the end as an error value. A negative count without an error, which the system call
  never returns, makes the loop call again with the same bytes; the fuel bounds only these.
\<close>

function writeAll :: "'w linux_system \<Rightarrow> nat \<Rightarrow> int \<Rightarrow> bytes \<Rightarrow> ('w, go_error option) state" where
  "writeAll sys fuel descriptor contents =
     (if contents = [] then ret None
      else do {
        r \<leftarrow> sys_write sys descriptor contents;
        (case r of (written, err) \<Rightarrow>
           (if written > int (length contents) then ret (Some (GoPanic ''slice bounds out of range''))
            else if err \<noteq> None then ret err
            else if written = 0 then ret (Some ErrShortWrite)
            else if written > 0 then writeAll sys fuel descriptor (drop (nat written) contents)
            else if fuel = 0 then ret (Some OutOfFuel)
            else writeAll sys (fuel - 1) descriptor contents))
      })"
  by pat_completeness auto
termination
  by (relation "measure (\<lambda>(sys, fuel, d, c). fuel + length c)") auto

declare writeAll.simps [simp del]

fun createTemporary_loop ::
  "'w linuxStorage \<Rightarrow> int \<Rightarrow> nat \<Rightarrow> ('w, go_error + string \<times> int) state" where
  "createTemporary_loop s directory 0 =
     ret (Inl (Plain ''cannot allocate a unique temporary credential file''))"
| "createTemporary_loop s directory (Suc attempts) = do {
     r \<leftarrow> random s temporaryRandomBytes;
     (case r of
        Inl err \<Rightarrow> ret (Inl err)
      | Inr bytes \<Rightarrow>
          let name = ''.tmp-'' @ hex_EncodeToString bytes in do {
            d \<leftarrow> sys_openFileAt (system s) directory name temporary_flags secretMode;
            (case d of
               Inl err \<Rightarrow>
                 (if err_is err ErrExist then createTemporary_loop s directory attempts
                  else ret (Inl err))
             | Inr descriptor \<Rightarrow> ret (Inr (name, descriptor)))
          })
   }"

definition createTemporary :: "'w linuxStorage \<Rightarrow> int \<Rightarrow> ('w, go_error + string \<times> int) state" where
  "createTemporary s directory = createTemporary_loop s directory temporaryCreateAttempts"

text \<open>
  \<open>writeAtomic\<close> in three parts: the body after the temporary file exists, which returns the
  result and the variables \<open>open\<close> and \<open>renamed\<close>; the deferred function; their composition.
\<close>

definition writeAtomic_body ::
  "'w linuxStorage \<Rightarrow> int \<Rightarrow> string \<Rightarrow> string \<Rightarrow> int \<Rightarrow> bytes
     \<Rightarrow> ('w, go_error option \<times> bool \<times> bool) state" where
  "writeAtomic_body s directory name temporaryName descriptor contents = do {
     e1 \<leftarrow> sys_fchmod (system s) descriptor secretMode;
     (if e1 \<noteq> None then ret (e1, True, False) else do {
     e2 \<leftarrow> writeAll (system s) (loop_fuel s) descriptor contents;
     (if e2 \<noteq> None then ret (e2, True, False) else do {
     e3 \<leftarrow> sys_fsync (system s) descriptor;
     (if e3 \<noteq> None then ret (e3, True, False) else do {
     e4 \<leftarrow> sys_close (system s) descriptor;
     (if e4 \<noteq> None then ret (e4, False, False) else do {
     e5 \<leftarrow> sys_renameAt (system s) directory temporaryName directory name;
     (if e5 \<noteq> None then ret (e5, False, False) else do {
     e6 \<leftarrow> sys_fsync (system s) directory;
     ret (e6, False, True) }) }) }) }) }) }"

definition writeAtomic_deferred ::
  "'w linuxStorage \<Rightarrow> int \<Rightarrow> string \<Rightarrow> int \<Rightarrow> go_error option \<Rightarrow> bool \<Rightarrow> bool
     \<Rightarrow> ('w, go_error option) state" where
  "writeAtomic_deferred s directory temporaryName descriptor result opened renamed = do {
     result \<leftarrow> (if opened then do {
          closeErr \<leftarrow> sys_close (system s) descriptor;
          ret (errors_Join result closeErr) }
        else ret result);
     (if renamed then ret result
      else do {
        cleanupErr \<leftarrow> sys_unlinkAt (system s) directory temporaryName 0;
        ret (if opt_is cleanupErr ErrNotExist then result else errors_Join result cleanupErr)
      })
   }"

definition writeAtomic ::
  "'w linuxStorage \<Rightarrow> int \<Rightarrow> string \<Rightarrow> bytes \<Rightarrow> ('w, go_error option) state" where
  "writeAtomic s directory name contents = do {
     t \<leftarrow> createTemporary s directory;
     (case t of
        Inl err \<Rightarrow> ret (Some err)
      | Inr (temporaryName, descriptor) \<Rightarrow> do {
          b \<leftarrow> writeAtomic_body s directory name temporaryName descriptor contents;
          (case b of (result, opened, renamed) \<Rightarrow>
             writeAtomic_deferred s directory temporaryName descriptor result opened renamed)
        })
   }"

section \<open>Operations\<close>

definition openLinuxStorage ::
  "string \<Rightarrow> layout \<Rightarrow> 32 word \<Rightarrow> 'w linux_system \<Rightarrow> (nat \<Rightarrow> ('w, go_error + bytes) state)
     \<Rightarrow> (nat \<Rightarrow> nat) \<Rightarrow> nat \<Rightarrow> ('w, go_error + 'w linuxStorage) state" where
  "openLinuxStorage root l uid sys rand grow limit = do {
     v \<leftarrow> sys_validateMount sys root;
     (case v of
        Some err \<Rightarrow> ret (Inl (classify_operation ''initialize filesystem'' False err))
      | None \<Rightarrow> do {
          p \<leftarrow> sys_prepareDirectories sys root l uid;
          (case p of
             Some err \<Rightarrow> ret (Inl (classify_operation ''initialize filesystem'' False err))
           | None \<Rightarrow> ret (Inr \<lparr>rootPath = root, storage_layout = l, effectiveUID = uid,
               system = sys, random = rand, room = grow, loop_fuel = limit\<rparr>))
        })
   }"

definition linux_get :: "'w linuxStorage \<Rightarrow> string \<Rightarrow> ('w, go_error + bytes) state" where
  "linux_get s key = do {
     d \<leftarrow> openServiceDirectory s False;
     (case d of
        Inl err \<Rightarrow> ret (Inl (classify_operation ''get credential'' True err))
      | Inr directory \<Rightarrow> defer_close (sys_close (system s)) directory (do {
          c \<leftarrow> openCredential s directory (fs_identifier keyDomain key);
          (case c of
             Inl err \<Rightarrow> ret (Inl (classify_operation ''get credential'' True err))
           | Inr descriptor \<Rightarrow> do {
               a \<leftarrow> ReadAll (descriptorReader_Read (system s) descriptor) (room s) (loop_fuel s) [];
               (case a of
                  ReadPanic \<Rightarrow> ret (Inl (GoPanic ''slice bounds out of range''))
                | ReadForever \<Rightarrow> ret (Inl OutOfFuel)
                | AllRead contents readErr \<Rightarrow> do {
                    closeErr \<leftarrow> sys_close (system s) descriptor;
                    (case errors_Join readErr closeErr of
                       Some err \<Rightarrow> ret (Inl (classify_operation ''get credential'' True err))
                     | None \<Rightarrow> ret (Inr contents))
                  })
             })
        }))
   }"

definition linux_set :: "'w linuxStorage \<Rightarrow> string \<Rightarrow> bytes \<Rightarrow> ('w, go_error option) state" where
  "linux_set s key contents = do {
     d \<leftarrow> openServiceDirectory s True;
     (case d of
        Inl err \<Rightarrow> ret (operationError ''set credential'' False (Some err))
      | Inr directory \<Rightarrow> defer_close (sys_close (system s)) directory (
          let name = fs_identifier keyDomain key in do {
            v \<leftarrow> validateExistingCredential s directory name;
            (case v of
               Some err \<Rightarrow> ret (operationError ''set credential'' False (Some err))
             | None \<Rightarrow> do {
                 r \<leftarrow> writeAtomic s directory name contents;
                 ret (operationError ''set credential'' False r)
               })
          }))
   }"

definition linux_delete :: "'w linuxStorage \<Rightarrow> string \<Rightarrow> ('w, go_error option) state" where
  "linux_delete s key = do {
     d \<leftarrow> openServiceDirectory s False;
     (case d of
        Inl err \<Rightarrow> ret (operationError ''delete credential'' True (Some err))
      | Inr directory \<Rightarrow> defer_close (sys_close (system s)) directory (
          let name = fs_identifier keyDomain key in do {
            c \<leftarrow> openCredential s directory name;
            (case c of
               Inl err \<Rightarrow> ret (operationError ''delete credential'' True (Some err))
             | Inr descriptor \<Rightarrow> do {
                 e1 \<leftarrow> sys_close (system s) descriptor;
                 (if e1 \<noteq> None then ret (operationError ''delete credential'' True e1) else do {
                 e2 \<leftarrow> sys_unlinkAt (system s) directory name 0;
                 (if e2 \<noteq> None then ret (operationError ''delete credential'' True e2) else do {
                 e3 \<leftarrow> sys_fsync (system s) directory;
                 ret (operationError ''delete credential'' True e3) }) })
               })
          }))
   }"

definition linux_storage :: "'w linuxStorage \<Rightarrow> 'w storage" where
  "linux_storage s =
     \<lparr>storage_get = linux_get s, storage_set = linux_set s, storage_delete = linux_delete s\<rparr>"

end
