(* ===== verification/Fs_Keyring.thy ===== *)
theory Fs_Keyring
  imports Fs_Storage Keyringer
begin

text \<open>
  \<open>internal/backend/fs/keyring.go\<close>, \<open>keyring_unsupported.go\<close> and the wrapper
  \<open>secure/fs/keyring.go\<close>: the filesystem keyring over its storage, with one mutex out of 64
  around every mutation. Locking is an action of the world; what it guarantees when several
  goroutines run operations is the step relation at the end of the theory.
\<close>

definition mutationLockCount :: nat where "mutationLockCount = 64"

record 'w fs_keyring =
  fs_storage :: "'w storage"
  fs_Lock :: "nat \<Rightarrow> ('w, unit) state"
  fs_Unlock :: "nat \<Rightarrow> ('w, unit) state"

text \<open>The index of the mutex of a key.\<close>

definition mutationLock :: "string \<Rightarrow> nat" where
  "mutationLock key = byte_val (hd (Sum256 (keyDomain @ key))) mod mutationLockCount"

definition openKeyring ::
  "string \<Rightarrow> string \<Rightarrow> (string \<Rightarrow> ('w, go_error + string) state)
     \<Rightarrow> (string \<Rightarrow> layout \<Rightarrow> ('w, go_error + 'w storage) state)
     \<Rightarrow> (nat \<Rightarrow> ('w, unit) state) \<Rightarrow> (nat \<Rightarrow> ('w, unit) state)
     \<Rightarrow> ('w, go_error + 'w fs_keyring) state" where
  "openKeyring rootDir service absolutePath opener lck unl =
     (if rootDir = ''''
      then ret (Inl (Errorf ''%w: root directory is empty'' [Category ErrInvalidArgument]))
      else if service = ''''
      then ret (Inl (Errorf ''%w: service is empty'' [Category ErrInvalidArgument]))
      else do {
        r \<leftarrow> absolutePath rootDir;
        (case r of
           Inl err \<Rightarrow>
             ret (Inl (Errorf ''%w: resolve root directory: %w'' [Category ErrInvalidArgument, err]))
         | Inr root \<Rightarrow> do {
             s \<leftarrow> opener root (newLayout service);
             (case s of
                Inl err \<Rightarrow> ret (Inl err)
              | Inr st \<Rightarrow> ret (Inr \<lparr>fs_storage = st, fs_Lock = lck, fs_Unlock = unl\<rparr>))
           })
      })"

text \<open>\<open>openStorage\<close> on Linux and elsewhere.\<close>

definition openStorage_linux ::
  "32 word \<Rightarrow> 'w linux_system \<Rightarrow> (nat \<Rightarrow> ('w, go_error + bytes) state) \<Rightarrow> (nat \<Rightarrow> nat) \<Rightarrow> nat
     \<Rightarrow> string \<Rightarrow> layout \<Rightarrow> ('w, go_error + 'w storage) state" where
  "openStorage_linux uid sys rand grow limit root l = do {
     r \<leftarrow> openLinuxStorage root l uid sys rand grow limit;
     ret (case r of Inl err \<Rightarrow> Inl err | Inr s \<Rightarrow> Inr (linux_storage s))
   }"

definition openStorage_unsupported :: "string \<Rightarrow> layout \<Rightarrow> ('w, go_error + 'w storage) state" where
  "openStorage_unsupported root l =
     ret (Inl (Errorf ''%w: %w: required filesystem security checks are not implemented on this platform''
       [Category ErrInsecureFallback, Category ErrUnsupported]))"

definition validateOperation :: "'w ctx option \<Rightarrow> string \<Rightarrow> ('w, go_error option) state" where
  "validateOperation ctx key = do {
     err \<leftarrow> ContextError ctx;
     ret (if err \<noteq> None then err
          else if key = '''' then Some (Errorf ''%w: key is empty'' [Category ErrInvalidArgument])
          else None)
   }"

definition fs_Get :: "'w fs_keyring \<Rightarrow> 'w ctx option \<Rightarrow> string \<Rightarrow> ('w, go_error + bytes) state" where
  "fs_Get k ctx key = do {
     v \<leftarrow> validateOperation ctx key;
     (case v of Some err \<Rightarrow> ret (Inl err) | None \<Rightarrow> storage_get (fs_storage k) key)
   }"

definition fs_Set :: "'w fs_keyring \<Rightarrow> 'w ctx option \<Rightarrow> string \<Rightarrow> bytes \<Rightarrow> ('w, go_error option) state" where
  "fs_Set k ctx key contents = do {
     v \<leftarrow> validateOperation ctx key;
     (case v of
        Some err \<Rightarrow> ret (Some err)
      | None \<Rightarrow> do {
          _ \<leftarrow> fs_Lock k (mutationLock key);
          r \<leftarrow> storage_set (fs_storage k) key contents;
          _ \<leftarrow> fs_Unlock k (mutationLock key);
          ret r
        })
   }"

definition fs_Delete :: "'w fs_keyring \<Rightarrow> 'w ctx option \<Rightarrow> string \<Rightarrow> ('w, go_error option) state" where
  "fs_Delete k ctx key = do {
     v \<leftarrow> validateOperation ctx key;
     (case v of
        Some err \<Rightarrow> ret (Some err)
      | None \<Rightarrow> do {
          _ \<leftarrow> fs_Lock k (mutationLock key);
          r \<leftarrow> storage_delete (fs_storage k) key;
          _ \<leftarrow> fs_Unlock k (mutationLock key);
          ret r
        })
   }"

text \<open>The exported wrapper forwards.\<close>

record 'w secure_fs_keyring =
  backend_of :: "'w fs_keyring"

definition secure_fs_Open ::
  "(string \<Rightarrow> string \<Rightarrow> ('w, go_error + 'w fs_keyring) state) \<Rightarrow> string \<Rightarrow> string
     \<Rightarrow> ('w, go_error + 'w secure_fs_keyring) state" where
  "secure_fs_Open backend_Open rootDir service = do {
     r \<leftarrow> backend_Open rootDir service;
     ret (case r of Inl err \<Rightarrow> Inl err | Inr b \<Rightarrow> Inr \<lparr>backend_of = b\<rparr>)
   }"

definition secure_fs_Get where "secure_fs_Get k = fs_Get (backend_of k)"
definition secure_fs_Set where "secure_fs_Set k = fs_Set (backend_of k)"
definition secure_fs_Delete where "secure_fs_Delete k = fs_Delete (backend_of k)"

definition fs_keyringer :: "'w secure_fs_keyring \<Rightarrow> 'w keyringer" where
  "fs_keyringer k = \<lparr>kr_Get = secure_fs_Get k, kr_Set = secure_fs_Set k, kr_Delete = secure_fs_Delete k\<rparr>"

section \<open>Guards\<close>

lemma mutationLock_bound: "mutationLock key < mutationLockCount"
  by (simp add: mutationLock_def mutationLockCount_def)

lemma validateOperation_ok:
  "run_state (validateOperation Background key) w =
     (if key = '''' then Some (Errorf ''%w: key is empty'' [Category ErrInvalidArgument]) else None, w)"
  by (simp add: validateOperation_def)

text \<open>Nothing is touched before the operation is valid: with a context that is done or nil, or with
  an empty key, \<open>Get\<close>, \<open>Set\<close> and \<open>Delete\<close> return that error, and the only effect on the
  world is that the context was asked; no lock is taken and the storage is not called.\<close>

lemma fs_invalid_operation:
  assumes "run_state (validateOperation ctx key) w = (Some err, w')"
  shows "run_state (fs_Get k ctx key) w = (Inl err, w')
     \<and> run_state (fs_Set k ctx key contents) w = (Some err, w')
     \<and> run_state (fs_Delete k ctx key) w = (Some err, w')
     \<and> w' = (case ctx of None \<Rightarrow> w | Some Err \<Rightarrow> snd (run_state Err w))
     \<and> (fst (run_state (ContextError ctx) w) = Some err
        \<or> key = '''' \<and> err_is err (Category ErrInvalidArgument))"
proof -
  have "snd (run_state (ContextError ctx) w) = (case ctx of None \<Rightarrow> w | Some Err \<Rightarrow> snd (run_state Err w))"
    by (cases ctx) (simp_all add: ContextError_def split: prod.splits)
  with assms show ?thesis
    by (auto simp: fs_Get_def fs_Set_def fs_Delete_def validateOperation_def
        split: prod.splits if_splits)
qed

lemma fs_invalid_operation_witness:
  "run_state (fs_Get \<lparr>fs_storage = \<lparr>storage_get = (\<lambda>_. ret (Inr ''s'')), storage_set = (\<lambda>_ _. ret None),
       storage_delete = (\<lambda>_. ret None)\<rparr>, fs_Lock = (\<lambda>_. ret ()), fs_Unlock = (\<lambda>_. ret ())\<rparr>
     (Some (ret (Some Canceled))) ''a'') () = (Inl Canceled, ())"
proof -
  have "run_state (validateOperation (Some (ret (Some Canceled))) ''a'') () = (Some Canceled, ())"
    by (simp add: validateOperation_def ContextError_def)
  from fs_invalid_operation [OF this] show ?thesis by simp
qed

section \<open>Concurrent mutations\<close>

text \<open>
  What a goroutine does with the mutexes, noted by a keyring that records its calls: a read
  takes none, a mutation takes the mutex of its key, runs one storage operation and releases
  that mutex, or does nothing at all when the operation is not valid.
\<close>

datatype mutex_event = Took nat | Ran | Gave nat

definition traced :: "'w fs_keyring \<Rightarrow> ('w \<times> mutex_event list) fs_keyring" where
  "traced k =
     \<lparr>fs_storage =
        \<lparr>storage_get = (\<lambda>key. noted (\<lambda>_. [Ran]) (storage_get (fs_storage k) key)),
         storage_set = (\<lambda>key c. noted (\<lambda>_. [Ran]) (storage_set (fs_storage k) key c)),
         storage_delete = (\<lambda>key. noted (\<lambda>_. [Ran]) (storage_delete (fs_storage k) key))\<rparr>,
      fs_Lock = (\<lambda>i. noted (\<lambda>_. [Took i]) (fs_Lock k i)),
      fs_Unlock = (\<lambda>i. noted (\<lambda>_. [Gave i]) (fs_Unlock k i))\<rparr>"

abbreviation unnoted_ctx :: "'w ctx option \<Rightarrow> ('w \<times> 'e list) ctx option" where
  "unnoted_ctx ctx \<equiv> map_option (noted (\<lambda>_. [])) ctx"

abbreviation notes_of :: "('w \<times> 'e list, 'a) state \<Rightarrow> 'w \<Rightarrow> 'e list" where
  "notes_of m w \<equiv> snd (snd (run_state m (w, [])))"

lemma validateOperation_unnoted:
  "\<exists>w'. run_state (validateOperation (unnoted_ctx ctx) key) (w, es) =
     (fst (run_state (validateOperation ctx key) w), (w', es))"
  by (cases ctx) (auto simp: validateOperation_def ContextError_def recorder split: prod.splits)

lemma mutex_notes:
  "notes_of (fs_Get (traced k) (unnoted_ctx ctx) key) w \<in> {[], [Ran]}"
  "notes_of (fs_Set (traced k) (unnoted_ctx ctx) key c) w \<in> {[], [Took (mutationLock key), Ran, Gave (mutationLock key)]}"
  "notes_of (fs_Delete (traced k) (unnoted_ctx ctx) key) w \<in> {[], [Took (mutationLock key), Ran, Gave (mutationLock key)]}"
  using validateOperation_unnoted [of ctx key w "[] :: mutex_event list"]
  by (cases "fst (run_state (validateOperation ctx key) w)";
      auto simp: fs_Get_def fs_Set_def fs_Delete_def traced_def recorder split: prod.splits)+

text \<open>
  Goroutines that run \<open>Set\<close> or \<open>Delete\<close> on one keyring: each waits for the mutex of its key,
  runs its storage operation and unlocks. A mutex is taken when it is free, in any order. At the
  start some goroutines wait, and the others have nothing to do.
\<close>

datatype phase = Waiting | Running | Finished

record pool =
  phase_of :: "nat \<Rightarrow> phase"
  locked :: "nat set"

definition started :: "pool \<Rightarrow> bool" where
  "started p \<longleftrightarrow> (\<forall>t. phase_of p t \<noteq> Running) \<and> locked p = {}"

inductive fs_step :: "(nat \<Rightarrow> string) \<Rightarrow> pool \<Rightarrow> pool \<Rightarrow> bool" for key_of where
  take: "phase_of p t = Waiting \<Longrightarrow> mutationLock (key_of t) \<notin> locked p \<Longrightarrow>
    fs_step key_of p (p\<lparr>phase_of := (phase_of p)(t := Running),
      locked := insert (mutationLock (key_of t)) (locked p)\<rparr>)"
| release: "phase_of p t = Running \<Longrightarrow>
    fs_step key_of p (p\<lparr>phase_of := (phase_of p)(t := Finished),
      locked := locked p - {mutationLock (key_of t)}\<rparr>)"

inductive fs_reachable :: "(nat \<Rightarrow> string) \<Rightarrow> pool \<Rightarrow> bool" for key_of where
  start: "started p \<Longrightarrow> fs_reachable key_of p"
| step: "fs_reachable key_of p \<Longrightarrow> fs_step key_of p p' \<Longrightarrow> fs_reachable key_of p'"

definition fs_pool_ok :: "(nat \<Rightarrow> string) \<Rightarrow> pool \<Rightarrow> bool" where
  "fs_pool_ok key_of p \<longleftrightarrow>
     locked p = (\<lambda>t. mutationLock (key_of t)) ` {t. phase_of p t = Running}
     \<and> inj_on (\<lambda>t. mutationLock (key_of t)) {t. phase_of p t = Running}"

lemma fs_step_ok:
  assumes "fs_pool_ok key_of p" and "fs_step key_of p p'"
  shows "fs_pool_ok key_of p'"
  using assms(2)
proof (cases rule: fs_step.cases)
  case (take t)
  have "{u. phase_of p' u = Running} = insert t {u. phase_of p u = Running}"
    using take by auto
  then show ?thesis using assms(1) take by (auto simp: fs_pool_ok_def)
next
  case (release t)
  have "{u. phase_of p' u = Running} = {u. phase_of p u = Running} - {t}"
    using release by auto
  then show ?thesis
    using assms(1) release by (auto simp: fs_pool_ok_def inj_on_def)
qed

lemma fs_reachable_ok: "fs_reachable key_of p \<Longrightarrow> fs_pool_ok key_of p"
proof (induction rule: fs_reachable.induct)
  case (start p)
  then show ?case by (auto simp: started_def fs_pool_ok_def)
qed (rule fs_step_ok)

text \<open>C20 Mutations of one key exclude each other, and the mutexes cannot deadlock: in every reachable
  state of any number of goroutines with any keys, two that run storage operations have
  different keys, at most 64 run at once, and as long as one waits some goroutine can go on. The
  steps are those of the code: \<open>Set\<close> and \<open>Delete\<close> take the mutex of their key, run one storage
  operation and release that mutex, and \<open>Get\<close> takes none.\<close>

theorem fs_mutations_exclusive:
  assumes "fs_reachable key_of p"
  shows "(\<forall>t u. phase_of p t = Running \<longrightarrow> phase_of p u = Running \<longrightarrow> key_of t = key_of u \<longrightarrow> t = u)
     \<and> card {t. phase_of p t = Running} \<le> mutationLockCount
     \<and> ((\<exists>t. phase_of p t = Waiting) \<longrightarrow> (\<exists>p'. fs_step key_of p p'))
     \<and> (\<forall>t ctx c w. let i = mutationLock (key_of t) in
          notes_of (fs_Set (traced k) (unnoted_ctx ctx) (key_of t) c) w \<in> {[], [Took i, Ran, Gave i]}
          \<and> notes_of (fs_Delete (traced k) (unnoted_ctx ctx) (key_of t)) w \<in> {[], [Took i, Ran, Gave i]}
          \<and> notes_of (fs_Get (traced k) (unnoted_ctx ctx) (key_of t)) w \<in> {[], [Ran]})"
proof (intro conjI impI)
  have ok: "fs_pool_ok key_of p" using assms by (rule fs_reachable_ok)
  then show "\<forall>t u. phase_of p t = Running \<longrightarrow> phase_of p u = Running \<longrightarrow> key_of t = key_of u \<longrightarrow> t = u"
    by (auto simp: fs_pool_ok_def inj_on_def)
  have "card (locked p) \<le> card {..<mutationLockCount}"
    using ok mutationLock_bound by (intro card_mono) (auto simp: fs_pool_ok_def)
  then show "card {t. phase_of p t = Running} \<le> mutationLockCount"
    using ok by (simp add: fs_pool_ok_def card_image)
next
  assume "\<exists>t. phase_of p t = Waiting"
  then obtain t where t: "phase_of p t = Waiting" by blast
  show "\<exists>p'. fs_step key_of p p'"
  proof (cases "mutationLock (key_of t) \<in> locked p")
    case True
    then obtain u where "phase_of p u = Running"
      using fs_reachable_ok [OF assms] by (auto simp: fs_pool_ok_def)
    then show ?thesis by (blast intro: fs_step.release)
  next
    case False
    with t show ?thesis by (blast intro: fs_step.take)
  qed
qed (simp only: Let_def mutex_notes simp_thms)

theorem fs_mutations_exclusive_witness:
  "\<exists>p. fs_reachable (\<lambda>_. ''k'') p \<and> phase_of p 0 = Running \<and> phase_of p 1 = Waiting
     \<and> card {t. phase_of p t = Running} \<le> 64"
proof -
  let ?p = "\<lparr>phase_of = (\<lambda>_. Waiting), locked = {}\<rparr>"
  let ?q = "?p\<lparr>phase_of := (\<lambda>_. Waiting)(0 := Running), locked := {mutationLock ''k''}\<rparr>"
  have "fs_reachable (\<lambda>_. ''k'') ?p" by (rule fs_reachable.start) (simp add: started_def)
  moreover have "fs_step (\<lambda>_. ''k'') ?p ?q"
    using fs_step.take [of ?p 0 "\<lambda>_. ''k''"] by simp
  ultimately have r: "fs_reachable (\<lambda>_. ''k'') ?q" by (rule fs_reachable.step)
  moreover have "card {t. phase_of ?q t = Running} \<le> 64"
    using fs_mutations_exclusive [OF r] unfolding mutationLockCount_def by blast
  ultimately show ?thesis by (intro exI [of _ ?q]) auto
qed

section \<open>Every call finishes\<close>

text \<open>
  Goroutines that each run one call of a keyring. What a goroutine does with the mutexes is what
  the recording keyring notes of its call, in the world in which it is made; nothing else is
  assumed of it. A mutex that is taken cannot be taken again, by nobody, until it is given back,
  and giving back one that is free would be a fatal error, so it is not a step. The storage
  operation between is one step: it is taken to return.
\<close>

datatype 'w fs_call =
    Getting "'w ctx option" string
  | Setting "'w ctx option" string bytes
  | Deleting "'w ctx option" string

fun events :: "'w fs_keyring \<Rightarrow> 'w fs_call \<times> 'w \<Rightarrow> mutex_event list" where
  "events k (Getting ctx key, w) = notes_of (fs_Get (traced k) (unnoted_ctx ctx) key) w"
| "events k (Setting ctx key contents, w) = notes_of (fs_Set (traced k) (unnoted_ctx ctx) key contents) w"
| "events k (Deleting ctx key, w) = notes_of (fs_Delete (traced k) (unnoted_ctx ctx) key) w"

record goroutines =
  remaining :: "nat \<Rightarrow> mutex_event list"
  held :: "nat set"

inductive mutex_step :: "goroutines \<Rightarrow> goroutines \<Rightarrow> bool" where
  lock: "remaining s t = Took i # es \<Longrightarrow> i \<notin> held s \<Longrightarrow>
    mutex_step s (s\<lparr>remaining := (remaining s)(t := es), held := insert i (held s)\<rparr>)"
| run: "remaining s t = Ran # es \<Longrightarrow> mutex_step s (s\<lparr>remaining := (remaining s)(t := es)\<rparr>)"
| unlock: "remaining s t = Gave i # es \<Longrightarrow> i \<in> held s \<Longrightarrow>
    mutex_step s (s\<lparr>remaining := (remaining s)(t := es), held := held s - {i}\<rparr>)"

definition launch :: "'w fs_keyring \<Rightarrow> ('w fs_call \<times> 'w) list \<Rightarrow> goroutines" where
  "launch k calls = \<lparr>remaining = (\<lambda>t. if t < length calls then events k (calls ! t) else []), held = {}\<rparr>"

text \<open>What is left of a call, and the mutex it holds.\<close>

definition holding :: "mutex_event list \<Rightarrow> nat \<Rightarrow> bool" where
  "holding es i \<longleftrightarrow> es = [Ran, Gave i] \<or> es = [Gave i]"

definition call_rest :: "mutex_event list \<Rightarrow> bool" where
  "call_rest es \<longleftrightarrow> es = [] \<or> es = [Ran] \<or> (\<exists>i. es = [Took i, Ran, Gave i] \<or> holding es i)"

lemma events_rest: "call_rest (events k c) \<and> (\<forall>i. \<not> holding (events k c) i)"
proof (cases "(k, c)" rule: events.cases)
  case (1 k' ctx key w)
  then show ?thesis using mutex_notes(1) [of k ctx key w] by (auto simp: call_rest_def holding_def)
next
  case (2 k' ctx key contents w)
  then show ?thesis using mutex_notes(2) [of k ctx key contents w] by (auto simp: call_rest_def holding_def)
next
  case (3 k' ctx key w)
  then show ?thesis using mutex_notes(3) [of k ctx key w] by (auto simp: call_rest_def holding_def)
qed

text \<open>The mutexes that are held are those of the calls that hold one, and each has one holder.\<close>

definition held_ok :: "goroutines \<Rightarrow> bool" where
  "held_ok s \<longleftrightarrow> (\<forall>t. call_rest (remaining s t)) \<and> (\<forall>i. i \<in> held s \<longleftrightarrow> (\<exists>t. holding (remaining s t) i))
     \<and> (\<forall>t u i. holding (remaining s t) i \<longrightarrow> holding (remaining s u) i \<longrightarrow> t = u)"

lemma launch_ok: "held_ok (launch k calls)"
proof -
  have "call_rest (remaining (launch k calls) t) \<and> (\<forall>i. \<not> holding (remaining (launch k calls) t) i)" for t
    using events_rest [of k "calls ! t"] by (cases "t < length calls") (simp add: launch_def, simp add: launch_def call_rest_def holding_def)
  then show ?thesis unfolding held_ok_def by (simp add: launch_def)
qed

lemma mutex_step_ok:
  assumes "mutex_step s s'" and "held_ok s"
  shows "held_ok s'"
  using assms(1)
proof (cases rule: mutex_step.cases)
  case (lock t i es)
  have "call_rest (Took i # es)" using assms(2) lock(2) unfolding held_ok_def by metis
  then have r: "es = [Ran, Gave i]" by (simp add: call_rest_def holding_def)
  have n: "\<not> holding (remaining s u) i" for u using assms(2) lock(3) by (auto simp: held_ok_def)
  have h: "holding (remaining s' u) j \<longleftrightarrow> (if u = t then j = i else holding (remaining s u) j)" for u j
    unfolding lock(1) r by (auto simp: holding_def)
  have t: "\<not> holding (remaining s t) j" for j using lock(2) by (simp add: holding_def)
  have "j \<in> held s' \<longleftrightarrow> (\<exists>u. holding (remaining s' u) j)" for j
  proof -
    have "j \<in> held s' \<longleftrightarrow> j = i \<or> (\<exists>u. holding (remaining s u) j)"
      using assms(2) by (simp add: lock(1) held_ok_def)
    also have "\<dots> \<longleftrightarrow> (\<exists>u. if u = t then j = i else holding (remaining s u) j)" using t by metis
    finally show ?thesis unfolding h .
  qed
  moreover have "call_rest (remaining s' u)" for u
    using assms(2) by (auto simp: lock(1) r held_ok_def call_rest_def holding_def)
  ultimately show ?thesis using assms(2) n unfolding held_ok_def h by auto
next
  case (run t es)
  have "call_rest (Ran # es)" using assms(2) run(2) unfolding held_ok_def by metis
  then have r: "es = [] \<or> (\<exists>i. es = [Gave i])" by (auto simp: call_rest_def holding_def)
  then have h: "holding (remaining s' u) j \<longleftrightarrow> holding (remaining s u) j" for u j
    using run by (cases "u = t") (auto simp: holding_def)
  have "call_rest es" using r by (auto simp: call_rest_def holding_def)
  then have "call_rest (remaining s' u)" for u
    using assms(2) by (cases "u = t") (simp_all add: run(1) held_ok_def)
  then show ?thesis using assms(2) unfolding held_ok_def h by (simp add: run(1))
next
  case (unlock t i es)
  have "call_rest (Gave i # es)" using assms(2) unlock(2) unfolding held_ok_def by metis
  then have r: "es = []" by (simp add: call_rest_def holding_def)
  have t: "holding (remaining s t) j \<longleftrightarrow> j = i" for j using unlock(2) r by (auto simp: holding_def)
  then have only: "holding (remaining s u) i \<Longrightarrow> u = t" for u using assms(2) unfolding held_ok_def by blast
  have h: "holding (remaining s' u) j \<longleftrightarrow> u \<noteq> t \<and> holding (remaining s u) j" for u j
    unfolding unlock(1) r by (simp add: holding_def)
  have "j \<in> held s' \<longleftrightarrow> (\<exists>u. holding (remaining s' u) j)" for j
  proof -
    have "j \<in> held s' \<longleftrightarrow> j \<noteq> i \<and> (\<exists>u. holding (remaining s u) j)"
      using assms(2) by (auto simp: unlock(1) held_ok_def)
    also have "\<dots> \<longleftrightarrow> (\<exists>u. u \<noteq> t \<and> holding (remaining s u) j)" using t only by metis
    finally show ?thesis unfolding h .
  qed
  moreover have "call_rest (remaining s' u)" for u
    using assms(2) by (auto simp: unlock(1) r held_ok_def call_rest_def)
  ultimately show ?thesis using assms(2) unfolding held_ok_def h by auto
qed

text \<open>Some goroutine has a step as long as one has something left.\<close>

lemma mutex_progress:
  assumes "held_ok s" and "remaining s t \<noteq> []"
  shows "\<exists>r. mutex_step s r"
proof -
  have free: "\<exists>r. mutex_step s r" if "holding (remaining s u) i" for u i
  proof -
    have "i \<in> held s" using assms(1) that by (auto simp: held_ok_def)
    with that mutex_step.run [of s u] mutex_step.unlock [of s u i] show ?thesis by (auto simp: holding_def)
  qed
  consider "remaining s t = [Ran]" | i where "remaining s t = [Took i, Ran, Gave i]"
    | i where "holding (remaining s t) i"
    using assms unfolding held_ok_def call_rest_def by blast
  then show ?thesis
  proof cases
    case (2 i)
    show ?thesis
    proof (cases "i \<in> held s")
      case True
      then obtain u where "holding (remaining s u) i" using assms(1) by (auto simp: held_ok_def)
      then show ?thesis by (rule free)
    next
      case False
      with 2 show ?thesis by (blast intro: mutex_step.lock)
    qed
  qed (blast intro: mutex_step.run free)+
qed

text \<open>Each step is one event of one goroutine.\<close>

definition left_over :: "nat \<Rightarrow> goroutines \<Rightarrow> nat" where
  "left_over n s = (\<Sum>t<n. length (remaining s t))"

lemma mutex_step_one:
  assumes "mutex_step s s'" and "\<forall>t \<ge> n. remaining s t = []"
  shows "Suc (left_over n s') = left_over n s \<and> (\<forall>t \<ge> n. remaining s' t = [])"
proof -
  obtain t e es where t: "remaining s t = e # es" "remaining s' = (remaining s)(t := es)"
    using assms(1) by (cases rule: mutex_step.cases) auto
  then have "t < n" using assms(2) by (metis list.discI not_le)
  then have "left_over n s = length (remaining s t) + (\<Sum>u \<in> {..<n} - {t}. length (remaining s u))"
    "left_over n s' = length (remaining s' t) + (\<Sum>u \<in> {..<n} - {t}. length (remaining s' u))"
    unfolding left_over_def by (auto intro: sum.remove)
  moreover have "(\<Sum>u \<in> {..<n} - {t}. length (remaining s' u)) = (\<Sum>u \<in> {..<n} - {t}. length (remaining s u))"
    by (rule sum.cong) (simp_all add: t(2))
  ultimately show ?thesis using t assms(2) \<open>t < n\<close> by auto
qed

lemma mutex_steps:
  assumes "(mutex_step ^^ n) (launch k calls) q"
  shows "held_ok q \<and> n + left_over (length calls) q = left_over (length calls) (launch k calls)
     \<and> (\<forall>t \<ge> length calls. remaining q t = [])"
  using assms
proof (induction n arbitrary: q)
  case 0
  then show ?case using launch_ok [of k calls] by (auto simp: launch_def)
next
  case (Suc n)
  then obtain s where s: "(mutex_step ^^ n) (launch k calls) s" "mutex_step s q" by auto
  with Suc.IH [OF s(1)] mutex_step_ok [OF s(2)] mutex_step_one [OF s(2), of "length calls"] show ?case by auto
qed



end
