(* ===== verification/Selection.thy ===== *)
theory Selection
  imports Contract
begin

text \<open>
  \<open>internal/selection\<close>: trying backends in order. An opener is an action that returns a
  keyring and its description or an error; the registry is a map from backends to openers.
\<close>

type_synonym ('w, 'k) opener = "'w ctx option \<Rightarrow> ('w, go_error + 'k \<times> info) state"

definition selectionError :: "rejection list \<Rightarrow> go_error \<Rightarrow> go_error" where
  "selectionError rejected cause = SelectionErr rejected (Some cause)"

text \<open>The error of a backend the registry does not know.\<close>

definition unsupported_backend :: go_error where
  "unsupported_backend = Errorf ''%w: backend %q'' [Category ErrUnsupported]"

text \<open>Only these errors let discovery go on with the next candidate.\<close>

definition permits_fallback :: "go_error \<Rightarrow> bool" where
  "permits_fallback e \<longleftrightarrow>
     err_is e (Category ErrBackendUnavailable) \<or> err_is e (Category ErrUnsupported)"

fun select_loop ::
  "'w ctx option \<Rightarrow> backend list \<Rightarrow> (backend \<rightharpoonup> ('w, 'k) opener) \<Rightarrow> rejection list
     \<Rightarrow> ('w, go_error + 'k \<times> info) state" where
  "select_loop ctx [] registry rejected =
     ret (Inl (selectionError rejected (Category ErrBackendUnavailable)))"
| "select_loop ctx (backend # order) registry rejected = do {
     cerr \<leftarrow> ContextError ctx;
     (case cerr of
        Some err \<Rightarrow> ret (Inl (selectionError rejected err))
      | None \<Rightarrow>
         (case registry backend of
            None \<Rightarrow>
              select_loop ctx order registry (rejected @ [(backend, Some unsupported_backend)])
          | Some opener \<Rightarrow> do {
              r \<leftarrow> opener ctx;
              (case r of
                 Inr (keyring, info) \<Rightarrow>
                   ret (Inr (keyring, info\<lparr>Fallback := Fallback info \<or> rejected \<noteq> [],
                                          Rejected := rejected\<rparr>))
               | Inl err \<Rightarrow>
                   (if \<not> permits_fallback err
                    then ret (Inl (selectionError (rejected @ [(backend, Some err)]) err))
                    else select_loop ctx order registry (rejected @ [(backend, Some err)])))
            }))
   }"

definition SelectBackend ::
  "'w ctx option \<Rightarrow> backend list \<Rightarrow> (backend \<rightharpoonup> ('w, 'k) opener)
     \<Rightarrow> ('w, go_error + 'k \<times> info) state" where
  "SelectBackend ctx order registry = select_loop ctx order registry []"

section \<open>What one attempt does\<close>

text \<open>
  The outcome of one candidate, apart from the loop: the context is done, the candidate is
  skipped with an error, it ends the selection with an error, or it is selected.
\<close>

datatype 'k attempt =
    Done go_error
  | Skipped go_error
  | Terminal go_error
  | Selected 'k info

definition attempt ::
  "'w ctx option \<Rightarrow> (backend \<rightharpoonup> ('w, 'k) opener) \<Rightarrow> backend \<Rightarrow> ('w, 'k attempt) state" where
  "attempt ctx registry backend = do {
     cerr \<leftarrow> ContextError ctx;
     (case cerr of
        Some err \<Rightarrow> ret (Done err)
      | None \<Rightarrow>
         (case registry backend of
            None \<Rightarrow> ret (Skipped unsupported_backend)
          | Some opener \<Rightarrow> do {
              r \<leftarrow> opener ctx;
              ret (case r of
                 Inr (keyring, info) \<Rightarrow> Selected keyring info
               | Inl err \<Rightarrow> (if permits_fallback err then Skipped err else Terminal err))
            }))
   }"

lemma select_loop_attempt:
  "run_state (select_loop ctx (backend # order) registry rejected) w =
     (case run_state (attempt ctx registry backend) w of
        (Done err, w') \<Rightarrow> (Inl (selectionError rejected err), w')
      | (Skipped err, w') \<Rightarrow>
          run_state (select_loop ctx order registry (rejected @ [(backend, Some err)])) w'
      | (Terminal err, w') \<Rightarrow>
          (Inl (selectionError (rejected @ [(backend, Some err)]) err), w')
      | (Selected keyring info, w') \<Rightarrow>
          (Inr (keyring, info\<lparr>Fallback := Fallback info \<or> rejected \<noteq> [],
                             Rejected := rejected\<rparr>), w'))"
  by (auto simp: attempt_def split: prod.splits option.splits sum.splits)

declare select_loop.simps(2) [simp del]

lemma permits_fallback_unsupported [simp]: "permits_fallback unsupported_backend"
  by (simp add: permits_fallback_def unsupported_backend_def)

lemma attempt_Skipped:
  "run_state (attempt ctx registry backend) w = (Skipped err, w') \<Longrightarrow> permits_fallback err"
  by (auto simp: attempt_def split: prod.splits option.splits sum.splits if_splits)

lemma attempt_Terminal:
  "run_state (attempt ctx registry backend) w = (Terminal err, w') \<Longrightarrow> \<not> permits_fallback err"
  by (auto simp: attempt_def split: prod.splits option.splits sum.splits if_splits)

text \<open>
  A run of attempts that all skip: the trace of worlds of a prefix of the order, with the
  rejections it leaves.
\<close>

inductive skips ::
  "'w ctx option \<Rightarrow> (backend \<rightharpoonup> ('w, 'k) opener) \<Rightarrow> 'w \<Rightarrow> rejection list \<Rightarrow> 'w \<Rightarrow> bool"
  for ctx registry where
  skips_nil: "skips ctx registry w [] w"
| skips_cons: "run_state (attempt ctx registry b) w = (Skipped e, w') \<Longrightarrow>
     skips ctx registry w' rej w'' \<Longrightarrow> skips ctx registry w ((b, Some e) # rej) w''"

inductive_cases skips_nilE: "skips ctx registry w [] w'"
inductive_simps skips_Nil [simp]: "skips ctx registry w [] w'"
inductive_simps skips_Cons: "skips ctx registry w (r # rej) w'"

lemma skips_permit:
  "skips ctx registry w rej w' \<Longrightarrow> (b, x) \<in> set rej \<Longrightarrow> \<exists>e. x = Some e \<and> permits_fallback e"
  by (induction rule: skips.induct) (auto dest: attempt_Skipped)

text \<open>A skipped candidate that the registry has was really tried: its opener ran and gave the error.\<close>

lemma skips_tried:
  "skips ctx registry w rej w' \<Longrightarrow> (b, x) \<in> set rej \<Longrightarrow> registry b = Some opener \<Longrightarrow>
     \<exists>e v v'. x = Some e \<and> permits_fallback e \<and> run_state (opener ctx) v = (Inl e, v')"
proof (induction rule: skips.induct)
  case (skips_cons b' w e w' rej w'')
  show ?case
  proof (cases "b = b' \<and> x = Some e")
    case True
    with skips_cons.hyps(1) skips_cons.prems(2) show ?thesis
      by (fastforce simp: attempt_def split: prod.splits option.splits sum.splits if_splits)
  next
    case False
    with skips_cons show ?thesis by auto
  qed
qed simp

text \<open>The loop after a run of skips is the loop on the rest of the order.\<close>

lemma select_loop_skips:
  "skips ctx registry w rej w' \<Longrightarrow>
     run_state (select_loop ctx (map fst rej @ order) registry rejected) w =
     run_state (select_loop ctx order registry (rejected @ rej)) w'"
  by (induction arbitrary: rejected rule: skips.induct)
     (simp_all add: select_loop_attempt)

text \<open>
  Every run of the loop is a run of skips followed by one of four ends: the order is
  exhausted, the context is done, a candidate fails terminally, or one is selected.
\<close>

lemma select_loop_cases:
  obtains (exhausted) rej w' where
      "skips ctx registry w rej w'" "order = map fst rej"
      "run_state (select_loop ctx order registry rejected) w =
         (Inl (selectionError (rejected @ rej) (Category ErrBackendUnavailable)), w')"
  | (stopped) rej w1 b post err w' where
      "skips ctx registry w rej w1" "order = map fst rej @ b # post"
      "run_state (attempt ctx registry b) w1 = (Done err, w')"
      "run_state (select_loop ctx order registry rejected) w =
         (Inl (selectionError (rejected @ rej) err), w')"
  | (terminal) rej w1 b post err w' where
      "skips ctx registry w rej w1" "order = map fst rej @ b # post"
      "run_state (attempt ctx registry b) w1 = (Terminal err, w')"
      "run_state (select_loop ctx order registry rejected) w =
         (Inl (selectionError (rejected @ rej @ [(b, Some err)]) err), w')"
  | (selected) rej w1 b post keyring info w' where
      "skips ctx registry w rej w1" "order = map fst rej @ b # post"
      "run_state (attempt ctx registry b) w1 = (Selected keyring info, w')"
      "run_state (select_loop ctx order registry rejected) w =
         (Inr (keyring, info\<lparr>Fallback := Fallback info \<or> rejected @ rej \<noteq> [],
                            Rejected := rejected @ rej\<rparr>), w')"
proof (induction order arbitrary: w rejected thesis)
  case Nil
  show ?case by (rule Nil(1) [OF skips_nil]) simp_all
next
  case (Cons b order)
  obtain a w' where run: "run_state (attempt ctx registry b) w = (a, w')"
    by (cases "run_state (attempt ctx registry b) w") auto
  show ?case
  proof (cases a)
    case (Done err)
    with run show ?thesis
      by (intro Cons.prems(2) [OF skips_nil, of b order err w']) (simp_all add: select_loop_attempt)
  next
    case (Terminal err)
    with run show ?thesis
      by (intro Cons.prems(3) [OF skips_nil, of b order err w']) (simp_all add: select_loop_attempt)
  next
    case (Selected k i)
    with run show ?thesis
      by (intro Cons.prems(4) [OF skips_nil, of b order k i w']) (simp_all add: select_loop_attempt)
  next
    case (Skipped e)
    note sk = run [unfolded Skipped]
    have step: "run_state (select_loop ctx (b # order) registry rejected) w =
        run_state (select_loop ctx order registry (rejected @ [(b, Some e)])) w'"
      using sk by (simp add: select_loop_attempt)
    note ext = skips_cons [OF sk]
    show ?thesis
    proof (rule Cons.IH [of w' "rejected @ [(b, Some e)]"])
      fix rej w''
      assume "skips ctx registry w' rej w''" "order = map fst rej"
        "run_state (select_loop ctx order registry (rejected @ [(b, Some e)])) w' =
           (Inl (selectionError ((rejected @ [(b, Some e)]) @ rej) (Category ErrBackendUnavailable)), w'')"
      then show ?thesis
        using step by (intro Cons.prems(1) [OF ext]) simp_all
    next
      fix rej w1 b' post err w''
      assume "skips ctx registry w' rej w1" "order = map fst rej @ b' # post"
        "run_state (attempt ctx registry b') w1 = (Done err, w'')"
        "run_state (select_loop ctx order registry (rejected @ [(b, Some e)])) w' =
           (Inl (selectionError ((rejected @ [(b, Some e)]) @ rej) err), w'')"
      then show ?thesis
        using step by (intro Cons.prems(2) [OF ext]) simp_all
    next
      fix rej w1 b' post err w''
      assume "skips ctx registry w' rej w1" "order = map fst rej @ b' # post"
        "run_state (attempt ctx registry b') w1 = (Terminal err, w'')"
        "run_state (select_loop ctx order registry (rejected @ [(b, Some e)])) w' =
           (Inl (selectionError ((rejected @ [(b, Some e)]) @ rej @ [(b', Some err)]) err), w'')"
      then show ?thesis
        using step by (intro Cons.prems(3) [OF ext]) simp_all
    next
      fix rej w1 b' post k i w''
      assume "skips ctx registry w' rej w1" "order = map fst rej @ b' # post"
        "run_state (attempt ctx registry b') w1 = (Selected k i, w'')"
        "run_state (select_loop ctx order registry (rejected @ [(b, Some e)])) w' =
           (Inr (k, i\<lparr>Fallback := Fallback i \<or> (rejected @ [(b, Some e)]) @ rej \<noteq> [],
              Rejected := (rejected @ [(b, Some e)]) @ rej\<rparr>), w'')"
      then show ?thesis
        using step by (intro Cons.prems(4) [OF ext]) simp_all
    qed
  qed
qed

text \<open>What a selection that succeeded, or failed, has tried.\<close>

lemma select_selected:
  assumes "run_state (SelectBackend ctx order registry) w = (Inr (keyring, desc), w')"
  shows "\<exists>b post opener w1 i.
     order = map fst (Rejected desc) @ b # post
     \<and> (\<forall>(b', x) \<in> set (Rejected desc). \<exists>e. x = Some e \<and> permits_fallback e)
     \<and> registry b = Some opener
     \<and> run_state (opener ctx) w1 = (Inr (keyring, i), w')
     \<and> desc = i\<lparr>Fallback := Fallback i \<or> Rejected desc \<noteq> [], Rejected := Rejected desc\<rparr>"
  using assms unfolding SelectBackend_def
proof (cases rule: select_loop_cases [of ctx registry w order "[]"])
  case (selected rej w1 b post k i w2)
  from selected(3) obtain opener w0 where
    "registry b = Some opener" "run_state (opener ctx) w0 = (Inr (k, i), w2)"
    by (auto simp: attempt_def split: prod.splits option.splits sum.splits if_splits)
  moreover have "\<forall>(b', x) \<in> set rej. \<exists>e. x = Some e \<and> permits_fallback e"
    using skips_permit [OF selected(1)] by auto
  ultimately show ?thesis using selected(2,4) assms by (fastforce simp: SelectBackend_def)
qed (use assms in \<open>auto simp: SelectBackend_def\<close>)

lemma select_tried:
  assumes "run_state (SelectBackend ctx order registry) w = (Inr (keyring, desc), w')"
    and "(b, x) \<in> set (Rejected desc)" and "registry b = Some opener"
  shows "\<exists>e v v'. x = Some e \<and> permits_fallback e \<and> run_state (opener ctx) v = (Inl e, v')"
  using assms(1) unfolding SelectBackend_def
proof (cases rule: select_loop_cases [of ctx registry w order "[]"])
  case (selected rej w1 b' post k i w2)
  then have "Rejected desc = rej" using assms(1) by (auto simp: SelectBackend_def)
  with skips_tried [OF selected(1)] assms(2,3) show ?thesis by blast
qed (use assms(1) in \<open>auto simp: SelectBackend_def\<close>)

lemma select_failed:
  assumes "run_state (SelectBackend ctx order registry) w = (Inl err, w')"
  shows "\<exists>rej cause. err = SelectionErr rej (Some cause) \<and> prefix (map fst rej) order \<and>
    ((cause = Category ErrBackendUnavailable \<and> map fst rej = order
        \<and> (\<forall>(b, x) \<in> set rej. \<exists>e. x = Some e \<and> permits_fallback e))
     \<or> (\<exists>rej' b. rej = rej' @ [(b, Some cause)] \<and> \<not> permits_fallback cause
        \<and> (\<forall>(b, x) \<in> set rej'. \<exists>e. x = Some e \<and> permits_fallback e))
     \<or> (map fst rej \<noteq> order \<and> (\<exists>w1. run_state (ContextError ctx) w1 = (Some cause, w'))
        \<and> (\<forall>(b, x) \<in> set rej. \<exists>e. x = Some e \<and> permits_fallback e)))"
  using assms unfolding SelectBackend_def
proof (cases rule: select_loop_cases [of ctx registry w order "[]"])
  case (exhausted rej w2)
  have "\<forall>(b, x) \<in> set rej. \<exists>e. x = Some e \<and> permits_fallback e"
    using skips_permit [OF exhausted(1)] by auto
  with exhausted assms show ?thesis by (auto simp: SelectBackend_def selectionError_def)
next
  case (stopped rej w1 b post e w2)
  have "\<forall>(b, x) \<in> set rej. \<exists>e. x = Some e \<and> permits_fallback e"
    using skips_permit [OF stopped(1)] by auto
  moreover have "\<exists>w1. run_state (ContextError ctx) w1 = (Some e, w2)"
    using stopped(3)
    by (auto simp: attempt_def split: prod.splits option.splits sum.splits if_splits)
  ultimately show ?thesis using stopped(2,4) assms
    by (intro exI [of _ rej] exI [of _ e]) (auto simp: SelectBackend_def selectionError_def)
next
  case (terminal rej w1 b post e w2)
  have "\<forall>(b, x) \<in> set rej. \<exists>e. x = Some e \<and> permits_fallback e"
    using skips_permit [OF terminal(1)] by auto
  with terminal(2,4) assms attempt_Terminal [OF terminal(3)] show ?thesis
    by (intro exI [of _ "rej @ [(b, Some e)]"] exI [of _ e])
       (auto simp: SelectBackend_def selectionError_def)
qed (use assms in \<open>auto simp: SelectBackend_def\<close>)

section \<open>Properties\<close>

text \<open>C19 \<open>SelectBackend\<close> returns a keyring only from the first candidate that opens: the order
  splits into the rejected candidates, the selected one and a rest that was never tried;
  every rejection is an unavailable or unsupported backend; the keyring and its description
  are those of the selected backend's opener, with \<open>Rejected\<close> recording the candidates before
  it and \<open>Fallback\<close> set when there were any. A failed selection is always a \<open>SelectionError\<close>
  whose rejections are a prefix of the order, in order, and whose cause is one of three:
  \<open>ErrBackendUnavailable\<close> when every candidate was rejected and all rejections permit fallback;
  the error of the last candidate tried, which does not permit fallback; or the context's
  error, before the next candidate.\<close>

theorem SelectBackend_outcome:
  assumes "run_state (SelectBackend ctx order registry) w = (r, w')"
  shows "case r of
     Inr (keyring, desc) \<Rightarrow>
       (\<exists>b post opener w1 i.
          order = map fst (Rejected desc) @ b # post
          \<and> (\<forall>(b', x) \<in> set (Rejected desc). \<exists>e. x = Some e \<and> permits_fallback e)
          \<and> registry b = Some opener
          \<and> run_state (opener ctx) w1 = (Inr (keyring, i), w')
          \<and> desc = i\<lparr>Fallback := Fallback i \<or> Rejected desc \<noteq> [], Rejected := Rejected desc\<rparr>)
   | Inl err \<Rightarrow>
       (\<exists>rej cause. err = SelectionErr rej (Some cause) \<and> prefix (map fst rej) order \<and>
          ((cause = Category ErrBackendUnavailable \<and> map fst rej = order
              \<and> (\<forall>(b, x) \<in> set rej. \<exists>e. x = Some e \<and> permits_fallback e))
           \<or> (\<exists>rej' b. rej = rej' @ [(b, Some cause)] \<and> \<not> permits_fallback cause
              \<and> (\<forall>(b, x) \<in> set rej'. \<exists>e. x = Some e \<and> permits_fallback e))
           \<or> (map fst rej \<noteq> order \<and> (\<exists>w1. run_state (ContextError ctx) w1 = (Some cause, w'))
              \<and> (\<forall>(b, x) \<in> set rej. \<exists>e. x = Some e \<and> permits_fallback e))))"
proof (cases r)
  case (Inl err)
  show ?thesis unfolding Inl sum.case using assms unfolding Inl by (rule select_failed)
next
  case (Inr x)
  obtain keyring desc where x: "x = (keyring, desc)" by fastforce
  show ?thesis unfolding Inr x sum.case prod.case using assms unfolding Inr x by (rule select_selected)
qed

text \<open>C6 No silent downgrade: when a candidate fails with an error that is neither unavailable
  nor unsupported (locked, denied, timed out, interaction required, unexpected), selection
  ends there with that error as the cause, whatever candidates follow.\<close>

theorem SelectBackend_no_downgrade:
  assumes "skips ctx registry w rej w1"
    and "run_state (attempt ctx registry b) w1 = (Terminal err, w')"
  shows "run_state (SelectBackend ctx (map fst rej @ b # post) registry) w =
     (Inl (SelectionErr (rej @ [(b, Some err)]) (Some err)), w')
     \<and> \<not> err_is err (Category ErrBackendUnavailable) \<and> \<not> err_is err (Category ErrUnsupported)"
  using assms(2) attempt_Terminal [OF assms(2)]
  by (simp add: SelectBackend_def select_loop_skips [OF assms(1)] select_loop_attempt
      selectionError_def permits_fallback_def)

text \<open>A registry whose first backend is unavailable and whose second is locked.\<close>

definition demo_registry :: "backend \<rightharpoonup> (unit, nat) opener" where
  "demo_registry = [''a'' \<mapsto> (\<lambda>_. ret (Inl (Errorf ''%w'' [Category ErrBackendUnavailable]))),
     ''b'' \<mapsto> (\<lambda>_. ret (Inl (Category ErrBackendLocked))),
     ''c'' \<mapsto> (\<lambda>_. ret (Inr (7, \<lparr>Backend = ''c'', Persistence = PersistenceSession,
        Host = HostCurrent, Interaction = InteractionNone, Fallback = False, Rejected = []\<rparr>)))]"

theorem SelectBackend_outcome_witness:
  "(\<exists>b post opener w1 i.
     [''a'', ''c'', ''b''] = [''a''] @ b # post \<and> demo_registry b = Some opener
     \<and> run_state (opener Background) w1 = (Inr (7, i), ()))
   \<and> (\<exists>rej. prefix (map fst rej) [''a'', ''b'', ''c'']
     \<and> rej = [(''a'', Some (Errorf ''%w'' [Category ErrBackendUnavailable])), (''b'', Some (Category ErrBackendLocked))])"
proof -
  have "run_state (SelectBackend Background [''a'', ''c'', ''b''] demo_registry) () =
     (Inr (7, \<lparr>Backend = ''c'', Persistence = PersistenceSession, Host = HostCurrent,
        Interaction = InteractionNone, Fallback = True,
        Rejected = [(''a'', Some (Errorf ''%w'' [Category ErrBackendUnavailable]))]\<rparr>), ())"
    by (simp add: SelectBackend_def select_loop_attempt attempt_def demo_registry_def
        permits_fallback_def)
  moreover have "run_state (SelectBackend Background [''a'', ''b'', ''c''] demo_registry) () =
     (Inl (SelectionErr [(''a'', Some (Errorf ''%w'' [Category ErrBackendUnavailable])),
        (''b'', Some (Category ErrBackendLocked))] (Some (Category ErrBackendLocked))), ())"
    by (simp add: SelectBackend_def select_loop_attempt attempt_def demo_registry_def
        permits_fallback_def selectionError_def)
  ultimately show ?thesis using SelectBackend_outcome by fastforce
qed

theorem SelectBackend_no_downgrade_witness:
  "run_state (SelectBackend Background [''a'', ''b'', ''c''] demo_registry) () =
     (Inl (SelectionErr [(''a'', Some (Errorf ''%w'' [Category ErrBackendUnavailable])),
        (''b'', Some (Category ErrBackendLocked))] (Some (Category ErrBackendLocked))), ())"
proof -
  have "skips Background demo_registry ()
      [(''a'', Some (Errorf ''%w'' [Category ErrBackendUnavailable]))] ()"
    by (rule skips_cons [OF _ skips_nil])
       (simp add: attempt_def demo_registry_def permits_fallback_def)
  moreover have "run_state (attempt Background demo_registry ''b'') () =
      (Terminal (Category ErrBackendLocked), ())"
    by (simp add: attempt_def demo_registry_def permits_fallback_def)
  ultimately show ?thesis
    using SelectBackend_no_downgrade [of Background demo_registry "()" _ "()" "''b''" _ "()" "[''c'']"]
    by fastforce
qed

end
