(* ===== verification/Open.thy ===== *)
theory Open
  imports Native Fs_Keyring Selection
begin

text \<open>
  The root package: \<open>types.go\<close>, \<open>keyring.go\<close> and the four files that describe the native
  backend of a target (\<open>keyring_unix.go\<close>, \<open>keyring_darwin.go\<close>, \<open>keyring_windows.go\<close>,
  \<open>keyring_fallback.go\<close>). \<open>Open\<close> merges its options, then selects among the native backend and
  the filesystem one; the operations of the keyring it returns go to the adapters below.
\<close>

section \<open>Options\<close>

record 'w open_option =
  op_Service :: string
  op_Keyringer :: "'w keyringer option"
  op_FallbackDir :: string
  op_Backends :: "backend list"

text \<open>The options are pointers; a nil one is dereferenced.\<close>

definition nil_dereference :: go_error where
  "nil_dereference = GoPanic ''invalid memory address or nil pointer dereference''"

fun merge_loop :: "'w open_option option list \<Rightarrow> 'w open_option \<Rightarrow> go_error + 'w open_option" where
  "merge_loop [] merged = Inr merged"
| "merge_loop (None # options) merged = Inl nil_dereference"
| "merge_loop (Some opt # options) merged =
     merge_loop options
       \<lparr>op_Service = (if op_Service opt \<noteq> '''' then op_Service opt else op_Service merged),
        op_Keyringer = (if op_Keyringer opt \<noteq> None then op_Keyringer opt else op_Keyringer merged),
        op_FallbackDir = (if op_FallbackDir opt \<noteq> '''' then op_FallbackDir opt else op_FallbackDir merged),
        op_Backends = (if length (op_Backends opt) \<noteq> 0 then op_Backends opt else op_Backends merged)\<rparr>"

definition mergeOptions :: "'w open_option option list \<Rightarrow> go_error + 'w open_option" where
  "mergeOptions options =
     merge_loop options \<lparr>op_Service = '''', op_Keyringer = None, op_FallbackDir = '''', op_Backends = []\<rparr>"

section \<open>The platform\<close>

text \<open>What a call of \<open>Open\<close> meets outside the repository.\<close>

record 'w root_world =
  rw_os :: goos
  rw_native :: "'w native_world"
  rw_absolutePath :: "string \<Rightarrow> ('w, go_error + string) state"
  rw_euid :: "32 word"
  rw_linux :: "'w linux_system"
  rw_random :: "nat \<Rightarrow> ('w, go_error + bytes) state"
  rw_room :: "nat \<Rightarrow> nat"
  rw_fuel :: nat
  rw_Lock :: "nat \<Rightarrow> ('w, unit) state"
  rw_Unlock :: "nat \<Rightarrow> ('w, unit) state"

text \<open>\<open>nativeBackendInfo\<close> and \<open>probeNativeBackend\<close> of the four files, one per class of targets.\<close>

definition unix_nativeBackendInfo :: info where [simp]:
  "unix_nativeBackendInfo = \<lparr>Backend = BackendSecretService, Persistence = PersistencePersistent,
     Host = HostCurrent, Interaction = InteractionPossible, Fallback = False, Rejected = []\<rparr>"

definition darwin_nativeBackendInfo :: info where [simp]:
  "darwin_nativeBackendInfo = \<lparr>Backend = BackendKeychain, Persistence = PersistencePersistent,
     Host = HostCurrent, Interaction = InteractionPossible, Fallback = False, Rejected = []\<rparr>"

definition windows_nativeBackendInfo :: info where [simp]:
  "windows_nativeBackendInfo = \<lparr>Backend = BackendWindowsCredentialManager, Persistence = PersistencePersistent,
     Host = HostCurrent, Interaction = InteractionNone, Fallback = False, Rejected = []\<rparr>"

definition fallback_nativeBackendInfo :: info where [simp]:
  "fallback_nativeBackendInfo = \<lparr>Backend = BackendCustom, Persistence = PersistenceUnknown,
     Host = HostCurrent, Interaction = InteractionUnknown, Fallback = False, Rejected = []\<rparr>"

definition root_nativeBackendInfo :: "goos \<Rightarrow> info" where
  "root_nativeBackendInfo os =
     (case os of
        Linux \<Rightarrow> unix_nativeBackendInfo
      | Other_unix \<Rightarrow> unix_nativeBackendInfo
      | MacOS \<Rightarrow> darwin_nativeBackendInfo
      | Windows_NT \<Rightarrow> windows_nativeBackendInfo
      | Other_target \<Rightarrow> fallback_nativeBackendInfo)"

definition root_nativeBackendSupported :: "goos \<Rightarrow> bool" where
  "root_nativeBackendSupported os = (os \<noteq> Other_target)"

definition fallback_probeNativeBackend :: "'w ctx option \<Rightarrow> ('w, go_error option) state" where
  "fallback_probeNativeBackend ctx =
     ret (Some (Errorf ''%w: native credential backend'' [Category ErrUnsupported]))"

definition root_probeNativeBackend :: "'w root_world \<Rightarrow> 'w ctx option \<Rightarrow> ('w, go_error option) state" where
  "root_probeNativeBackend rw ctx =
     (case rw_os rw of
        Linux \<Rightarrow> dbus_Probe (nw_WithTimeout (rw_native rw)) (nw_bus (rw_native rw)) ctx
      | Other_unix \<Rightarrow> dbus_Probe (nw_WithTimeout (rw_native rw)) (nw_bus (rw_native rw)) ctx
      | MacOS \<Rightarrow> ret None
      | Windows_NT \<Rightarrow> ret None
      | Other_target \<Rightarrow> fallback_probeNativeBackend ctx)"

text \<open>\<open>Open\<close> of \<open>internal/backend/fs\<close>, with the storage of the target.\<close>

definition fs_backend_Open :: "'w root_world \<Rightarrow> string \<Rightarrow> string \<Rightarrow> ('w, go_error + 'w fs_keyring) state" where
  "fs_backend_Open rw rootDir service =
     openKeyring rootDir service (rw_absolutePath rw)
       (if rw_os rw = Linux
        then openStorage_linux (rw_euid rw) (rw_linux rw) (rw_random rw) (rw_room rw) (rw_fuel rw)
        else openStorage_unsupported)
       (rw_Lock rw) (rw_Unlock rw)"

section \<open>Open\<close>

text \<open>The three keyrings \<open>Open\<close> returns: an injected one, the package's own for the native
  backend, which holds the service name, and the filesystem keyring.\<close>

datatype 'w opened = Custom_keyring "'w keyringer" | Native_keyring string | Filesystem_keyring "'w fs_keyring"

definition customInfo :: info where
  "customInfo = \<lparr>Backend = BackendCustom, Persistence = PersistenceUnknown, Host = HostUnknown,
     Interaction = InteractionUnknown, Fallback = False, Rejected = []\<rparr>"

definition filesystem_info :: info where
  "filesystem_info = \<lparr>Backend = BackendFilesystem, Persistence = PersistencePersistent, Host = HostCurrent,
     Interaction = InteractionNone, Fallback = True, Rejected = []\<rparr>"

definition open_filesystem :: "'w root_world \<Rightarrow> 'w open_option \<Rightarrow> ('w, 'w opened) opener" where
  "open_filesystem rw opt ctx =
     (if op_FallbackDir opt = ''''
      then ret (Inl (Errorf ''%w: filesystem fallback directory is empty'' [Category ErrInvalidArgument]))
      else do {
        r \<leftarrow> fs_backend_Open rw (op_FallbackDir opt) (op_Service opt);
        ret (case r of Inl err \<Rightarrow> Inl err | Inr k \<Rightarrow> Inr (Filesystem_keyring k, filesystem_info))
      })"

definition open_native :: "'w root_world \<Rightarrow> 'w open_option \<Rightarrow> ('w, 'w opened) opener" where
  "open_native rw opt ctx = do {
     p \<leftarrow> root_probeNativeBackend rw ctx;
     ret (case p of Some err \<Rightarrow> Inl err
          | None \<Rightarrow> Inr (Native_keyring (op_Service opt), root_nativeBackendInfo (rw_os rw)))
   }"

definition root_order :: "goos \<Rightarrow> 'w open_option \<Rightarrow> backend list" where
  "root_order os opt =
     (if length (op_Backends opt) = 0
      then (if root_nativeBackendSupported os then [Backend (root_nativeBackendInfo os)] else [])
        @ (if op_FallbackDir opt \<noteq> '''' then [BackendFilesystem] else [])
      else op_Backends opt)"

definition root_registry :: "'w root_world \<Rightarrow> 'w open_option \<Rightarrow> backend \<rightharpoonup> ('w, 'w opened) opener" where
  "root_registry rw opt =
     (let registry = [BackendFilesystem \<mapsto> open_filesystem rw opt]
      in if root_nativeBackendSupported (rw_os rw)
         then registry(Backend (root_nativeBackendInfo (rw_os rw)) \<mapsto> open_native rw opt)
         else registry)"

definition root_Open ::
  "'w root_world \<Rightarrow> 'w ctx option \<Rightarrow> 'w open_option option list \<Rightarrow> ('w, go_error + 'w opened \<times> info) state" where
  "root_Open rw ctx options = do {
     cerr \<leftarrow> ContextError ctx;
     (case cerr of
        Some err \<Rightarrow> ret (Inl err)
      | None \<Rightarrow>
          (case mergeOptions options of
             Inl panic \<Rightarrow> ret (Inl panic)
           | Inr opt \<Rightarrow>
               (case op_Keyringer opt of
                  Some k \<Rightarrow> ret (Inr (Custom_keyring k, customInfo))
                | None \<Rightarrow>
                    (if op_Service opt = ''''
                     then ret (Inl (Errorf ''%w: service is empty'' [Category ErrInvalidArgument]))
                     else SelectBackend ctx (root_order (rw_os rw) opt) (root_registry rw opt)))))
   }"

section \<open>Operations\<close>

definition root_Get :: "'w root_world \<Rightarrow> string \<Rightarrow> 'w ctx option \<Rightarrow> string \<Rightarrow> ('w, go_error + bytes) state" where
  "root_Get rw service ctx key = native_Get (native_ops_of (rw_os rw) (rw_native rw)) ctx service key"

definition root_Set :: "'w root_world \<Rightarrow> string \<Rightarrow> 'w ctx option \<Rightarrow> string \<Rightarrow> bytes \<Rightarrow> ('w, go_error option) state" where
  "root_Set rw service ctx key contents =
     native_Set (native_ops_of (rw_os rw) (rw_native rw)) ctx service key contents"

definition root_Delete :: "'w root_world \<Rightarrow> string \<Rightarrow> 'w ctx option \<Rightarrow> string \<Rightarrow> ('w, go_error option) state" where
  "root_Delete rw service ctx key = native_Delete (native_ops_of (rw_os rw) (rw_native rw)) ctx service key"

text \<open>The methods of what was opened.\<close>

definition methods :: "'w root_world \<Rightarrow> 'w opened \<Rightarrow> 'w keyringer" where
  "methods rw k =
     (case k of
        Custom_keyring c \<Rightarrow> c
      | Native_keyring service \<Rightarrow>
          \<lparr>kr_Get = root_Get rw service, kr_Set = root_Set rw service, kr_Delete = root_Delete rw service\<rparr>
      | Filesystem_keyring f \<Rightarrow> \<lparr>kr_Get = fs_Get f, kr_Set = fs_Set f, kr_Delete = fs_Delete f\<rparr>)"


section \<open>Lemmas\<close>

lemma merge_loop_Some:
  "merge_loop (map Some os) m =
     Inr \<lparr>op_Service = last_such (\<lambda>s. s \<noteq> '''') (op_Service m) (map op_Service os),
          op_Keyringer = last_such (\<lambda>k. k \<noteq> None) (op_Keyringer m) (map op_Keyringer os),
          op_FallbackDir = last_such (\<lambda>s. s \<noteq> '''') (op_FallbackDir m) (map op_FallbackDir os),
          op_Backends = last_such (\<lambda>b. b \<noteq> []) (op_Backends m) (map op_Backends os)\<rparr>"
  by (induction os arbitrary: m) simp_all

lemma merge_loop_None: "merge_loop (map Some os @ None # rest) m = Inl nil_dereference"
  by (induction os arbitrary: m) simp_all

lemma fs_Open_other: "rw_os rw \<noteq> Linux \<Longrightarrow> run_state (fs_backend_Open rw dir service) w \<noteq> (Inr k, w')"
  by (auto simp: fs_backend_Open_def openKeyring_def openStorage_unsupported_def split: prod.splits sum.splits if_splits)

lemma root_Open_Inr:
  assumes "run_state (root_Open rw ctx options) w = (Inr (k, i), w')"
  obtains (custom) opt c where "mergeOptions options = Inr opt" "op_Keyringer opt = Some c"
      "k = Custom_keyring c" "i = customInfo"
  | (selected) opt w1 where "mergeOptions options = Inr opt" "op_Keyringer opt = None" "op_Service opt \<noteq> ''''"
      "run_state (SelectBackend ctx (root_order (rw_os rw) opt) (root_registry rw opt)) w1 = (Inr (k, i), w')"
  using assms by (auto simp: root_Open_def split: prod.splits option.splits sum.splits if_splits)

text \<open>The two openers, told apart by what they return.\<close>

lemma registry_cases:
  assumes "root_registry rw opt b = Some opener" and "run_state (opener ctx) w = (Inr (k, i), w')"
  obtains (native) "b = Backend (root_nativeBackendInfo (rw_os rw))" "rw_os rw \<noteq> Other_target"
      "k = Native_keyring (op_Service opt)" "i = root_nativeBackendInfo (rw_os rw)"
      "run_state (root_probeNativeBackend rw ctx) w = (None, w')"
  | (filesystem) f where "b = BackendFilesystem" "rw_os rw = Linux" "op_FallbackDir opt \<noteq> ''''"
      "k = Filesystem_keyring f" "i = filesystem_info"
      "run_state (fs_backend_Open rw (op_FallbackDir opt) (op_Service opt)) w = (Inr f, w')"
proof (cases "b = Backend (root_nativeBackendInfo (rw_os rw)) \<and> rw_os rw \<noteq> Other_target")
  case True
  with assms(1) have "opener = open_native rw opt"
    by (simp add: root_registry_def root_nativeBackendSupported_def)
  with True assms(2) native show ?thesis by (auto simp: open_native_def split: prod.splits option.splits)
next
  case False
  with assms(1) have "opener = open_filesystem rw opt" "b = BackendFilesystem"
    by (auto simp: root_registry_def root_nativeBackendSupported_def Let_def split: if_splits)
  with assms(2) obtain f where f: "op_FallbackDir opt \<noteq> ''''" "k = Filesystem_keyring f" "i = filesystem_info"
      "run_state (fs_backend_Open rw (op_FallbackDir opt) (op_Service opt)) w = (Inr f, w')"
    by (auto simp: open_filesystem_def split: prod.splits sum.splits if_splits)
  moreover have "rw_os rw = Linux" using fs_Open_other f(4) by metis
  ultimately show ?thesis using filesystem \<open>b = BackendFilesystem\<close> by blast
qed

lemma root_selected:
  assumes "run_state (SelectBackend ctx (root_order (rw_os rw) opt) (root_registry rw opt)) w = (Inr (k, i), w')"
  obtains b opener w1 j post where
    "root_order (rw_os rw) opt = map fst (Rejected i) @ b # post"
    "\<forall>(b', x) \<in> set (Rejected i). \<exists>e. x = Some e \<and> permits_fallback e"
    "root_registry rw opt b = Some opener" "run_state (opener ctx) w1 = (Inr (k, j), w')"
    "i = j\<lparr>Fallback := Fallback j \<or> Rejected i \<noteq> [], Rejected := Rejected i\<rparr>"
  using select_selected [OF assms] that by blast


section \<open>Properties\<close>

text \<open>C5 Filesystem storage is never chosen implicitly: if \<open>Open\<close> returns the filesystem keyring then the
  target is Linux, the merged options name a directory, and either the backend list names the
  filesystem or no list was given and the native backend was tried first and found unavailable
  or unsupported; and the description says it is a fallback.\<close>

theorem root_filesystem_explicit:
  assumes "run_state (root_Open rw ctx options) w = (Inr (Filesystem_keyring f, i), w')"
  shows "\<exists>opt. mergeOptions options = Inr opt \<and> rw_os rw = Linux \<and> op_FallbackDir opt \<noteq> ''''
     \<and> op_Service opt \<noteq> '''' \<and> Backend i = BackendFilesystem \<and> Fallback i
     \<and> (BackendFilesystem \<in> set (op_Backends opt)
        \<or> op_Backends opt = [] \<and> (\<exists>e. Rejected i = [(BackendSecretService, Some e)] \<and> permits_fallback e))"
  using assms
proof (cases rule: root_Open_Inr)
  case (selected opt w1)
  from selected(4) show ?thesis
  proof (rule root_selected)
    fix b opener w2 j post
    assume split: "root_order (rw_os rw) opt = map fst (Rejected i) @ b # post"
      and permit: "\<forall>(b', x) \<in> set (Rejected i). \<exists>e. x = Some e \<and> permits_fallback e"
      and reg: "root_registry rw opt b = Some opener"
      and run: "run_state (opener ctx) w2 = (Inr (Filesystem_keyring f, j), w')"
      and i: "i = j\<lparr>Fallback := Fallback j \<or> Rejected i \<noteq> [], Rejected := Rejected i\<rparr>"
    from reg run show ?thesis
    proof (cases rule: registry_cases)
      case (filesystem g)
      have "Backend i = BackendFilesystem" "Fallback i"
        by (subst i, simp add: filesystem(5) filesystem_info_def)+
      moreover have "\<exists>e. Rejected i = [(BackendSecretService, Some e)] \<and> permits_fallback e"
        if "op_Backends opt = []"
        using split that filesystem(1,2,3) permit
        by (cases "Rejected i") (auto simp: root_order_def root_nativeBackendSupported_def
            root_nativeBackendInfo_def backend_defs Cons_eq_append_conv)
      moreover have "BackendFilesystem \<in> set (op_Backends opt)" if "op_Backends opt \<noteq> []"
        using arg_cong [OF split, of set] that filesystem(1) by (simp add: root_order_def)
      ultimately show ?thesis using selected filesystem by blast
    qed simp
  qed
qed simp

text \<open>The description belongs to the keyring: an injected keyring is described as custom, with nothing
  rejected; the native keyring with the native backend of the target, which the probe has just
  found available, under the merged service name; the filesystem keyring as filesystem; and a
  native keyring is a fallback exactly when an earlier candidate was rejected.\<close>

lemma root_open_described:
  assumes "run_state (root_Open rw ctx options) w = (Inr (k, i), w')"
  shows "case k of
       Custom_keyring c \<Rightarrow> i = customInfo \<and> (\<exists>opt. mergeOptions options = Inr opt \<and> op_Keyringer opt = Some c)
     | Native_keyring s \<Rightarrow> Backend i = Backend (root_nativeBackendInfo (rw_os rw)) \<and> rw_os rw \<noteq> Other_target
         \<and> (\<exists>opt. mergeOptions options = Inr opt \<and> op_Service opt = s) \<and> s \<noteq> ''''
         \<and> (Fallback i \<longleftrightarrow> Rejected i \<noteq> [])
         \<and> (\<exists>u. run_state (root_probeNativeBackend rw ctx) u = (None, w'))
     | Filesystem_keyring f \<Rightarrow> Backend i = BackendFilesystem \<and> Persistence i = PersistencePersistent \<and> Fallback i"
  using assms
proof (cases rule: root_Open_Inr)
  case (selected opt w1)
  from selected(4) show ?thesis
  proof (rule root_selected)
    fix b opener w2 j post
    assume reg: "root_registry rw opt b = Some opener" and run: "run_state (opener ctx) w2 = (Inr (k, j), w')"
      and i: "i = j\<lparr>Fallback := Fallback j \<or> Rejected i \<noteq> [], Rejected := Rejected i\<rparr>"
    have fields: "Backend i = Backend j" "Persistence i = Persistence j"
      "Fallback i \<longleftrightarrow> Fallback j \<or> Rejected i \<noteq> []" by (subst i, simp)+
    from reg run show ?thesis
    proof (cases rule: registry_cases)
      case native
      have "\<not> Fallback j" by (simp add: native(4) root_nativeBackendInfo_def split: goos.splits)
      with native fields selected show ?thesis by auto
    next
      case (filesystem g)
      with fields show ?thesis by (simp add: filesystem_info_def)
    qed
  qed
qed simp

text \<open>C31 Options are an ordered overlay: for each field on its own, the last option that sets it wins,
  and a field that no option sets keeps its zero value; a nil option anywhere panics.\<close>

theorem mergeOptions_last_wins:
  "mergeOptions (map Some os) =
     Inr \<lparr>op_Service = last_such (\<lambda>s. s \<noteq> '''') '''' (map op_Service os),
          op_Keyringer = last_such (\<lambda>k. k \<noteq> None) None (map op_Keyringer os),
          op_FallbackDir = last_such (\<lambda>s. s \<noteq> '''') '''' (map op_FallbackDir os),
          op_Backends = last_such (\<lambda>b. b \<noteq> []) [] (map op_Backends os)\<rparr>
   \<and> mergeOptions (map Some os @ None # rest) = Inl nil_dereference"
  by (simp add: mergeOptions_def merge_loop_Some merge_loop_None)

text \<open>C18 On a Unix target that is neither Linux nor macOS, the root package selects Secret Service and
  cannot use it: the probe goes over D-Bus, so \<open>Open\<close> succeeds where a service answers, but
  \<open>Get\<close>, \<open>Set\<close> and \<open>Delete\<close> of the keyring it returns always fail with \<open>ErrUnsupported\<close>.\<close>

theorem root_other_unix_unusable:
  assumes "run_state (root_Open rw ctx options) w = (Inr (Native_keyring s, i), w')" and "rw_os rw = Other_unix"
  shows "Backend i = BackendSecretService
     \<and> run_state (kr_Get (methods rw (Native_keyring s)) Background key) u = (Inl native_unsupported, u)
     \<and> run_state (kr_Set (methods rw (Native_keyring s)) Background key contents) u = (Some native_unsupported, u)
     \<and> run_state (kr_Delete (methods rw (Native_keyring s)) Background key) u = (Some native_unsupported, u)
     \<and> err_is native_unsupported (Category ErrUnsupported)"
proof -
  from assms(1) have "Backend i = Backend (root_nativeBackendInfo (rw_os rw))"
  proof (cases rule: root_Open_Inr)
    case (selected opt w1)
    from selected(4) show ?thesis
    proof (rule root_selected)
      fix b opener w2 j post
      assume "root_registry rw opt b = Some opener" "run_state (opener ctx) w2 = (Inr (Native_keyring s, j), w')"
        and i: "i = j\<lparr>Fallback := Fallback j \<or> Rejected i \<noteq> [], Rejected := Rejected i\<rparr>"
      then have "j = root_nativeBackendInfo (rw_os rw)" by (cases rule: registry_cases) simp_all
      then show ?thesis by (subst i) simp
    qed
  qed simp
  then show ?thesis using assms(2)
    by (simp add: root_nativeBackendInfo_def methods_def root_Get_def root_Set_def root_Delete_def native_other_fails)
qed


text \<open>C14 Opening and using, end to end: on Linux with a working Secret Service, \<open>Open\<close> with a service
  name (and possibly a fallback directory) selects Secret Service without rejections, and the
  operations of the keyring it returns answer every sequence of requests on names and values the
  provider takes as a map from services and keys to values does, when no item of another program
  answers to a search for the keys of the service; items that match none of them are left as they
  were.\<close>

theorem root_open_then_use:
  fixes rw :: "'w root_world"
  assumes "secret_service c (newConnector (nw_bus (rw_native rw))) (nw_WithTimeout (rw_native rw))
      objects stored takes fits unlocked good"
    and "rw_os rw = Linux" and "good w" and "service \<noteq> ''''" and "clear stored (objects w) service"
    and "\<forall>r\<in>set rs. acceptable (takes service) (\<lambda>_. fits) r"
    and "spec_run (Pair service) rs (credentials (objects w)) = (as, m)"
  shows "\<exists>k w1 w2. run_state (root_Open rw Background
         [Some \<lparr>op_Service = service, op_Keyringer = None, op_FallbackDir = dir, op_Backends = []\<rparr>]) w
       = (Inr (k, root_nativeBackendInfo Linux), w1)
     \<and> run_state (impl_run (kr_Get (methods rw k) Background) (kr_Set (methods rw k) Background)
         (kr_Delete (methods rw k) Background) rs) w1 = (as, w2) \<and> credentials (objects w2) = m
     \<and> kept (objects w) (objects w2) service"
proof -
  obtain w1 where p: "run_state (dbus_Probe (nw_WithTimeout (rw_native rw)) (nw_bus (rw_native rw)) Background) w = (None, w1)"
    "good w1" "objects w1 = objects w" using secret_service.probe_ok [OF assms(1,3)] unfolding dbus_entries by blast
  let ?opt = "\<lparr>op_Service = service, op_Keyringer = None, op_FallbackDir = dir, op_Backends = []\<rparr>
    :: 'w open_option"
  have "root_registry rw ?opt BackendSecretService = Some (open_native rw ?opt)"
    by (simp add: root_registry_def root_nativeBackendSupported_def root_nativeBackendInfo_def assms(2))
  then have a: "run_state (attempt Background (root_registry rw ?opt) BackendSecretService) w
      = (Selected (Native_keyring service) (root_nativeBackendInfo Linux), w1)"
    using assms(2) p(1) by (simp add: attempt_def open_native_def root_probeNativeBackend_def)
  obtain post where "root_order Linux ?opt = BackendSecretService # post"
    by (simp add: root_order_def root_nativeBackendSupported_def root_nativeBackendInfo_def)
  then have sel: "run_state (SelectBackend Background (root_order Linux ?opt) (root_registry rw ?opt)) w
      = (Inr (Native_keyring service, root_nativeBackendInfo Linux), w1)"
    by (simp add: SelectBackend_def select_loop_attempt a) (simp add: root_nativeBackendInfo_def)
  have "mergeOptions [Some ?opt] = Inr ?opt" by (simp add: mergeOptions_def)
  then have "run_state (root_Open rw Background [Some ?opt]) w
      = (Inr (Native_keyring service, root_nativeBackendInfo Linux), w1)"
    using assms(2,4) sel by (simp add: root_Open_def)
  moreover obtain w2 where "run_state (impl_run (dbus_get (nw_WithTimeout (rw_native rw)) (newConnector (nw_bus (rw_native rw))) Background service)
       (dbus_set (nw_WithTimeout (rw_native rw)) (newConnector (nw_bus (rw_native rw))) Background service)
       (dbus_remove (nw_WithTimeout (rw_native rw)) (newConnector (nw_bus (rw_native rw))) Background service) rs) w1 = (as, w2)"
    "credentials (objects w2) = m" "kept (objects w) (objects w2) service"
    using secret_service.requests_refine [OF assms(1) p(2) _ assms(6)] assms(5,7) p(3) by metis
  ultimately show ?thesis using assms(2)
    by (intro exI [of _ "Native_keyring service"] exI [of _ w1] exI [of _ w2])
      (simp add: methods_def root_Get_def [abs_def] root_Set_def [abs_def] root_Delete_def [abs_def])
qed

section \<open>Witnesses\<close>

text \<open>A target with an in-memory Secret Service and a kernel that grants everything.\<close>

definition demo_root :: "goos \<Rightarrow> item_table root_world" where
  "demo_root os =
     \<lparr>rw_os = os,
      rw_native = \<lparr>nw_WithTimeout = (\<lambda>x _. ret (x, ret ())), nw_bus = ready_bus mem_connection,
        nw_Quote = (\<lambda>s. s), nw_security = (\<lambda>_ _ _. ret ('''', None)),
        nw_wincred = \<lparr>GetGenericCredential = (\<lambda>_. ret (Inl (WinError ErrElementNotFound))),
          WriteGeneric = (\<lambda>_ _ _. ret None), DeleteGeneric = (\<lambda>_. ret None)\<rparr>\<rparr>,
      rw_absolutePath = (\<lambda>p. ret (Inr p)), rw_euid = 1000,
      rw_linux =
        \<lparr>sys_validateMount = (\<lambda>_. ret None), sys_prepareDirectories = (\<lambda>_ _ _. ret None),
         sys_openDirectory = (\<lambda>_ _. ret (Inr 3)), sys_openDirectoryAt = (\<lambda>d _ _. ret (Inr (d + 1))),
         sys_openFileAt = (\<lambda>_ _ _ _. ret (Inl (Errno ENOENT))), sys_fstat = (\<lambda>_. ret (Inl (Errno EACCES))),
         sys_fchmod = (\<lambda>_ _. ret None), sys_read = (\<lambda>_ _. ret (0, [], None)), sys_write = (\<lambda>_ _. ret (1, None)),
         sys_fsync = (\<lambda>_. ret None), sys_close = (\<lambda>_. ret None),
         sys_renameAt = (\<lambda>_ _ _ _. ret None), sys_unlinkAt = (\<lambda>_ _ _. ret None)\<rparr>,
      rw_random = (\<lambda>n. ret (Inr (replicate n (CHR 0x61)))), rw_room = (\<lambda>_. 511), rw_fuel = 10,
      rw_Lock = (\<lambda>_. ret ()), rw_Unlock = (\<lambda>_. ret ())\<rparr>"

definition demo_option :: "backend list \<Rightarrow> item_table open_option" where
  "demo_option bs = \<lparr>op_Service = ''mail'', op_Keyringer = None, op_FallbackDir = ''/r'', op_Backends = bs\<rparr>"

lemma demo_filesystem:
  "\<exists>f i w'. run_state (root_Open (demo_root Linux) Background [Some (demo_option [BackendFilesystem])]) demo_items
     = (Inr (Filesystem_keyring f, i), w')"
  by (simp add: root_Open_def mergeOptions_def SelectBackend_def select_loop_attempt attempt_def root_order_def
      root_registry_def root_nativeBackendSupported_def root_nativeBackendInfo_def backend_defs demo_option_def
      open_filesystem_def fs_backend_Open_def openKeyring_def openStorage_linux_def openLinuxStorage_def
      demo_root_def)

theorem root_filesystem_explicit_witness:
  "\<exists>opt. mergeOptions [Some (demo_option [BackendFilesystem])] = Inr opt \<and> op_FallbackDir opt \<noteq> ''''"
  using demo_filesystem root_filesystem_explicit by metis

lemma demo_native:
  assumes "os = Linux \<or> os = Other_unix"
  shows "\<exists>i w'. run_state (root_Open (demo_root os) Background [Some (demo_option [])]) demo_items
     = (Inr (Native_keyring ''mail'', i), w')"
proof -
  obtain w' where "run_state (probe (\<lambda>x _. ret (x, ret ())) (\<lambda>_. ret (Inr mem_connection)) Background) demo_items
      = (None, w')" using mem_service.probe_ok [OF demo_items_good] by blast
  with assms show ?thesis
    by (auto simp: root_Open_def mergeOptions_def SelectBackend_def select_loop_attempt attempt_def root_order_def
      root_registry_def root_nativeBackendSupported_def root_nativeBackendInfo_def backend_defs demo_option_def
      open_native_def root_probeNativeBackend_def demo_root_def dbus_entries
      newConnector_ready)
qed

lemma root_open_described_witness:
  "\<exists>i w'. run_state (root_Open (demo_root Linux) Background [Some (demo_option [])]) demo_items
       = (Inr (Native_keyring ''mail'', i), w') \<and> Backend i = BackendSecretService"
proof -
  obtain i w' where r: "run_state (root_Open (demo_root Linux) Background [Some (demo_option [])]) demo_items
     = (Inr (Native_keyring ''mail'', i), w')" using demo_native by blast
  from root_open_described [OF this] have "Backend i = Backend (root_nativeBackendInfo Linux)"
    by (simp add: demo_root_def)
  with r show ?thesis by (simp add: root_nativeBackendInfo_def)
qed

theorem root_other_unix_unusable_witness:
  "\<exists>i w'. run_state (root_Open (demo_root Other_unix) Background [Some (demo_option [])]) demo_items
       = (Inr (Native_keyring ''mail'', i), w') \<and> Backend i = BackendSecretService
     \<and> run_state (kr_Get (methods (demo_root Other_unix) (Native_keyring ''mail'')) Background ''k'') w'
       = (Inl native_unsupported, w')"
proof -
  obtain i w' where r: "run_state (root_Open (demo_root Other_unix) Background [Some (demo_option [])]) demo_items
     = (Inr (Native_keyring ''mail'', i), w')" using demo_native by blast
  have "rw_os (demo_root Other_unix) = Other_unix" by (simp add: demo_root_def)
  from root_other_unix_unusable [OF r this] r show ?thesis by blast
qed

theorem root_open_then_use_witness:
  "\<exists>k w1 w2. run_state (root_Open (demo_root Linux) Background
       [Some \<lparr>op_Service = ''mail'', op_Keyringer = None, op_FallbackDir = '''', op_Backends = []\<rparr>]) demo_items
       = (Inr (k, root_nativeBackendInfo Linux), w1)
     \<and> run_state (impl_run (kr_Get (methods (demo_root Linux) k) Background)
         (kr_Set (methods (demo_root Linux) k) Background) (kr_Delete (methods (demo_root Linux) k) Background)
         [Set_req ''k'' ''v'', Get_req ''k'']) w1 = ([Done_ok, Value ''v''], w2)"
proof -
  have s: "secret_service mem_connection (newConnector (nw_bus (rw_native (demo_root Linux))))
      (nw_WithTimeout (rw_native (demo_root Linux))) mem_objects with_schema (\<lambda>_ _. True) (\<lambda>_. True) (\<lambda>w p. p \<in> set (open_paths w)) items_good"
    using mem_service.secret_service_axioms by (simp add: demo_root_def newConnector_ready)
  have o: "rw_os (demo_root Linux) = Linux" by (simp add: demo_root_def)
  have a: "\<forall>r\<in>set [Set_req ''k'' ''v'', Get_req ''k'']. acceptable (\<lambda>_. True) (\<lambda>_ _. True) r" by simp
  have p: "spec_run (Pair ''mail'') [Set_req ''k'' ''v'', Get_req ''k''] (credentials (mem_objects demo_items))
      = ([Done_ok, Value ''v''], (credentials (mem_objects demo_items))((''mail'', ''k'') \<mapsto> ''v''))" by simp
  show ?thesis using root_open_then_use [OF s o demo_items_good _ demo_items_clear a p, of "''''"] by simp blast
qed

end
