(* ===== verification/Keyctl.thy ===== *)
theory Keyctl
  imports Keyringer Sha256 Encoding
begin

text \<open>
  \<open>internal/backend/keyctl/keyring_linux.go\<close>: values as keys of the kernel's user-session
  keyring. The five system calls are arguments, by the names of the package variables. A
  successful read returns the size of the payload, which may exceed the buffer, and the
  buffer.
\<close>

definition KEY_SPEC_USER_SESSION_KEYRING :: int where "KEY_SPEC_USER_SESSION_KEYRING = -5"
definition KEYCTL_UNLINK :: int where "KEYCTL_UNLINK = 9"
definition KEYCTL_READ :: int where "KEYCTL_READ = 11"

definition userKeyPayloadLimit :: nat where "userKeyPayloadLimit = 32767"

record 'w keyctl_calls =
  getKeyringID :: "int \<Rightarrow> bool \<Rightarrow> ('w, go_error + int) state"
  searchKey :: "int \<Rightarrow> string \<Rightarrow> string \<Rightarrow> int \<Rightarrow> ('w, go_error + int) state"
  addKey :: "string \<Rightarrow> string \<Rightarrow> bytes \<Rightarrow> int \<Rightarrow> ('w, go_error + int) state"
  keyctlBuffer :: "int \<Rightarrow> int \<Rightarrow> nat \<Rightarrow> int \<Rightarrow> ('w, go_error + nat \<times> bytes) state"
  keyctlInt :: "int \<Rightarrow> int \<Rightarrow> int \<Rightarrow> int \<Rightarrow> int \<Rightarrow> ('w, go_error + int) state"

record keyctl_keyring =
  session :: int
  kc_service :: string

definition probeError :: "go_error \<Rightarrow> go_error" where
  "probeError err =
     Errorf ''%w: probe kernel keyring: %w''
       [Category (if err_is err ErrPermission \<or> err_is err (Errno EPERM) then ErrPermissionDenied
          else if err_is err (Errno ENOKEY) \<or> err_is err (Errno ENOSYS) \<or> err_is err (Errno ENODEV)
          then ErrBackendUnavailable else ErrBackendFailure), err]"

definition keyctl_category :: "go_error \<Rightarrow> category" where
  "keyctl_category err =
     (if err_is err (Errno ENOKEY) \<or> err_is err (Errno EKEYEXPIRED) \<or> err_is err (Errno EKEYREVOKED)
      then ErrNotFound
      else if err_is err ErrPermission \<or> err_is err (Errno EPERM) then ErrPermissionDenied
      else if err_is err (Errno ENOSYS) \<or> err_is err (Errno ENODEV) then ErrBackendUnavailable
      else ErrBackendFailure)"

definition keyctl_operationError :: "string \<Rightarrow> go_error option \<Rightarrow> go_error option" where
  "keyctl_operationError operation err =
     (case err of None \<Rightarrow> None
      | Some e \<Rightarrow> Some (Errorf (''%w: '' @ operation @ '': %w'') [Category (keyctl_category e), e]))"

definition error_of :: "'e + 'a \<Rightarrow> 'e option" where
  "error_of r = (case r of Inl e \<Rightarrow> Some e | Inr _ \<Rightarrow> None)"

lemma error_of_simps [simp]: "error_of (Inl e) = Some e" "error_of (Inr a) = None"
  by (simp_all add: error_of_def)

definition keyctl_Open :: "'w keyctl_calls \<Rightarrow> string \<Rightarrow> ('w, go_error + keyctl_keyring) state" where
  "keyctl_Open calls service = do {
     r \<leftarrow> getKeyringID calls KEY_SPEC_USER_SESSION_KEYRING True;
     ret (case r of Inl err \<Rightarrow> Inl (probeError err)
          | Inr s \<Rightarrow> Inr \<lparr>session = s, kc_service = service\<rparr>)
   }"

section \<open>Key names\<close>

definition keyName_input :: "string \<Rightarrow> string \<Rightarrow> bytes" where
  "keyName_input service key =
     ''common.queueb.org/keyring:kernel:v1'' @ [CHR 0x00] @ ''service'' @ [CHR 0x00] @ service
       @ [CHR 0x00] @ ''key'' @ [CHR 0x00] @ key"

definition keyName :: "string \<Rightarrow> string \<Rightarrow> string" where
  "keyName service key = ''keyring:v1:'' @ hex_EncodeToString (Sum256 (keyName_input service key))"

definition keyctl_key :: "keyctl_keyring \<Rightarrow> string \<Rightarrow> string" where
  "keyctl_key k key = keyName (kc_service k) key"

section \<open>Operations\<close>

definition keyctl_get :: "'w keyctl_calls \<Rightarrow> keyctl_keyring \<Rightarrow> string \<Rightarrow> ('w, go_error + int) state" where
  "keyctl_get calls k key = searchKey calls (session k) ''user'' (keyctl_key k key) 0"

text \<open>The loop reads again with the larger buffer until the payload fits.\<close>

fun readKeyContents_loop ::
  "'w keyctl_calls \<Rightarrow> nat \<Rightarrow> int \<Rightarrow> nat \<Rightarrow> ('w, go_error + bytes) state" where
  "readKeyContents_loop calls 0 key sz = ret (Inl OutOfFuel)"
| "readKeyContents_loop calls (Suc fuel) key sz = do {
     r \<leftarrow> keyctlBuffer calls KEYCTL_READ key sz 0;
     (case r of
        Inl err \<Rightarrow> ret (Inl err)
      | Inr (count, contents) \<Rightarrow>
          (if count \<le> sz then ret (Inr (take count contents))
           else readKeyContents_loop calls fuel key count))
   }"

definition readKeyContents ::
  "'w keyctl_calls \<Rightarrow> nat \<Rightarrow> int \<Rightarrow> ('w, go_error + bytes) state" where
  "readKeyContents calls fuel key = do {
     r \<leftarrow> keyctlBuffer calls KEYCTL_READ key 0 0;
     (case r of
        Inl err \<Rightarrow> ret (Inl err)
      | Inr (sz, _) \<Rightarrow> readKeyContents_loop calls fuel key sz)
   }"

definition keyctl_Get ::
  "'w keyctl_calls \<Rightarrow> nat \<Rightarrow> keyctl_keyring \<Rightarrow> 'w ctx option \<Rightarrow> string \<Rightarrow> ('w, go_error + bytes) state" where
  "keyctl_Get calls fuel k ctx key = do {
     cerr \<leftarrow> ContextError ctx;
     (case cerr of
        Some err \<Rightarrow> ret (Inl err)
      | None \<Rightarrow> do {
          c \<leftarrow> keyctl_get calls k key;
          (case c of
             Inl err \<Rightarrow> ret (Inl (the (keyctl_operationError ''find credential'' (Some err))))
           | Inr credential \<Rightarrow> do {
               v \<leftarrow> readKeyContents calls fuel credential;
               ret (case v of
                  Inl err \<Rightarrow> Inl (the (keyctl_operationError ''get credential'' (Some err)))
                | Inr contents \<Rightarrow> Inr contents)
             })
        })
   }"

definition keyctl_Set ::
  "'w keyctl_calls \<Rightarrow> keyctl_keyring \<Rightarrow> 'w ctx option \<Rightarrow> string \<Rightarrow> bytes \<Rightarrow> ('w, go_error option) state" where
  "keyctl_Set calls k ctx key contents = do {
     cerr \<leftarrow> ContextError ctx;
     (case cerr of
        Some err \<Rightarrow> ret (Some err)
      | None \<Rightarrow>
          (if length contents > userKeyPayloadLimit
           then ret (Some (Errorf ''%w: kernel key payload exceeds %d bytes'' [Category ErrValueTooLarge]))
           else do {
             r \<leftarrow> addKey calls ''user'' (keyctl_key k key) contents (session k);
             ret (keyctl_operationError ''set credential'' (error_of r))
           }))
   }"

definition keyctl_Delete ::
  "'w keyctl_calls \<Rightarrow> keyctl_keyring \<Rightarrow> 'w ctx option \<Rightarrow> string \<Rightarrow> ('w, go_error option) state" where
  "keyctl_Delete calls k ctx key = do {
     cerr \<leftarrow> ContextError ctx;
     (case cerr of
        Some err \<Rightarrow> ret (Some err)
      | None \<Rightarrow> do {
          c \<leftarrow> keyctl_get calls k key;
          (case c of
             Inl err \<Rightarrow> ret (keyctl_operationError ''find credential'' (Some err))
           | Inr credential \<Rightarrow> do {
               r \<leftarrow> keyctlInt calls KEYCTL_UNLINK credential (session k) 0 0;
               ret (keyctl_operationError ''delete credential'' (error_of r))
             })
        })
   }"

definition keyctl_keyringer :: "'w keyctl_calls \<Rightarrow> nat \<Rightarrow> keyctl_keyring \<Rightarrow> 'w keyringer" where
  "keyctl_keyringer calls fuel k =
     \<lparr>kr_Get = keyctl_Get calls fuel k, kr_Set = keyctl_Set calls k, kr_Delete = keyctl_Delete calls k\<rparr>"

section \<open>Lemmas\<close>

lemma keyctl_operationError_simps [simp]:
  "keyctl_operationError op None = None"
  "keyctl_operationError op (Some e) =
     Some (Errorf (''%w: '' @ op @ '': %w'') [Category (keyctl_category e), e])"
  by (simp_all add: keyctl_operationError_def)

text \<open>
  The name hashes service and key with separators that contain a zero byte. Services without
  zero bytes cannot be confused.
\<close>

lemma zero_split:
  assumes "CHR 0x00 \<notin> set s" "CHR 0x00 \<notin> set s'" "s @ CHR 0x00 # t = s' @ CHR 0x00 # t'"
  shows "s = s' \<and> t = t'"
  using assms(3,1,2)
proof (induction s arbitrary: s')
  case Nil
  then show ?case by (cases s') auto
next
  case (Cons c s)
  then show ?case by (cases s') auto
qed

lemma keyName_input_inj:
  assumes "CHR 0x00 \<notin> set s" "CHR 0x00 \<notin> set s'"
  shows "keyName_input s k = keyName_input s' k' \<longleftrightarrow> s = s' \<and> k = k'"
proof
  assume "keyName_input s k = keyName_input s' k'"
  then have "s @ CHR 0x00 # ''key'' @ [CHR 0x00] @ k = s' @ CHR 0x00 # ''key'' @ [CHR 0x00] @ k'"
    by (simp add: keyName_input_def)
  from zero_split [OF assms this] show "s = s' \<and> k = k'" by simp
qed simp

section \<open>The contract\<close>

text \<open>
  The documented behaviour of the kernel keyring: a user key is found by its description,
  added or updated in place, unlinked by its serial number; a read reports the size of the
  payload and copies it when the buffer is large enough. The kernel refuses empty payloads,
  so the law of \<open>add_key\<close> has none.
\<close>

locale kernel_keyring =
  fixes calls :: "'w keyctl_calls"
    and ring :: keyctl_keyring
    and payloads :: "'w \<Rightarrow> string \<rightharpoonup> bytes"
    and refers :: "'w \<Rightarrow> int \<Rightarrow> string \<Rightarrow> bool"
    and good :: "'w \<Rightarrow> bool"
  assumes search_found: "\<And>w d v. good w \<Longrightarrow> payloads w d = Some v \<Longrightarrow>
      \<exists>c w'. run_state (searchKey calls (session ring) ''user'' d 0) w = (Inr c, w')
        \<and> refers w' c d \<and> good w' \<and> payloads w' = payloads w"
    and search_missing: "\<And>w d. good w \<Longrightarrow> payloads w d = None \<Longrightarrow>
      \<exists>e w'. run_state (searchKey calls (session ring) ''user'' d 0) w = (Inl e, w')
        \<and> err_is e (Errno ENOKEY) \<and> good w' \<and> payloads w' = payloads w"
    and add: "\<And>w d v. good w \<Longrightarrow> v \<noteq> [] \<Longrightarrow> length v \<le> userKeyPayloadLimit \<Longrightarrow>
      \<exists>c w'. run_state (addKey calls ''user'' d v (session ring)) w = (Inr c, w')
        \<and> good w' \<and> payloads w' = (payloads w)(d \<mapsto> v)"
    and read: "\<And>w c d v n. good w \<Longrightarrow> refers w c d \<Longrightarrow> payloads w d = Some v \<Longrightarrow>
      \<exists>b w'. run_state (keyctlBuffer calls KEYCTL_READ c n 0) w = (Inr (length v, b), w')
        \<and> (length v \<le> n \<longrightarrow> take (length v) b = v) \<and> payloads w' = payloads w \<and> good w' \<and> refers w' c d"
    and unlink: "\<And>w c d v. good w \<Longrightarrow> refers w c d \<Longrightarrow> payloads w d = Some v \<Longrightarrow>
      \<exists>x w'. run_state (keyctlInt calls KEYCTL_UNLINK c (session ring) 0 0) w = (Inr x, w')
        \<and> good w' \<and> payloads w' = (payloads w)(d := None)"
begin

lemma read_contents:
  assumes "good w" "refers w c d" "payloads w d = Some v"
  shows "\<exists>w'. run_state (readKeyContents calls (Suc fuel) c) w = (Inr v, w') \<and> good w'
     \<and> payloads w' = payloads w"
proof -
  from read [OF assms, of 0] obtain b w1 where
    1: "run_state (keyctlBuffer calls KEYCTL_READ c 0 0) w = (Inr (length v, b), w1)"
      "payloads w1 = payloads w" "good w1" "refers w1 c d" by blast
  with assms read [of w1 c d v "length v"] obtain b' w2 where
    "run_state (keyctlBuffer calls KEYCTL_READ c (length v) 0) w1 = (Inr (length v, b'), w2)"
      "take (length v) b' = v" "good w2" "payloads w2 = payloads w" by auto
  with 1 show ?thesis by (simp add: readKeyContents_def)
qed

end

text \<open>Over such a kernel the adapter implements the keyring contract.\<close>

sublocale kernel_keyring \<subseteq> keyring: keyringer_contract
  "keyctl_Get calls (Suc fuel) ring Background" "keyctl_Set calls ring Background"
  "keyctl_Delete calls ring Background" payloads "keyctl_key ring" good "\<lambda>_. True"
  "\<lambda>_ v. v \<noteq> [] \<and> length v \<le> userKeyPayloadLimit" for fuel
proof (unfold_locales, goal_cases)
  case (1 w k v)
  then obtain c w1 where "run_state (searchKey calls (session ring) ''user'' (keyctl_key ring k) 0) w = (Inr c, w1)"
    "refers w1 c (keyctl_key ring k)" "good w1" "payloads w1 = payloads w" using search_found by blast
  with 1 read_contents [of w1 c "keyctl_key ring k" v fuel] show ?case
    by (auto simp: keyctl_Get_def keyctl_get_def)
next
  case (2 w k)
  then obtain e w1 where "run_state (searchKey calls (session ring) ''user'' (keyctl_key ring k) 0) w = (Inl e, w1)"
    "err_is e (Errno ENOKEY)" "good w1" "payloads w1 = payloads w" using search_missing by blast
  then show ?case by (auto simp: keyctl_Get_def keyctl_get_def keyctl_category_def)
next
  case (3 w k v)
  then obtain c w1 where "run_state (addKey calls ''user'' (keyctl_key ring k) v (session ring)) w = (Inr c, w1)"
    "good w1" "payloads w1 = (payloads w)(keyctl_key ring k \<mapsto> v)" using add by blast
  with 3 show ?case by (auto simp: keyctl_Set_def)
next
  case (4 w k v)
  then obtain c w1 where c: "run_state (searchKey calls (session ring) ''user'' (keyctl_key ring k) 0) w = (Inr c, w1)"
    "refers w1 c (keyctl_key ring k)" "good w1" "payloads w1 = payloads w" using search_found by blast
  with 4 obtain x w2 where "run_state (keyctlInt calls KEYCTL_UNLINK c (session ring) 0 0) w1 = (Inr x, w2)"
    "good w2" "payloads w2 = (payloads w1)(keyctl_key ring k := None)" using unlink by metis
  with c show ?case by (auto simp: keyctl_Delete_def keyctl_get_def)
next
  case (5 w k)
  then obtain e w1 where "run_state (searchKey calls (session ring) ''user'' (keyctl_key ring k) 0) w = (Inl e, w1)"
    "err_is e (Errno ENOKEY)" "good w1" "payloads w1 = payloads w" using search_missing by blast
  then show ?case by (auto simp: keyctl_Delete_def keyctl_get_def keyctl_category_def)
qed

context kernel_keyring
begin

lemma requests_refine:
  assumes "good w" and "\<forall>r\<in>set rs. acceptable (\<lambda>_. True) (\<lambda>_ v. v \<noteq> [] \<and> length v \<le> userKeyPayloadLimit) r"
    and "spec_run (keyctl_key ring) rs (payloads w) = (as, m)"
  shows "\<exists>w'. run_state (impl_run (keyctl_Get calls (Suc fuel) ring Background)
       (keyctl_Set calls ring Background) (keyctl_Delete calls ring Background) rs) w = (as, w')
     \<and> payloads w' = m"
  using keyring.run_refines [OF assms] by blast

end

text \<open>
  A kernel for the interpretation: descriptions lead to serial numbers, serial numbers to
  payloads. Every system call is defined, with the errors of a missing key and of an invalid
  payload.
\<close>

record key_table =
  descriptions :: "string \<rightharpoonup> int"
  key_data :: "int \<Rightarrow> bytes"
  next_serial :: int

definition mem_calls :: "key_table keyctl_calls" where
  "mem_calls =
     \<lparr>getKeyringID = (\<lambda>_ _. ret (Inr 1)),
      searchKey = (\<lambda>ty t d _. do { w \<leftarrow> State_Monad.get;
        ret (case descriptions w d of None \<Rightarrow> Inl (Errno ENOKEY) | Some i \<Rightarrow> Inr i) }),
      addKey = (\<lambda>ty d v _. do { w \<leftarrow> State_Monad.get;
        (if v = [] \<or> length v > userKeyPayloadLimit then ret (Inl (Errno (OtherErrno 22)))
         else let i = (case descriptions w d of None \<Rightarrow> next_serial w | Some i \<Rightarrow> i) in do {
           State_Monad.set \<lparr>descriptions = (descriptions w)(d \<mapsto> i), key_data = (key_data w)(i := v),
             next_serial = (if descriptions w d = None then next_serial w + 1 else next_serial w)\<rparr>;
           ret (Inr i) }) }),
      keyctlBuffer = (\<lambda>_ c n _. do { w \<leftarrow> State_Monad.get;
        ret (if c \<in> ran (descriptions w)
             then Inr (length (key_data w c), if length (key_data w c) \<le> n then key_data w c else replicate n (CHR 0x00))
             else Inl (Errno ENOKEY)) }),
      keyctlInt = (\<lambda>_ c _ _ _. do { w \<leftarrow> State_Monad.get;
        (if c \<in> ran (descriptions w)
         then do {
           State_Monad.set (w\<lparr>descriptions := (\<lambda>d. if descriptions w d = Some c then None else descriptions w d)\<rparr>);
           ret (Inr 0) }
         else ret (Inl (Errno ENOKEY))) })\<rparr>"

definition mem_payloads :: "key_table \<Rightarrow> string \<rightharpoonup> bytes" where
  "mem_payloads w d = map_option (key_data w) (descriptions w d)"

definition mem_good :: "key_table \<Rightarrow> bool" where
  "mem_good w \<longleftrightarrow> inj_on (descriptions w) (dom (descriptions w))
     \<and> (\<forall>d i. descriptions w d = Some i \<longrightarrow> i < next_serial w)"

interpretation mem_ring: kernel_keyring mem_calls ring mem_payloads
  "\<lambda>w c d. descriptions w d = Some c" mem_good for ring
proof (unfold_locales, goal_cases)
  case (3 w d v)
  let ?i = "case descriptions w d of None \<Rightarrow> next_serial w | Some i \<Rightarrow> i"
  have "descriptions w e \<noteq> Some ?i" if "e \<noteq> d" for e
  proof
    assume e: "descriptions w e = Some ?i"
    then have "descriptions w d = Some ?i" using 3(1) by (cases "descriptions w d") (auto simp: mem_good_def)
    with e have "d = e" using 3(1) unfolding mem_good_def by (metis domI inj_onD)
    then show False using that by simp
  qed
  note other = this
  define x where "x = \<lparr>descriptions = (descriptions w)(d \<mapsto> ?i), key_data = (key_data w)(?i := v),
      next_serial = (if descriptions w d = None then next_serial w + 1 else next_serial w)\<rparr>"
  have "mem_good x"
  proof -
    have "inj_on (descriptions x) (dom (descriptions x))"
      using other 3(1) unfolding mem_good_def inj_on_def x_def by (auto simp: dom_def)
    moreover have old: "descriptions w e = Some j \<Longrightarrow> j < next_serial x" for e j
      using 3(1) unfolding mem_good_def x_def by fastforce
    moreover have new: "?i < next_serial x"
      using 3(1) unfolding mem_good_def x_def by (auto split: option.splits)
    have "j < next_serial x" if "descriptions x e = Some j" for e j
      using that old [of e j] new by (cases "e = d") (auto simp: x_def)
    ultimately show ?thesis unfolding mem_good_def by blast
  qed
  moreover have "mem_payloads x = (mem_payloads w)(d \<mapsto> v)"
  proof
    fix e
    show "mem_payloads x e = ((mem_payloads w)(d \<mapsto> v)) e"
      using other [of e] by (cases "descriptions w e") (auto simp: x_def mem_payloads_def)
  qed
  moreover have "run_state (addKey mem_calls ''user'' d v (session ring)) w = (Inr ?i, x)"
    using 3 by (simp add: mem_calls_def Let_def x_def)
  ultimately show ?case by blast
next
  case (5 w c d v)
  have "descriptions w e = Some c \<longleftrightarrow> e = d" for e
    using 5 by (auto simp: mem_good_def inj_on_def dom_def)
  then show ?case using 5
    by (auto simp: mem_calls_def mem_payloads_def mem_good_def ran_def fun_eq_iff inj_on_def dom_def)
qed (auto simp: mem_calls_def mem_payloads_def ran_def split: option.splits)

section \<open>Properties\<close>



lemma readKeyContents_loop_result:
  assumes "run_state (readKeyContents_loop calls fuel key sz) w = (r, w')"
    and "\<And>n u c b. fst (run_state (keyctlBuffer calls KEYCTL_READ key n 0) u) = Inr (c, b) \<Longrightarrow> c \<le> limit"
    and "limit < fuel + sz"
  shows "\<exists>n u x. run_state (keyctlBuffer calls KEYCTL_READ key n 0) u = (x, w') \<and>
     (case r of Inl e \<Rightarrow> x = Inl e | Inr v \<Rightarrow> \<exists>c b. x = Inr (c, b) \<and> c \<le> n \<and> v = take c b)
     \<or> fuel = 0"
  using assms(1,3)
proof (induction fuel arbitrary: sz w)
  case (Suc fuel)
  obtain x w1 where x: "run_state (keyctlBuffer calls KEYCTL_READ key sz 0) w = (x, w1)" by fastforce
  show ?case
  proof (cases x)
    case (Inl e)
    with Suc.prems(1) x show ?thesis by (intro exI [of _ sz] exI [of _ w]) auto
  next
    case (Inr cb)
    obtain c b where cb: "x = Inr (c, b)" using Inr by (cases cb) auto
    show ?thesis
    proof (cases "c \<le> sz")
      case True
      with Suc.prems(1) x cb show ?thesis by (intro exI [of _ sz] exI [of _ w]) auto
    next
      case False
      have "c \<le> limit" using assms(2) [of sz w c b] x cb by simp
      with False Suc.prems(2) have "limit < fuel + c" "fuel \<noteq> 0" by linarith+
      moreover have "run_state (readKeyContents_loop calls fuel key c) w1 = (r, w')"
        using Suc.prems(1) x cb False by simp
      ultimately show ?thesis using Suc.IH by blast
    qed
  qed
qed simp

text \<open>C9 A value read from the kernel is one payload, never a mix: \<open>readKeyContents\<close> returns exactly what
  a single successful read copied into a buffer that was large enough, or an error of a
  call; and however the payload changes between its reads, it returns, because each retry is
  for a larger payload and payloads are bounded: the model's fuel is never used up.\<close>

theorem readKeyContents_snapshot:
  assumes "run_state (readKeyContents calls fuel key) w = (r, w')"
    and "\<And>n u c b. fst (run_state (keyctlBuffer calls KEYCTL_READ key n 0) u) = Inr (c, b) \<Longrightarrow> c \<le> limit"
    and "limit < fuel"
  shows "\<exists>n u x. run_state (keyctlBuffer calls KEYCTL_READ key n 0) u = (x, w') \<and>
     (case r of Inl e \<Rightarrow> x = Inl e | Inr v \<Rightarrow> \<exists>c b. x = Inr (c, b) \<and> c \<le> n \<and> v = take c b)"
proof -
  obtain x w1 where x: "run_state (keyctlBuffer calls KEYCTL_READ key 0 0) w = (x, w1)" by fastforce
  show ?thesis
  proof (cases x)
    case (Inl e)
    with assms(1) x show ?thesis
      by (intro exI [of _ 0] exI [of _ w]) (auto simp: readKeyContents_def)
  next
    case (Inr cb)
    with assms(1) x have "run_state (readKeyContents_loop calls fuel key (fst cb)) w1 = (r, w')"
      by (cases cb) (auto simp: readKeyContents_def)
    from readKeyContents_loop_result [OF this assms(2)] assms(3) show ?thesis by auto
  qed
qed

text \<open>A payload that grows from two bytes to three between the first two reads.\<close>

definition growing_calls :: "nat keyctl_calls" where
  "growing_calls = \<lparr>getKeyringID = (\<lambda>_ _. ret (Inr 1)), searchKey = (\<lambda>_ _ _ _. ret (Inr 1)),
     addKey = (\<lambda>_ _ _ _. ret (Inr 1)),
     keyctlBuffer = (\<lambda>_ _ n _. do { t \<leftarrow> State_Monad.get; State_Monad.set (t + 1);
        ret (Inr (if t = 0 then (2, ''ab'') else (3, if n < 3 then [] else ''xyz''))) }),
     keyctlInt = (\<lambda>_ _ _ _ _. ret (Inr 0))\<rparr>"

theorem readKeyContents_snapshot_witness:
  "\<exists>n u x. run_state (keyctlBuffer growing_calls KEYCTL_READ 1 n 0) u = (x, 3)
     \<and> (\<exists>c b. x = Inr (c, b) \<and> c \<le> n \<and> ''xyz'' = take c b)"
proof -
  have r: "run_state (readKeyContents growing_calls 4 1) 0 = (Inr ''xyz'', 3)"
    by (simp add: readKeyContents_def growing_calls_def eval_nat_numeral)
  have "c \<le> 3" if "fst (run_state (keyctlBuffer growing_calls KEYCTL_READ 1 n 0) u) = Inr (c, b)" for n u c b
    using that by (auto simp: growing_calls_def split: if_splits)
  from readKeyContents_snapshot [OF r this] show ?thesis by simp
qed

text \<open>Two services cannot reach each other's kernel keys unless SHA-256 collides, provided service
  names have no zero byte: different pairs of service and key hash different inputs, and
  their names are equal exactly when the digests are.\<close>

lemma keyName_separates:
  assumes "CHR 0x00 \<notin> set service" "CHR 0x00 \<notin> set service'" "(service, key) \<noteq> (service', key')"
  shows "keyName_input service key \<noteq> keyName_input service' key'
     \<and> (keyName service key = keyName service' key' \<longleftrightarrow>
        Sum256 (keyName_input service key) = Sum256 (keyName_input service' key'))"
  using assms keyName_input_inj by (simp add: keyName_def hex_inj)

lemma keyName_separates_witness:
  "keyName_input ''mail'' ''alice'' \<noteq> keyName_input ''mail2'' ''alice''"
  using keyName_separates [of "''mail''" "''mail2''" "''alice''" "''alice''"] by simp

text \<open>With a zero byte in a name they can: for every service and key there are others with the very
  same entry in the user-session keyring, since the separator \<open>"\000key\000"\<close> may occur in
  either.\<close>

lemma keyName_ambiguous:
  "keyName (s @ [CHR 0x00] @ ''key'' @ [CHR 0x00] @ t) k
     = keyName s (t @ [CHR 0x00] @ ''key'' @ [CHR 0x00] @ k)
   \<and> (s @ [CHR 0x00] @ ''key'' @ [CHR 0x00] @ t, k) \<noteq> (s, t @ [CHR 0x00] @ ''key'' @ [CHR 0x00] @ k)"
  by (simp add: keyName_def keyName_input_def)

end
