(* ===== verification/Iox.thy ===== *)
theory Iox
  imports Go_Errors
begin

text \<open>\<open>internal/iox/buffer.go\<close>: the buffer that collects a bounded part of a child's output.\<close>

record limited_buffer =
  buf :: bytes
  limit :: int
  overflow :: bool

definition NewLimitedBuffer :: "int \<Rightarrow> go_error + limited_buffer" where
  "NewLimitedBuffer n =
     (if n < 0 then Inl (GoPanic ''internal: negative LimitedBuffer limit'')
      else Inr \<lparr>buf = [], limit = n, overflow = False\<rparr>)"

definition LimitedBuffer_Write :: "bytes \<Rightarrow> limited_buffer \<Rightarrow> (nat \<times> go_error option) \<times> limited_buffer" where
  "LimitedBuffer_Write contents b =
     (let remaining = limit b - int (length (buf b))
      in if int (length contents) \<le> remaining
         then ((length contents, None), b\<lparr>buf := buf b @ contents\<rparr>)
         else ((length contents, None),
           (if remaining > 0 then b\<lparr>buf := buf b @ take (nat remaining) contents\<rparr> else b)\<lparr>overflow := True\<rparr>))"

definition LimitedBuffer_Bytes :: "limited_buffer \<Rightarrow> bytes" where
  "LimitedBuffer_Bytes b = buf b"

definition LimitedBuffer_Overflow :: "limited_buffer \<Rightarrow> bool" where
  "LimitedBuffer_Overflow b = overflow b"

text \<open>Several writes, as a copying goroutine does them.\<close>

definition write_chunks :: "bytes list \<Rightarrow> limited_buffer \<Rightarrow> limited_buffer" where
  "write_chunks cs b = fold (\<lambda>c b. snd (LimitedBuffer_Write c b)) cs b"

lemma Write_snd:
  assumes "int (length (buf b)) \<le> limit b"
  shows "snd (LimitedBuffer_Write c b) =
     b\<lparr>buf := take (nat (limit b)) (buf b @ c),
       overflow := (overflow b \<or> int (length (buf b @ c)) > limit b)\<rparr>"
  using assms by (auto simp: LimitedBuffer_Write_def Let_def nat_diff_distrib)

lemma write_chunks_result:
  assumes "int (length (buf b)) \<le> limit b"
  shows "write_chunks cs b =
     b\<lparr>buf := take (nat (limit b)) (buf b @ concat cs),
       overflow := (overflow b \<or> int (length (buf b @ concat cs)) > limit b)\<rparr>"
  using assms
proof (induction cs arbitrary: b)
  case Nil
  then show ?case by (simp add: write_chunks_def)
next
  case (Cons c cs)
  let ?b = "snd (LimitedBuffer_Write c b)"
  have step: "?b = b\<lparr>buf := take (nat (limit b)) (buf b @ c),
       overflow := (overflow b \<or> int (length (buf b @ c)) > limit b)\<rparr>"
    using Cons.prems by (rule Write_snd)
  then have inv: "int (length (buf ?b)) \<le> limit ?b" using Cons.prems by simp
  have "write_chunks (c # cs) b = write_chunks cs ?b" by (simp add: write_chunks_def)
  also have "\<dots> = ?b\<lparr>buf := take (nat (limit ?b)) (buf ?b @ concat cs),
       overflow := (overflow ?b \<or> int (length (buf ?b @ concat cs)) > limit ?b)\<rparr>"
    using inv by (rule Cons.IH)
  also have "\<dots> = b\<lparr>buf := take (nat (limit b)) (buf b @ concat (c # cs)),
       overflow := (overflow b \<or> int (length (buf b @ concat (c # cs))) > limit b)\<rparr>"
  proof -
    have "take (nat (limit b)) (take (nat (limit b)) (buf b @ c) @ concat cs) =
        take (nat (limit b)) (buf b @ c @ concat cs)"
      using Cons.prems by (cases "length (buf b @ c) \<le> nat (limit b)") (auto simp: min_def)
    moreover have "(int (length (take (nat (limit b)) (buf b @ c) @ concat cs)) > limit b
          \<or> int (length (buf b @ c)) > limit b)
        \<longleftrightarrow> int (length (buf b @ concat (c # cs))) > limit b"
      using Cons.prems by (auto simp: min_def)
    ultimately show ?thesis by (auto simp: step)
  qed
  finally show ?case .
qed

text \<open>C40 However the output of a child is cut into writes, the buffer keeps exactly its first \<open>limit\<close>
  bytes, reports an overflow exactly when there were more, and every write reports complete
  success, so a child is neither blocked nor given a broken pipe.\<close>

theorem limited_buffer_prefix:
  assumes "NewLimitedBuffer n = Inr b"
  shows "LimitedBuffer_Bytes (write_chunks cs b) = take (nat n) (concat cs)
     \<and> LimitedBuffer_Overflow (write_chunks cs b) = (int (length (concat cs)) > n)
     \<and> fst (LimitedBuffer_Write c (write_chunks cs b)) = (length c, None)"
proof -
  have "b = \<lparr>buf = [], limit = n, overflow = False\<rparr>" "0 \<le> n"
    using assms by (auto simp: NewLimitedBuffer_def split: if_splits)
  then show ?thesis using write_chunks_result [of b cs]
    by (simp add: LimitedBuffer_Bytes_def LimitedBuffer_Overflow_def LimitedBuffer_Write_def Let_def)
qed

theorem limited_buffer_prefix_witness:
  "LimitedBuffer_Bytes (write_chunks [''ab'', ''cd''] \<lparr>buf = [], limit = 3, overflow = False\<rparr>) = ''abc''"
proof -
  have "NewLimitedBuffer 3 = Inr \<lparr>buf = [], limit = 3, overflow = False\<rparr>"
    by (simp add: NewLimitedBuffer_def)
  from limited_buffer_prefix [OF this, of "[''ab'', ''cd'']"] show ?thesis
    by (simp add: eval_nat_numeral)
qed

end
