(* ===== verification/Wsl2_Protocol.thy ===== *)
theory Wsl2_Protocol
  imports Contract Encoding Go_Strings Iox
begin

text \<open>
  \<open>secure/wsl2/protocol.go\<close> and \<open>process.go\<close>: requests to the Windows helper, validation of
  its responses, and running it. \<open>json.Unmarshal\<close> into the response struct is an argument,
  which \<open>Wsl2_Json\<close> gives; so is the execution of the command, which yields the pieces it wrote to
  standard output and
  its error.
\<close>

definition protocolID :: string where "protocolID = ''keyring-winbridge/v1alpha1''"
definition backendName :: string where "backendName = ''windows-credential-manager''"
definition maxMessageBytes :: nat where "maxMessageBytes = 1048576"
definition maxSecretBytes :: nat where "maxSecretBytes = 5 * 512"
definition exitSuccess :: int where "exitSuccess = 0"
definition exitOperationError :: int where "exitOperationError = 1"

definition operationProbe :: string where "operationProbe = ''probe''"
definition operationGet :: string where "operationGet = ''get''"
definition operationSet :: string where "operationSet = ''set''"
definition operationDelete :: string where "operationDelete = ''delete''"

lemmas operation_names = operationProbe_def operationGet_def operationSet_def operationDelete_def

record helper_request =
  rq_Protocol :: string
  rq_RequestID :: string
  rq_Operation :: string
  rq_Service :: string
  rq_Account :: string
  rq_Secret :: "string option"

text \<open>A nil slice of protocols is \<open>None\<close>. The last field is the decoded secret.\<close>

record helper_result =
  HelperVersion :: string
  SupportedProtocols :: "string list option"
  rs_Backend :: string
  rs_Secret :: "string option"
  Deleted :: "bool option"
  secret :: bytes

record helper_response =
  rp_Protocol :: string
  rp_RequestID :: string
  rp_OK :: bool
  rp_Result :: "helper_result option"
  rp_Error :: "protocol_error option"

definition wsl_error :: "wsl_sentinel \<Rightarrow> string \<Rightarrow> go_error list \<Rightarrow> go_error" where
  "wsl_error s why es = Errorf (''%w: '' @ why) (Wsl s # es)"

lemma wsl_error_is [simp]:
  "err_is (wsl_error s why es) (Wsl t) \<longleftrightarrow> s = t \<or> (\<exists>e\<in>set es. err_is e (Wsl t))"
  "err_is (wsl_error s why es) (Category c) \<longleftrightarrow> (\<exists>e\<in>set es. err_is e (Category c))"
  by (auto simp: wsl_error_def list_ex_iff)

text \<open>\<open>io.ReadFull\<close> of 16 random bytes is the argument.\<close>

definition newRequestID :: "(nat \<Rightarrow> ('w, go_error + bytes) state) \<Rightarrow> ('w, go_error + string) state" where
  "newRequestID ReadFull = do {
     r \<leftarrow> ReadFull 16;
     ret (case r of Inl err \<Rightarrow> Inl (Errorf ''generate request id: %w'' [err])
          | Inr b \<Rightarrow> Inr (hex_EncodeToString b))
   }"

definition validateRequest :: "helper_request \<Rightarrow> go_error option" where
  "validateRequest r =
     (let op = rq_Operation r in
      if rq_Service r = '''' \<and> op \<noteq> operationProbe
      then Some (wsl_error W_ErrInvalidArgument ''service is empty'' [])
      else if CHR 0x00 \<in> set (rq_Service r)
      then Some (wsl_error W_ErrInvalidArgument ''service contains a NUL character'' [])
      else if rq_Account r = '''' \<and> op \<noteq> operationProbe
      then Some (wsl_error W_ErrInvalidArgument ''account is empty'' [])
      else if CHR 0x00 \<in> set (rq_Account r)
      then Some (wsl_error W_ErrInvalidArgument ''account contains a NUL character'' [])
      else if op = operationProbe
      then (if rq_Service r \<noteq> '''' \<or> rq_Account r \<noteq> '''' \<or> rq_Secret r \<noteq> None
            then Some (wsl_error W_ErrInternal ''probe contains credential fields'' []) else None)
      else if op = operationGet \<or> op = operationDelete
      then (if rq_Secret r \<noteq> None
            then Some (wsl_error W_ErrInternal ''%s request contains a secret'' []) else None)
      else if op = operationSet
      then (if rq_Secret r = None
            then Some (wsl_error W_ErrInternal ''set request secret is missing'' []) else None)
      else Some (wsl_error W_ErrInternal ''unsupported operation %q'' []))"

definition validErrorCode :: "string \<Rightarrow> bool" where
  "validErrorCode code \<longleftrightarrow> sentinelForCode code \<noteq> None"

definition validateProtocolError :: "protocol_error \<Rightarrow> go_error option" where
  "validateProtocolError e =
     (if pe_Code e = '''' \<or> pe_Message e = ''''
      then Some (wsl_error W_ErrProtocol ''invalid operation error'' [])
      else if \<not> validErrorCode (pe_Code e)
      then Some (wsl_error W_ErrProtocol ''unknown error code %q'' [])
      else if pe_Code e = ''unsupported_protocol''
      then (if pe_SupportedProtocols e = []
            then Some (wsl_error W_ErrProtocol ''unsupported protocol response has no supported protocols'' [])
            else None)
      else if pe_SupportedProtocols e \<noteq> []
      then Some (wsl_error W_ErrProtocol ''unexpected supported protocols in operation error'' [])
      else None)"

text \<open>On success the result is returned, with the secret decoded for \<open>get\<close>.\<close>

definition validateResult :: "string \<Rightarrow> helper_result \<Rightarrow> go_error + helper_result" where
  "validateResult operation r =
     (let hasProbeFields = HelperVersion r \<noteq> '''' \<or> SupportedProtocols r \<noteq> None \<or> rs_Backend r \<noteq> ''''
      in if operation = operationProbe
         then (if HelperVersion r = '''' \<or> rs_Backend r \<noteq> backendName
                 \<or> \<not> (case SupportedProtocols r of None \<Rightarrow> False | Some ps \<Rightarrow> protocolID \<in> set ps)
                 \<or> rs_Secret r \<noteq> None \<or> Deleted r \<noteq> None
               then Inl (wsl_error W_ErrProtocol ''invalid probe result'' [])
               else Inr r)
         else if operation = operationGet
         then (case rs_Secret r of
             None \<Rightarrow> Inl (wsl_error W_ErrProtocol ''invalid get result'' [])
           | Some s \<Rightarrow>
               (if Deleted r \<noteq> None \<or> hasProbeFields
                then Inl (wsl_error W_ErrProtocol ''invalid get result'' [])
                else (case base64_decode True s of
                    Inl err \<Rightarrow> Inl (wsl_error W_ErrProtocol ''invalid secret encoding: %w'' [err])
                  | Inr decoded \<Rightarrow>
                      (if length decoded > maxSecretBytes
                       then Inl (wsl_error W_ErrProtocol ''response secret exceeds %d bytes'' [])
                       else Inr (r\<lparr>secret := decoded\<rparr>)))))
         else if operation = operationSet
         then (if rs_Secret r \<noteq> None \<or> Deleted r \<noteq> None \<or> hasProbeFields
               then Inl (wsl_error W_ErrProtocol ''invalid set result'' []) else Inr r)
         else if operation = operationDelete
         then (if Deleted r = None \<or> rs_Secret r \<noteq> None \<or> hasProbeFields
               then Inl (wsl_error W_ErrProtocol ''invalid delete result'' []) else Inr r)
         else Inl (wsl_error W_ErrInternal ''unsupported response operation %q'' []))"

definition decodeResponse ::
  "(bytes \<Rightarrow> go_error + helper_response) \<Rightarrow> bytes \<Rightarrow> helper_request \<Rightarrow> go_error + helper_response" where
  "decodeResponse Unmarshal out rq =
     (if out = [] then Inl (wsl_error W_ErrProtocol ''empty response'' [])
      else if length out > maxMessageBytes
      then Inl (wsl_error W_ErrProtocol ''response exceeds %d bytes'' [])
      else (case Unmarshal out of
          Inl err \<Rightarrow> Inl (wsl_error W_ErrProtocol ''decode response: %w'' [err])
        | Inr rp \<Rightarrow>
            (if rp_Protocol rp \<noteq> rq_Protocol rq
             then Inl (wsl_error W_ErrProtocol ''response protocol does not match request'' [])
             else if rp_RequestID rp \<noteq> rq_RequestID rq
             then Inl (wsl_error W_ErrProtocol ''response request id does not match request'' [])
             else if rp_OK rp
             then (case rp_Result rp of
                 None \<Rightarrow> Inl (wsl_error W_ErrProtocol ''invalid successful response'' [])
               | Some r \<Rightarrow>
                   (if rp_Error rp \<noteq> None
                    then Inl (wsl_error W_ErrProtocol ''invalid successful response'' [])
                    else (case validateResult (rq_Operation rq) r of
                        Inl err \<Rightarrow> Inl err
                      | Inr r' \<Rightarrow> Inr (rp\<lparr>rp_Result := Some r'\<rparr>))))
             else (case rp_Error rp of
                 None \<Rightarrow> Inl (wsl_error W_ErrProtocol ''invalid failed response'' [])
               | Some e \<Rightarrow>
                   (if rp_Result rp \<noteq> None
                    then Inl (wsl_error W_ErrProtocol ''invalid failed response'' [])
                    else (case validateProtocolError e of Some err \<Rightarrow> Inl err | None \<Rightarrow> Inr rp))))))"

section \<open>Running the helper\<close>

record process_result =
  pr_output :: bytes
  pr_exitCode :: int
  pr_err :: "go_error option"

definition run_helper ::
  "('w ctx \<Rightarrow> string \<Rightarrow> bytes \<Rightarrow> ('w, bytes list \<times> go_error option) state)
     \<Rightarrow> 'w ctx \<Rightarrow> string \<Rightarrow> bytes \<Rightarrow> ('w, process_result) state" where
  "run_helper command_Run ctx helperPath input = do {
     r \<leftarrow> command_Run ctx helperPath input;
     ret (case r of (chunks, err) \<Rightarrow>
       (case NewLimitedBuffer (int maxMessageBytes) of
          Inl p \<Rightarrow> \<lparr>pr_output = [], pr_exitCode = -1, pr_err = Some p\<rparr>
        | Inr b \<Rightarrow>
            let out = write_chunks chunks b
            in if LimitedBuffer_Overflow out
               then \<lparr>pr_output = [], pr_exitCode = -1,
                 pr_err = Some (wsl_error W_ErrProtocol ''response exceeds %d bytes'' [])\<rparr>
               else (case err of
                   None \<Rightarrow> \<lparr>pr_output = LimitedBuffer_Bytes out, pr_exitCode = 0, pr_err = None\<rparr>
                 | Some e \<Rightarrow>
                     (case as_ExitError e of
                        Some code \<Rightarrow> \<lparr>pr_output = LimitedBuffer_Bytes out, pr_exitCode = code, pr_err = None\<rparr>
                      | None \<Rightarrow> \<lparr>pr_output = LimitedBuffer_Bytes out, pr_exitCode = -1, pr_err = Some e\<rparr>))))
   }"

end
