(* ===== verification/Wsl2.thy ===== *)
theory Wsl2
  imports Wsl2_Protocol Keyringer
begin

text \<open>
  \<open>secure/wsl2/client.go\<close>, \<open>keyring.go\<close> and the errors of \<open>errors.go\<close>: the keyring that keeps
  its values in Windows Credential Manager through a helper process. A receiver or a function
  field that may be nil is an option. \<open>context.WithTimeout\<close> is an argument: it yields the
  derived context and its cancel function.
\<close>

definition ErrHelperNotFound :: go_error where
  "ErrHelperNotFound = Errorf ''%w: keyring-winbridge executable not found'' [Wsl W_ErrBackendUnavailable]"

definition ProtocolError_Error :: "protocol_error option \<Rightarrow> string" where
  "ProtocolError_Error e =
     (case e of None \<Rightarrow> ''''
      | Some p \<Rightarrow> (if pe_Message p = '''' then pe_Code p else pe_Code p @ '': '' @ pe_Message p))"

definition ProtocolError_Unwrap :: "protocol_error option \<Rightarrow> wsl_sentinel option" where
  "ProtocolError_Unwrap e = (case e of None \<Rightarrow> None | Some p \<Rightarrow> sentinelForCode (pe_Code p))"

type_synonym 'w runFunc = "'w ctx \<Rightarrow> string \<Rightarrow> bytes \<Rightarrow> ('w, process_result) state"

record 'w wsl2_keyring =
  w_service :: string
  w_helperPath :: string
  w_timeout :: int
  w_run :: "'w runFunc option"
  w_requestID :: "('w, go_error + string) state option"
  w_encode :: "(helper_request \<Rightarrow> go_error + bytes) option"

text \<open>15 s in nanoseconds.\<close>

definition defaultTimeout :: int where "defaultTimeout = 15000000000"
definition executableName :: string where "executableName = ''keyring-winbridge.exe''"

section \<open>The client\<close>

definition make_request :: "'w wsl2_keyring \<Rightarrow> string \<Rightarrow> string \<Rightarrow> string \<Rightarrow> string option \<Rightarrow> helper_request" where
  "make_request k requestID operation account sec =
     \<lparr>rq_Protocol = protocolID, rq_RequestID = requestID, rq_Operation = operation,
      rq_Service = (if operation \<noteq> operationProbe then w_service k else ''''),
      rq_Account = (if operation \<noteq> operationProbe then account else ''''),
      rq_Secret = sec\<rparr>"

text \<open>What is made of the finished process, and of the response.\<close>

definition check_response :: "int \<Rightarrow> helper_response \<Rightarrow> go_error + helper_result" where
  "check_response exitCode rp =
     (if rp_OK rp
      then (if exitCode \<noteq> exitSuccess
            then Inl (wsl_error W_ErrProtocol ''helper returned success with exit code %d'' [])
            else Inr (the (rp_Result rp)))
      else if exitCode \<noteq> exitOperationError
      then Inl (wsl_error W_ErrProtocol ''helper returned an operation error with exit code %d'' [])
      else Inl (ProtocolErr (the (rp_Error rp))))"

definition check_process ::
  "(bytes \<Rightarrow> go_error + helper_response) \<Rightarrow> helper_request \<Rightarrow> process_result \<Rightarrow> go_error option
     \<Rightarrow> go_error + helper_result" where
  "check_process Unmarshal rq process ctxErr =
     (case ctxErr of
        Some c \<Rightarrow>
          (if err_is c Canceled then Inl c
           else Inl (wsl_error W_ErrTimeout ''run keyring-winbridge: %w'' [c]))
      | None \<Rightarrow>
          (case pr_err process of
             Some e \<Rightarrow>
               (if err_is e (Wsl W_ErrProtocol) then Inl e
                else if rq_Operation rq = operationProbe
                then Inl (wsl_error W_ErrBackendFailure ''run keyring-winbridge: %w'' [e])
                else Inl (wsl_error W_ErrBackendUnavailable ''run keyring-winbridge: %w'' [e]))
           | None \<Rightarrow>
               (case decodeResponse Unmarshal (pr_output process) rq of
                  Inl err \<Rightarrow> Inl err
                | Inr rp \<Rightarrow> check_response (pr_exitCode process) rp)))"

definition invoke ::
  "(bytes \<Rightarrow> go_error + helper_response) \<Rightarrow> 'w with_timeout \<Rightarrow> 'w wsl2_keyring option \<Rightarrow> 'w ctx option
     \<Rightarrow> string \<Rightarrow> string \<Rightarrow> string option \<Rightarrow> ('w, go_error + helper_result) state" where
  "invoke Unmarshal WithTimeout kr parent operation account sec = do {
     cerr \<leftarrow> ContextError parent;
     (case cerr of
        Some err \<Rightarrow> ret (Inl err)
      | None \<Rightarrow>
          (case kr of
             None \<Rightarrow> ret (Inl (wsl_error W_ErrInternal ''client is not configured'' []))
           | Some k \<Rightarrow>
               (if w_run k = None \<or> w_requestID k = None \<or> w_encode k = None \<or> w_helperPath k = ''''
                then ret (Inl (wsl_error W_ErrInternal ''client is not configured'' []))
                else if w_timeout k \<le> 0
                then ret (Inl (wsl_error W_ErrInternal ''timeout is not configured'' []))
                else do {
                  r \<leftarrow> the (w_requestID k);
                  (case r of
                     Inl err \<Rightarrow> ret (Inl (wsl_error W_ErrInternal ''generate request id: %w'' [err]))
                   | Inr requestID \<Rightarrow>
                       (if requestID = ''''
                        then ret (Inl (wsl_error W_ErrInternal ''request id is empty'' []))
                        else
                          let rq = make_request k requestID operation account sec in
                          (case validateRequest rq of
                             Some err \<Rightarrow> ret (Inl err)
                           | None \<Rightarrow>
                               (case the (w_encode k) rq of
                                  Inl err \<Rightarrow> ret (Inl (wsl_error W_ErrInternal ''encode request: %w'' [err]))
                                | Inr encoded \<Rightarrow>
                                    let input = encoded @ [CHR 10] in
                                    (if length input > maxMessageBytes
                                     then ret (Inl (wsl_error W_ErrValueTooLarge ''request exceeds %d bytes'' []))
                                     else do {
                                       t \<leftarrow> WithTimeout (the parent) (w_timeout k);
                                       (case t of (ctx, cancel) \<Rightarrow> do {
                                          process \<leftarrow> the (w_run k) ctx (w_helperPath k) input;
                                          ctxErr \<leftarrow> ctx;
                                          _ \<leftarrow> cancel;
                                          ret (check_process Unmarshal rq process ctxErr)
                                        })
                                     })))))
                })))
   }"

section \<open>Portable errors\<close>

definition wsl_category :: "go_error \<Rightarrow> category" where
  "wsl_category e =
     (if err_is e DeadlineExceeded \<or> err_is e (Wsl W_ErrTimeout) then ErrTimeout
      else if err_is e (Wsl W_ErrNotFound) then ErrNotFound
      else if err_is e (Wsl W_ErrInvalidArgument) then ErrInvalidArgument
      else if err_is e (Wsl W_ErrValueTooLarge) then ErrValueTooLarge
      else if err_is e (Wsl W_ErrBackendUnavailable) then ErrBackendUnavailable
      else if err_is e (Wsl W_ErrAccessDenied) then ErrPermissionDenied
      else if err_is e (Wsl W_ErrUnsupportedProtocol) \<or> err_is e (Wsl W_ErrUnsupportedOperation)
        \<or> err_is e (Wsl W_ErrNotWSL2) then ErrUnsupported
      else ErrBackendFailure)"

definition portableError :: "go_error option \<Rightarrow> go_error option" where
  "portableError err =
     (case err of
        None \<Rightarrow> None
      | Some e \<Rightarrow> Some (if err_is e Canceled then e else Errorf ''%w: %w'' [Category (wsl_category e), e]))"

definition portable_of :: "go_error \<Rightarrow> go_error" where
  "portable_of e = the (portableError (Some e))"

section \<open>The keyring\<close>

definition isKernelRelease :: "bytes \<Rightarrow> bool" where
  "isKernelRelease release =
     (let normalized = ToLower (TrimSpace release)
      in Contains normalized ''microsoft-standard-wsl2'' \<or> Contains normalized ''wsl2'')"

definition isWSL2 :: "('w, go_error + bytes) state \<Rightarrow> ('w, bool) state" where
  "isWSL2 readKernelRelease = do {
     r \<leftarrow> readKernelRelease;
     ret (case r of Inl err \<Rightarrow> False | Inr release \<Rightarrow> isKernelRelease release)
   }"

definition wsl2_probe ::
  "(bytes \<Rightarrow> go_error + helper_response) \<Rightarrow> 'w with_timeout \<Rightarrow> 'w wsl2_keyring option \<Rightarrow> 'w ctx option
     \<Rightarrow> ('w, go_error option) state" where
  "wsl2_probe Unmarshal WithTimeout kr ctx = do {
     r \<leftarrow> invoke Unmarshal WithTimeout kr ctx operationProbe '''' None;
     ret (case r of Inl err \<Rightarrow> Some err | Inr _ \<Rightarrow> None)
   }"

definition wsl2_New ::
  "(bytes \<Rightarrow> go_error + helper_response) \<Rightarrow> 'w with_timeout \<Rightarrow> ('w, bool) state
     \<Rightarrow> (string \<Rightarrow> ('w, go_error + string) state) \<Rightarrow> 'w runFunc \<Rightarrow> (nat \<Rightarrow> ('w, go_error + bytes) state)
     \<Rightarrow> (helper_request \<Rightarrow> go_error + bytes) \<Rightarrow> 'w ctx option \<Rightarrow> string
     \<Rightarrow> ('w, go_error + 'w wsl2_keyring) state" where
  "wsl2_New Unmarshal WithTimeout IsWSL2 lookPath runProcess ReadFull encodeRequest ctx service = do {
     cerr \<leftarrow> ContextError ctx;
     (case cerr of
        Some err \<Rightarrow> ret (Inl err)
      | None \<Rightarrow>
          (if service = ''''
           then ret (Inl (portable_of (wsl_error W_ErrInvalidArgument ''service is empty'' [])))
           else if CHR 0x00 \<in> set service
           then ret (Inl (portable_of (wsl_error W_ErrInvalidArgument ''service contains a NUL character'' [])))
           else do {
             inside \<leftarrow> IsWSL2;
             (if \<not> inside then ret (Inl (portable_of (Wsl W_ErrNotWSL2)))
              else do {
                p \<leftarrow> lookPath executableName;
                (case p of
                   Inl err \<Rightarrow>
                     ret (Inl (portable_of
                       (if err_is err ExecErrNotFound
                        then Errorf ''%w: find %s: %w'' [ErrHelperNotFound, err]
                        else wsl_error W_ErrBackendFailure ''find %s: %w'' [err])))
                 | Inr helperPath \<Rightarrow>
                     let k = \<lparr>w_service = service, w_helperPath = helperPath, w_timeout = defaultTimeout,
                       w_run = Some runProcess, w_requestID = Some (newRequestID ReadFull),
                       w_encode = Some encodeRequest\<rparr>
                     in do {
                       e \<leftarrow> wsl2_probe Unmarshal WithTimeout (Some k) ctx;
                       ret (case e of
                          Some err \<Rightarrow> Inl (portable_of (Errorf ''probe %s: %w'' [err]))
                        | None \<Rightarrow> Inr k)
                     })
              })
           }))
   }"

definition wsl2_Get ::
  "(bytes \<Rightarrow> go_error + helper_response) \<Rightarrow> 'w with_timeout \<Rightarrow> 'w wsl2_keyring option \<Rightarrow> 'w ctx option \<Rightarrow> string
     \<Rightarrow> ('w, go_error + bytes) state" where
  "wsl2_Get Unmarshal WithTimeout k ctx username = do {
     r \<leftarrow> invoke Unmarshal WithTimeout k ctx operationGet username None;
     ret (case r of Inl err \<Rightarrow> Inl (portable_of err) | Inr res \<Rightarrow> Inr (secret res))
   }"

definition wsl2_Set ::
  "(bytes \<Rightarrow> go_error + helper_response) \<Rightarrow> 'w with_timeout \<Rightarrow> 'w wsl2_keyring option \<Rightarrow> 'w ctx option \<Rightarrow> string
     \<Rightarrow> bytes \<Rightarrow> ('w, go_error option) state" where
  "wsl2_Set Unmarshal WithTimeout k ctx username password =
     (if length password > maxSecretBytes
      then ret (portableError (Some (wsl_error W_ErrValueTooLarge ''secret exceeds %d bytes'' [])))
      else do {
        r \<leftarrow> invoke Unmarshal WithTimeout k ctx operationSet username (Some (base64_encode password));
        ret (portableError (case r of Inl err \<Rightarrow> Some err | Inr _ \<Rightarrow> None))
      })"

definition wsl2_Delete ::
  "(bytes \<Rightarrow> go_error + helper_response) \<Rightarrow> 'w with_timeout \<Rightarrow> 'w wsl2_keyring option \<Rightarrow> 'w ctx option \<Rightarrow> string
     \<Rightarrow> ('w, go_error option) state" where
  "wsl2_Delete Unmarshal WithTimeout k ctx username = do {
     r \<leftarrow> invoke Unmarshal WithTimeout k ctx operationDelete username None;
     ret (case r of
        Inl err \<Rightarrow> portableError (Some err)
      | Inr res \<Rightarrow> (if Deleted res \<noteq> Some True then portableError (Some (Wsl W_ErrNotFound)) else None))
   }"

section \<open>Lemmas\<close>

lemma invoke_Inr:
  assumes "run_state (invoke Unmarshal WithTimeout kr parent operation account sec) w = (Inr res, w')"
  shows "\<exists>k requestID encoded ctx process w1 w2.
     kr = Some k \<and> parent \<noteq> None
     \<and> validateRequest (make_request k requestID operation account sec) = None
     \<and> the (w_encode k) (make_request k requestID operation account sec) = Inr encoded
     \<and> length encoded < maxMessageBytes
     \<and> run_state (the (w_run k) ctx (w_helperPath k) (encoded @ [CHR 10])) w1 = (process, w2)
     \<and> check_process Unmarshal (make_request k requestID operation account sec) process
         (fst (run_state ctx w2)) = Inr res"
proof -
  obtain cerr w0 where c: "run_state (ContextError parent) w = (cerr, w0)" by fastforce
  have cerr: "cerr = None" using assms c by (cases cerr) (auto simp: invoke_def)
  then have parent: "parent \<noteq> None" "cerr = None" using c by (cases parent, auto)
  obtain k where k: "kr = Some k" using assms c cerr by (cases kr) (auto simp: invoke_def)
  note run = assms [unfolded invoke_def, simplified c parent k run_bind_eq [OF c] option.case]
  have conf: "\<not> (w_run k = None \<or> w_requestID k = None \<or> w_encode k = None \<or> w_helperPath k = '''')"
    "\<not> w_timeout k \<le> 0"
    using run by (auto split: if_splits)
  obtain q w1 where q: "run_state (the (w_requestID k)) w0 = (q, w1)" by fastforce
  obtain requestID where rid: "q = Inr requestID" "requestID \<noteq> ''''"
    using run conf q by (cases q) (auto split: if_splits)
  let ?rq = "make_request k requestID operation account sec"
  have v: "validateRequest ?rq = None"
    using run conf q rid by (auto simp: Let_def split: option.splits)
  obtain encoded where e: "the (w_encode k) ?rq = Inr encoded"
    using run conf q rid v by (cases "the (w_encode k) ?rq") (auto simp: Let_def)
  have len: "\<not> length (encoded @ [CHR 10]) > maxMessageBytes"
    using run conf q rid v e by (auto simp: Let_def split: if_splits)
  obtain ctx cancel w2 where t: "run_state (WithTimeout (the parent) (w_timeout k)) w1 = ((ctx, cancel), w2)"
    by (metis surj_pair)
  obtain process w3 where p: "run_state (the (w_run k) ctx (w_helperPath k) (encoded @ [CHR 10])) w2 = (process, w3)"
    by fastforce
  have "check_process Unmarshal ?rq process (fst (run_state ctx w3)) = Inr res"
    using run conf q rid v e len t p by (auto simp: Let_def split: prod.splits)
  with k parent v e len p show ?thesis by fastforce
qed

lemma check_process_Inr:
  assumes "check_process Unmarshal rq process ctxErr = Inr res"
  shows "ctxErr = None \<and> pr_err process = None \<and> pr_exitCode process = 0 \<and>
     (\<exists>rp r. Unmarshal (pr_output process) = Inr rp \<and> rp_Protocol rp = rq_Protocol rq
       \<and> rp_RequestID rp = rq_RequestID rq \<and> rp_OK rp \<and> rp_Error rp = None
       \<and> rp_Result rp = Some r \<and> validateResult (rq_Operation rq) r = Inr res)
     \<and> pr_output process \<noteq> [] \<and> length (pr_output process) \<le> maxMessageBytes"
proof -
  have c: "ctxErr = None" "pr_err process = None"
    using assms by (auto simp: check_process_def split: option.splits if_splits)
  then obtain rp where d: "decodeResponse Unmarshal (pr_output process) rq = Inr rp"
    and k: "check_response (pr_exitCode process) rp = Inr res"
    using assms by (auto simp: check_process_def split: sum.splits)
  from k have ok: "rp_OK rp" "pr_exitCode process = 0" "res = the (rp_Result rp)"
    by (auto simp: check_response_def exitSuccess_def split: if_splits)
  from d have out: "pr_output process \<noteq> []" "length (pr_output process) \<le> maxMessageBytes"
    by (auto simp: decodeResponse_def split: if_splits)
  with d obtain rp0 where u: "Unmarshal (pr_output process) = Inr rp0"
    by (auto simp: decodeResponse_def split: sum.splits)
  note d' = d [unfolded decodeResponse_def, simplified out u not_less [symmetric], simplified]
  have "rp_Protocol rp0 = rq_Protocol rq" "rp_RequestID rp0 = rq_RequestID rq"
    using d out u by (auto simp: decodeResponse_def split: if_splits)
  moreover from this have "rp_OK rp0"
    using d out u ok(1) by (auto simp: decodeResponse_def split: if_splits option.splits sum.splits)
  moreover from calculation obtain r where r: "rp_Result rp0 = Some r" "rp_Error rp0 = None"
    "\<exists>r'. validateResult (rq_Operation rq) r = Inr r' \<and> rp = rp0\<lparr>rp_Result := Some r'\<rparr>"
    using d out u by (auto simp: decodeResponse_def split: if_splits option.splits sum.splits)
  ultimately show ?thesis using c ok out u by auto
qed

lemma validateResult_Get:
  "validateResult operationGet r = Inr r' \<Longrightarrow>
     \<exists>s. rs_Secret r = Some s \<and> base64_decode True s = Inr (secret r') \<and> length (secret r') \<le> maxSecretBytes
       \<and> Deleted r = None \<and> HelperVersion r = '''' \<and> SupportedProtocols r = None \<and> rs_Backend r = ''''
       \<and> r' = r\<lparr>secret := secret r'\<rparr>"
  by (auto simp: validateResult_def operation_names Let_def split: option.splits if_splits sum.splits)

lemma validateResult_Delete:
  "validateResult operationDelete r = Inr r' \<Longrightarrow> r' = r \<and> (\<exists>b. Deleted r = Some b) \<and> rs_Secret r = None"
  by (auto simp: validateResult_def operation_names Let_def split: option.splits if_splits sum.splits)

lemma rq_make_request [simp]:
  "rq_Operation (make_request k rid op a s) = op" "rq_Protocol (make_request k rid op a s) = protocolID"
  "rq_RequestID (make_request k rid op a s) = rid" "rq_Secret (make_request k rid op a s) = s"
  "rq_Service (make_request k rid op a s) = (if op \<noteq> operationProbe then w_service k else '''')"
  "rq_Account (make_request k rid op a s) = (if op \<noteq> operationProbe then a else '''')"
  by (simp_all add: make_request_def)

lemma portableError_simps [simp]:
  "portableError None = None" "portableError (Some e) = Some (portable_of e)"
  by (simp_all add: portable_of_def portableError_def)

section \<open>Properties\<close>

text \<open>C10 A value is only taken from a helper response that is beyond doubt: when \<open>Get\<close> returns a value, the
  helper was run on an encoding of exactly this request, ended with exit code 0 within the
  deadline, wrote between 1 byte and 1 MiB, and its response has the protocol and the request
  identifier of the request, is a success without error, and carries a strict base64 secret
  of at most 2560 bytes which decodes to the value, and no member of another operation: no
  deletion result, helper version, protocol list or backend.\<close>

theorem wsl2_Get_trusted:
  assumes "run_state (wsl2_Get Unmarshal WithTimeout kr parent username) w = (Inr contents, w')"
  shows "\<exists>k requestID encoded ctx process w1 w2 rp r s.
     kr = Some k
     \<and> the (w_encode k) (make_request k requestID operationGet username None) = Inr encoded
     \<and> run_state (the (w_run k) ctx (w_helperPath k) (encoded @ [CHR 10])) w1 = (process, w2)
     \<and> fst (run_state ctx w2) = None \<and> pr_err process = None \<and> pr_exitCode process = 0
     \<and> pr_output process \<noteq> [] \<and> length (pr_output process) \<le> 1048576
     \<and> Unmarshal (pr_output process) = Inr rp
     \<and> rp_Protocol rp = ''keyring-winbridge/v1alpha1'' \<and> rp_RequestID rp = requestID
     \<and> rp_OK rp \<and> rp_Error rp = None \<and> rp_Result rp = Some r \<and> rs_Secret r = Some s
     \<and> base64_decode True s = Inr contents \<and> length contents \<le> 2560
     \<and> Deleted r = None \<and> HelperVersion r = '''' \<and> SupportedProtocols r = None \<and> rs_Backend r = ''''"
proof -
  obtain res where i: "run_state (invoke Unmarshal WithTimeout kr parent operationGet username None) w = (Inr res, w')"
    and v: "contents = secret res"
    using assms by (auto simp: wsl2_Get_def split: prod.splits sum.splits)
  from invoke_Inr [OF i] obtain k requestID encoded ctx process w1 w2 where
    k: "kr = Some k" "the (w_encode k) (make_request k requestID operationGet username None) = Inr encoded"
      "run_state (the (w_run k) ctx (w_helperPath k) (encoded @ [CHR 10])) w1 = (process, w2)"
    and c: "check_process Unmarshal (make_request k requestID operationGet username None) process
         (fst (run_state ctx w2)) = Inr res"
    by blast
  from check_process_Inr [OF c] obtain rp r where
    rp: "fst (run_state ctx w2) = None" "pr_err process = None" "pr_exitCode process = 0"
      "pr_output process \<noteq> []" "length (pr_output process) \<le> maxMessageBytes"
      "Unmarshal (pr_output process) = Inr rp" "rp_Protocol rp = protocolID" "rp_RequestID rp = requestID"
      "rp_OK rp" "rp_Error rp = None" "rp_Result rp = Some r" "validateResult operationGet r = Inr res"
    by auto
  from validateResult_Get [OF rp(12)] obtain s where
    "rs_Secret r = Some s" "base64_decode True s = Inr contents" "length contents \<le> 2560"
    "Deleted r = None" "HelperVersion r = ''''" "SupportedProtocols r = None" "rs_Backend r = ''''"
    by (auto simp: v maxSecretBytes_def)
  with k rp show ?thesis unfolding maxMessageBytes_def protocolID_def by blast
qed

text \<open>A helper that always answers with the same secret.\<close>

definition demo_response :: helper_response where
  "demo_response = \<lparr>rp_Protocol = protocolID, rp_RequestID = ''id'', rp_OK = True,
     rp_Result = Some \<lparr>HelperVersion = '''', SupportedProtocols = None, rs_Backend = '''',
       rs_Secret = Some (base64_encode ''hi''), Deleted = None, secret = []\<rparr>, rp_Error = None\<rparr>"

definition demo_wsl2 :: "unit wsl2_keyring" where
  "demo_wsl2 = \<lparr>w_service = ''s'', w_helperPath = ''/h'', w_timeout = 1,
     w_run = Some (\<lambda>_ _ _. ret \<lparr>pr_output = ''{}'', pr_exitCode = 0, pr_err = None\<rparr>),
     w_requestID = Some (ret (Inr ''id'')), w_encode = Some (\<lambda>_. Inr ''{}'')\<rparr>"

lemma demo_wsl2_Get:
  "run_state (wsl2_Get (\<lambda>_. Inr demo_response) (\<lambda>p _. ret (p, ret ())) (Some demo_wsl2) Background ''a'') ()
     = (Inr ''hi'', ())"
proof -
  have "base64_decode True (base64_encode ''hi'') = Inr ''hi''" by (rule base64_roundtrip)
  then have v: "validateResult operationGet (the (rp_Result demo_response)) =
      Inr ((the (rp_Result demo_response))\<lparr>secret := ''hi''\<rparr>)"
    by (simp add: validateResult_def operation_names demo_response_def Let_def maxSecretBytes_def)
  have d: "decodeResponse (\<lambda>_. Inr demo_response) ''{}'' (make_request demo_wsl2 ''id'' operationGet ''a'' None)
      = Inr (demo_response\<lparr>rp_Result := Some ((the (rp_Result demo_response))\<lparr>secret := ''hi''\<rparr>)\<rparr>)"
    using v by (simp add: decodeResponse_def maxMessageBytes_def demo_response_def)
  have q: "validateRequest (make_request demo_wsl2 ''id'' operationGet ''a'' None) = None"
    by (simp add: validateRequest_def operation_names demo_wsl2_def)
  have "run_state (invoke (\<lambda>_. Inr demo_response) (\<lambda>p _. ret (p, ret ())) (Some demo_wsl2) Background
      operationGet ''a'' None) () = (Inr ((the (rp_Result demo_response))\<lparr>secret := ''hi''\<rparr>), ())"
    using d q by (simp add: invoke_def Let_def demo_wsl2_def maxMessageBytes_def Background_def
        ContextError_def check_process_def check_response_def exitSuccess_def demo_response_def)
  then show ?thesis by (simp add: wsl2_Get_def)
qed

theorem wsl2_Get_trusted_witness:
  "\<exists>s. base64_decode True s = Inr ''hi''"
  using wsl2_Get_trusted [OF demo_wsl2_Get] by blast

text \<open>A stored secret reaches the helper whole: when \<open>Set\<close> succeeds, the request that was run names the
  keyring's service and the account, both non-empty and without NUL, and carries a secret
  that decodes, also strictly, to exactly the bytes that were set, at most 2560 of them.\<close>

lemma wsl2_Set_sends_secret:
  assumes "run_state (wsl2_Set Unmarshal WithTimeout kr parent username contents) w = (None, w')"
  shows "\<exists>k rq encoded ctx process w1 w2 s.
     kr = Some k \<and> the (w_encode k) rq = Inr encoded
     \<and> run_state (the (w_run k) ctx (w_helperPath k) (encoded @ [CHR 10])) w1 = (process, w2)
     \<and> pr_exitCode process = 0
     \<and> rq_Operation rq = ''set'' \<and> rq_Service rq = w_service k \<and> rq_Account rq = username
     \<and> w_service k \<noteq> [] \<and> username \<noteq> [] \<and> CHR 0x00 \<notin> set (w_service k @ username)
     \<and> rq_Secret rq = Some s \<and> base64_decode strict s = Inr contents \<and> length contents \<le> 2560"
proof -
  let ?s = "base64_encode contents"
  have len: "length contents \<le> maxSecretBytes"
    using assms by (auto simp: wsl2_Set_def split: if_splits)
  obtain res where i: "run_state (invoke Unmarshal WithTimeout kr parent operationSet username (Some ?s)) w = (Inr res, w')"
    using assms len by (auto simp: wsl2_Set_def split: prod.splits sum.splits)
  from invoke_Inr [OF i] obtain k requestID encoded ctx process w1 w2 where
    k: "kr = Some k" "validateRequest (make_request k requestID operationSet username (Some ?s)) = None"
      "the (w_encode k) (make_request k requestID operationSet username (Some ?s)) = Inr encoded"
      "run_state (the (w_run k) ctx (w_helperPath k) (encoded @ [CHR 10])) w1 = (process, w2)"
    and c: "check_process Unmarshal (make_request k requestID operationSet username (Some ?s)) process
         (fst (run_state ctx w2)) = Inr res"
    by blast
  have "pr_exitCode process = 0" using check_process_Inr [OF c] by blast
  moreover have "w_service k \<noteq> [] \<and> username \<noteq> [] \<and> CHR 0x00 \<notin> set (w_service k @ username)"
    using k(2) by (auto simp: validateRequest_def Let_def operation_names split: if_splits)
  ultimately show ?thesis using k len base64_roundtrip [of strict contents]
    by (intro exI [of _ k] exI [of _ "make_request k requestID operationSet username (Some ?s)"]
        exI [of _ encoded] exI [of _ ctx] exI [of _ process] exI [of _ w1] exI [of _ w2] exI [of _ ?s])
      (simp add: maxSecretBytes_def operation_names)
qed

definition demo_set_response :: helper_response where
  "demo_set_response = demo_response\<lparr>rp_Result := Some \<lparr>HelperVersion = '''', SupportedProtocols = None,
     rs_Backend = '''', rs_Secret = None, Deleted = None, secret = []\<rparr>\<rparr>"

lemma wsl2_Set_sends_secret_witness:
  "\<exists>(rq :: helper_request) s. rq_Operation rq = ''set'' \<and> rq_Account rq = ''a'' \<and> rq_Secret rq = Some s
     \<and> base64_decode True s = Inr ''hi''"
proof -
  have "run_state (wsl2_Set (\<lambda>_. Inr demo_set_response) (\<lambda>p _. ret (p, ret ())) (Some demo_wsl2)
      Background ''a'' ''hi'') () = (None, ())"
    by (simp add: wsl2_Set_def invoke_def Let_def demo_wsl2_def maxMessageBytes_def maxSecretBytes_def
        Background_def ContextError_def validateRequest_def operation_names check_process_def
        check_response_def decodeResponse_def validateResult_def demo_set_response_def demo_response_def
        exitSuccess_def)
  from wsl2_Set_sends_secret [OF this, where strict = True] show ?thesis by blast
qed

text \<open>Helper error codes are portable: each code of the protocol reaches the caller as exactly one
  category of the public contract, an unknown one as \<open>ErrBackendFailure\<close>, and the original
  error with its message stays in the chain.\<close>

lemma wsl2_codes_portable:
  "err_is (portable_of (ProtocolErr p)) (Category c) \<longleftrightarrow>
     c = (if pe_Code p = ''timeout'' then ErrTimeout
          else if pe_Code p = ''not_found'' then ErrNotFound
          else if pe_Code p = ''invalid_argument'' then ErrInvalidArgument
          else if pe_Code p = ''backend_unavailable'' then ErrBackendUnavailable
          else if pe_Code p = ''access_denied'' then ErrPermissionDenied
          else if pe_Code p = ''unsupported_protocol'' \<or> pe_Code p = ''unsupported_operation'' then ErrUnsupported
          else ErrBackendFailure)"
  by (simp add: portable_of_def portableError_def wsl_category_def sentinelForCode_def list_ex_iff eq_commute)

text \<open>\<open>Delete\<close> never claims more than the helper said: it succeeds only if a valid response to this
  request says the credential was deleted; a response that says it was not is reported as
  \<open>ErrNotFound\<close>.\<close>

lemma wsl2_Delete_result:
  assumes "run_state (invoke Unmarshal WithTimeout kr parent operationDelete username None) w = (Inr res, w1)"
  shows "run_state (wsl2_Delete Unmarshal WithTimeout kr parent username) w =
       (if Deleted res = Some True then None else Some (portable_of (Wsl W_ErrNotFound)), w1)
     \<and> err_is (portable_of (Wsl W_ErrNotFound)) (Category ErrNotFound)
     \<and> (\<exists>b. Deleted res = Some b) \<and> rs_Secret res = None"
proof -
  from invoke_Inr [OF assms] obtain rq process c where
    "check_process Unmarshal rq process c = Inr res" "rq_Operation rq = operationDelete"
    by (metis rq_make_request(1))
  from check_process_Inr [OF this(1)] this(2) obtain r where "validateResult operationDelete r = Inr res"
    by auto
  from validateResult_Delete [OF this] show ?thesis
    using assms by (auto simp: wsl2_Delete_def portable_of_def portableError_def wsl_category_def)
qed

lemma wsl2_Delete_result_witness:
  "run_state (wsl2_Delete (\<lambda>_. Inr (demo_set_response\<lparr>rp_Result := Some ((the (rp_Result demo_set_response))
       \<lparr>Deleted := Some False\<rparr>)\<rparr>)) (\<lambda>p _. ret (p, ret ())) (Some demo_wsl2) Background ''a'') ()
     = (Some (portable_of (Wsl W_ErrNotFound)), ())"
proof -
  have "run_state (invoke (\<lambda>_. Inr (demo_set_response\<lparr>rp_Result := Some ((the (rp_Result demo_set_response))
       \<lparr>Deleted := Some False\<rparr>)\<rparr>)) (\<lambda>p _. ret (p, ret ())) (Some demo_wsl2) Background operationDelete ''a'' None) ()
     = (Inr ((the (rp_Result demo_set_response))\<lparr>Deleted := Some False\<rparr>), ())"
    by (simp add: invoke_def Let_def demo_wsl2_def maxMessageBytes_def
        Background_def ContextError_def validateRequest_def operation_names check_process_def
        check_response_def decodeResponse_def validateResult_def demo_set_response_def demo_response_def
        exitSuccess_def)
  from wsl2_Delete_result [OF this] show ?thesis by simp
qed

text \<open>A nil context is misreported by the operations of this backend: the error of a nil context matches
  \<open>ErrInvalidArgument\<close> as everywhere else, and here \<open>ErrBackendFailure\<close> as well, because
  the portable mapping knows the package's own sentinels but not the contract's categories.\<close>

lemma wsl2_nil_context:
  "\<exists>e. run_state (wsl2_Get Unmarshal WithTimeout kr None username) w = (Inl e, w)
     \<and> err_is e (Category ErrInvalidArgument) \<and> err_is e (Category ErrBackendFailure)"
  by (simp add: wsl2_Get_def invoke_def portable_of_def portableError_def wsl_category_def)

end
