(* ===== verification/Json.thy ===== *)
theory Json
  imports Utf8 Encoding Go_Strings
begin

text \<open>
  \<open>encoding/json\<close> as the helper protocol uses it: the text of a string as \<open>Marshal\<close> writes it,
  and the reader behind \<open>Unmarshal\<close> up to values. Which member goes into which field of a struct
  is in \<open>Wsl2_Json\<close>.
\<close>

section \<open>Strings as Marshal writes them\<close>

text \<open>
  The two quoted characters, the control characters and \<open><\<close>, \<open>>\<close>, \<open>&\<close> are escaped; so are the line
  separators U+2028 and U+2029; a byte that is not part of a valid encoding becomes U+FFFD.
\<close>

definition escape_byte :: "char \<Rightarrow> string" where
  "escape_byte c =
     (if c = CHR 0x22 \<or> c = CHR 0x5C then [CHR 0x5C, c]
      else if c = CHR 0x08 then [CHR 0x5C, CHR ''b'']
      else if c = CHR 0x0C then [CHR 0x5C, CHR ''f'']
      else if c = CHR 0x0A then [CHR 0x5C, CHR ''n'']
      else if c = CHR 0x0D then [CHR 0x5C, CHR ''r'']
      else if c = CHR 0x09 then [CHR 0x5C, CHR ''t'']
      else if byte_num c < 32 \<or> c = CHR ''<'' \<or> c = CHR ''>'' \<or> c = CHR ''&''
      then CHR 0x5C # ''u00'' @ [hex_digit (byte_num c div 16), hex_digit (byte_num c mod 16)]
      else [c])"

function json_chars :: "string \<Rightarrow> string" where
  "json_chars s =
     (if s = [] then []
      else case decode_rune s of
          None \<Rightarrow> CHR 0x5C # ''ufffd'' @ json_chars (tl s)
        | Some (r, n) \<Rightarrow>
            (if r < 0x80 then escape_byte (hd s)
             else if r = 0x2028 \<or> r = 0x2029 then CHR 0x5C # ''u202'' @ [hex_digit (r mod 16)]
             else take n s)
            @ json_chars (drop n s))"
  by pat_completeness auto
termination
  by (relation "measure length") (auto dest: decode_rune_size)

declare json_chars.simps [simp del]

definition json_string :: "string \<Rightarrow> string" where
  "json_string s = CHR 0x22 # json_chars s @ [CHR 0x22]"

text \<open>What of a string survives: each byte outside a valid encoding is replaced by U+FFFD.\<close>

function to_valid :: "string \<Rightarrow> string" where
  "to_valid s =
     (if s = [] then []
      else case decode_rune s of
          None \<Rightarrow> [CHR 0xEF, CHR 0xBF, CHR 0xBD] @ to_valid (tl s)
        | Some (r, n) \<Rightarrow> take n s @ to_valid (drop n s))"
  by pat_completeness auto
termination
  by (relation "measure length") (auto dest: decode_rune_size)

declare to_valid.simps [simp del]

lemma to_valid_ValidString: "ValidString s \<Longrightarrow> to_valid s = s"
proof (induction s rule: ValidString.induct)
  case (1 s)
  show ?case
  proof (cases "s = []")
    case False
    with 1(2) obtain r n where r: "decode_rune s = Some (r, n)" "ValidString (drop n s)"
      by (auto simp: ValidString.simps [of s] split: option.splits)
    with 1(1) [OF r(1)] False show ?thesis by (simp add: to_valid.simps [of s])
  qed (simp add: to_valid.simps)
qed

lemma length_to_valid: "length s \<le> length (to_valid s)"
proof (induction s rule: to_valid.induct)
  case (1 s)
  show ?case
  proof (cases "s = []")
    case False
    show ?thesis
    proof (cases "decode_rune s")
      case None
      with 1(1) False show ?thesis by (cases s) (simp_all add: to_valid.simps [of "_ # _"] del: decode_rune.simps)
    next
      case (Some p)
      obtain r n where p: "p = (r, n)" by (cases p)
      then have "length (drop n s) \<le> length (to_valid (drop n s))" using 1(2) [OF False Some] by simp
      then show ?thesis
        using False Some p decode_rune_size [of s r n] by (simp add: to_valid.simps [of s])
    qed
  qed simp
qed

section \<open>Strings as Unmarshal reads them\<close>

text \<open>UTF-8 of a code point below U+110000 that is no surrogate.\<close>

definition encode_rune :: "nat \<Rightarrow> string" where
  "encode_rune r =
     map char_of
       (if r < 0x80 then [r]
        else if r < 0x800 then [0xC0 + r div 64, 0x80 + r mod 64]
        else if r < 0x10000 then [0xE0 + r div 4096, 0x80 + r div 64 mod 64, 0x80 + r mod 64]
        else [0xF0 + r div 262144, 0x80 + r div 4096 mod 64, 0x80 + r div 64 mod 64, 0x80 + r mod 64])"

definition surrogate :: "nat \<Rightarrow> bool" where
  "surrogate r \<longleftrightarrow> 0xD800 \<le> r \<and> r < 0xE000"

definition low_surrogate :: "nat \<Rightarrow> bool" where
  "low_surrogate r \<longleftrightarrow> 0xDC00 \<le> r \<and> r < 0xE000"

text \<open>\<open>getu4\<close>: four hexadecimal digits.\<close>

definition hex4 :: "string \<Rightarrow> (nat \<times> string) option" where
  "hex4 s =
     (case s of
        a # b # c # d # rest \<Rightarrow>
          (case (hex_val a, hex_val b, hex_val c, hex_val d) of
             (Some i, Some j, Some k, Some l) \<Rightarrow> Some (((i * 16 + j) * 16 + k) * 16 + l, rest)
           | _ \<Rightarrow> None)
      | _ \<Rightarrow> None)"

text \<open>A surrogate is half of a pair, or stands for U+FFFD.\<close>

definition utf16_escape :: "nat \<Rightarrow> string \<Rightarrow> string \<times> string" where
  "utf16_escape r rest =
     (if \<not> surrogate r then (encode_rune r, rest)
      else (case rest of
          b # u # t \<Rightarrow>
            (if b = CHR 0x5C \<and> u = CHR ''u'' then
               (case hex4 t of
                  Some (r', rest') \<Rightarrow>
                    (if \<not> low_surrogate r \<and> low_surrogate r'
                     then (encode_rune (0x10000 + (r - 0xD800) * 1024 + (r' - 0xDC00)), rest')
                     else (encode_rune 0xFFFD, rest))
                | None \<Rightarrow> (encode_rune 0xFFFD, rest))
             else (encode_rune 0xFFFD, rest))
        | _ \<Rightarrow> (encode_rune 0xFFFD, rest)))"

definition short_escape :: "char \<Rightarrow> char option" where
  "short_escape c =
     (if c = CHR 0x22 \<or> c = CHR 0x5C \<or> c = CHR 0x2F then Some c
      else if c = CHR ''b'' then Some (CHR 0x08)
      else if c = CHR ''f'' then Some (CHR 0x0C)
      else if c = CHR ''n'' then Some (CHR 0x0A)
      else if c = CHR ''r'' then Some (CHR 0x0D)
      else if c = CHR ''t'' then Some (CHR 0x09)
      else None)"

lemma hex4_shrinks: "hex4 s = Some (r, rest) \<Longrightarrow> length rest < length s"
  by (auto simp: hex4_def split: list.splits option.splits)

lemma utf16_escape_shrinks: "utf16_escape r s = (x, rest) \<Longrightarrow> length rest \<le> length s"
  by (auto simp: utf16_escape_def split: if_splits list.splits option.splits dest!: hex4_shrinks)

text \<open>The rest of a string literal after its opening quotation mark.\<close>

function unquote :: "string \<Rightarrow> (string \<times> string) option" where
  "unquote s =
     (case s of
        [] \<Rightarrow> None
      | c # t \<Rightarrow>
          (if c = CHR 0x22 then Some ([], t)
           else if c = CHR 0x5C then
             (case t of
                [] \<Rightarrow> None
              | e # u \<Rightarrow>
                  (if e = CHR ''u'' then
                     (case hex4 u of
                        None \<Rightarrow> None
                      | Some (r, v) \<Rightarrow>
                          (case utf16_escape r v of (x, w) \<Rightarrow> map_option (apfst (append x)) (unquote w)))
                   else
                     (case short_escape e of
                        None \<Rightarrow> None
                      | Some x \<Rightarrow> map_option (apfst (Cons x)) (unquote u))))
           else if byte_num c < 32 then None
           else
             (case decode_rune s of
                None \<Rightarrow> map_option (apfst (append (encode_rune 0xFFFD))) (unquote t)
              | Some (r, n) \<Rightarrow> map_option (apfst (append (take n s))) (unquote (drop n s)))))"
  by pat_completeness auto
termination
proof (relation "measure length", goal_cases)
  case 2
  then show ?case by (auto dest!: hex4_shrinks utf16_escape_shrinks [OF sym])
next
  case 5
  then show ?case by (auto simp del: decode_rune.simps dest!: decode_rune_size)
qed auto

declare unquote.simps [simp del]

section \<open>Reading what was written\<close>

lemma decode_rune_local: "decode_rune s = Some (r, n) \<Longrightarrow> decode_rune (take n s @ t) = Some (r, n)"
  by (cases s; cases "tl s"; cases "tl (tl s)"; cases "tl (tl (tl s))")
    (auto simp: or_else_def split: if_splits option.splits)

lemma decode_rune_ascii: "decode_rune s = Some (r, n) \<Longrightarrow> r < 0x80 \<Longrightarrow> n = 1 \<and> s \<noteq> [] \<and> byte_num (hd s) = r"
  by (cases s; cases "tl s"; cases "tl (tl s)"; cases "tl (tl (tl s))")
    (auto simp: or_else_def decode2_def decode3_def decode4_def continuation_def split: if_splits option.splits)

lemma decode_rune_high:
  "decode_rune s = Some (r, n) \<Longrightarrow> 0x80 \<le> r \<Longrightarrow> s \<noteq> [] \<and> (\<forall>c\<in>set (take n s). 0x80 \<le> byte_num c)"
  by (cases s; cases "tl s"; cases "tl (tl s)"; cases "tl (tl (tl s))")
    (auto simp: or_else_def decode2_def decode3_def decode4_def continuation_def split: if_splits option.splits)

lemma separator_bytes:
  fixes a b c e :: nat
  assumes "224 \<le> a" "a \<le> 239" "128 \<le> b" "b \<le> 191" "128 \<le> c" "c \<le> 191" "e \<le> 1"
    and "(a - 224) * 4096 + (b - 128) * 64 + (c - 128) = 8232 + e"
  shows "a = 226 \<and> b = 128 \<and> c = 168 + e"
proof -
  have "a = 226" using assms by linarith
  moreover from this have "b = 128" using assms by linarith
  ultimately show ?thesis using assms by simp
qed

lemma chars_of_codes: "map byte_num cs = ns \<Longrightarrow> map char_of ns = (cs :: char list)"
  by (auto simp: comp_def)

lemma decode_rune_separator:
  assumes "decode_rune s = Some (r, n)" "r = 0x2028 \<or> r = 0x2029"
  shows "take n s = encode_rune r"
proof -
  have "n = 3 \<and> (\<exists>a b c t. s = a # b # c # t \<and> decode3 (byte_num a) (byte_num b) (byte_num c) = Some r)"
    using assms
    by (cases s; cases "tl s"; cases "tl (tl s)"; cases "tl (tl (tl s))")
      (auto simp: or_else_def decode2_def decode4_def continuation_def split: if_splits option.splits)
  then obtain a b c t where s: "n = 3" "s = a # b # c # t"
    and d: "decode3 (byte_num a) (byte_num b) (byte_num c) = Some r" by blast
  obtain e where e: "r = 8232 + e" "e \<le> 1" using assms(2) by fastforce
  have "224 \<le> byte_num a" "byte_num a \<le> 239" "128 \<le> byte_num b" "byte_num b \<le> 191" "128 \<le> byte_num c"
    "byte_num c \<le> 191" "(byte_num a - 224) * 4096 + (byte_num b - 128) * 64 + (byte_num c - 128) = 8232 + e"
    using d e(1) by (simp_all add: decode3_def continuation_def split: if_splits)
  from separator_bytes [OF this(1-6) e(2) this(7)]
  have "map byte_num [a, b, c] = [226, 128, 168 + e]" by simp
  then have "map char_of [226, 128, 168 + e] = [a, b, c]" by (rule chars_of_codes)
  moreover have "r div 4096 = 2" "r div 64 mod 64 = 0" "r mod 64 = 40 + e" using e by (auto simp: le_Suc_eq)
  ultimately show ?thesis using s e by (simp add: encode_rune_def numeral_3_eq_3)
qed

lemma append_single [simp]: "(@) [c] = (#) c"
  by (rule ext) simp

lemma unquote_plain:
  "byte_num c < 0x80 \<Longrightarrow> 32 \<le> byte_num c \<Longrightarrow> c \<noteq> CHR 0x22 \<Longrightarrow> c \<noteq> CHR 0x5C \<Longrightarrow>
     unquote (c # t) = map_option (apfst (Cons c)) (unquote t)"
  by (simp add: unquote.simps [of "c # t"])

lemma unquote_short:
  "short_escape e = Some x \<Longrightarrow> e \<noteq> CHR ''u'' \<Longrightarrow> unquote (CHR 0x5C # e # t) = map_option (apfst (Cons x)) (unquote t)"
  by (simp add: unquote.simps [of "CHR 0x5C # e # t"])

lemma unquote_long:
  "hex4 u = Some (r, t) \<Longrightarrow> \<not> surrogate r \<Longrightarrow>
     unquote (CHR 0x5C # CHR ''u'' # u) = map_option (apfst (append (encode_rune r))) (unquote t)"
  by (simp add: unquote.simps [of "CHR 0x5C # CHR ''u'' # u"] utf16_escape_def)

lemma unquote_rune:
  assumes "decode_rune s = Some (r, n)" "0x80 \<le> r"
  shows "unquote (take n s @ t) = map_option (apfst (append (take n s))) (unquote t)"
proof -
  obtain c u where c: "take n s = c # u" "0x80 \<le> byte_num c"
    using decode_rune_high [OF assms] decode_rune_size [OF assms(1)] by (cases s; cases n) auto
  have "length (take n s) = n" using decode_rune_size [OF assms(1)] by simp
  then have "take n (take n s @ t) = take n s" "drop n (take n s @ t) = t" by simp_all
  with decode_rune_local [OF assms(1), of t] c show ?thesis
    by (auto simp: unquote.simps [of "c # u @ t"] simp del: decode_rune.simps)
qed

lemma unquote_escape:
  assumes "byte_num c < 0x80"
  shows "unquote (escape_byte c @ t) = map_option (apfst (Cons c)) (unquote t)"
proof -
  have u: "unquote (CHR 0x5C # ''u00'' @ [hex_digit (byte_num c div 16), hex_digit (byte_num c mod 16)] @ t) =
      map_option (apfst (Cons c)) (unquote t)"
  proof -
    have "hex4 (''00'' @ [hex_digit (byte_num c div 16), hex_digit (byte_num c mod 16)] @ t) = Some (byte_num c, t)"
      using assms by (simp add: hex4_def hex_val_def [of "CHR ''0''"])
    from unquote_long [OF this] assms show ?thesis
      by (simp add: surrogate_def encode_rune_def)
  qed
  consider "byte_num c < 32 \<or> c = CHR ''<'' \<or> c = CHR ''>'' \<or> c = CHR ''&''" "c \<noteq> CHR 8" "c \<noteq> CHR 12" "c \<noteq> CHR 10"
      "c \<noteq> CHR 13" "c \<noteq> CHR 9"
    | "c \<in> {CHR 0x22, CHR 0x5C, CHR 8, CHR 12, CHR 10, CHR 13, CHR 9}"
    | "32 \<le> byte_num c" "c \<noteq> CHR 0x22" "c \<noteq> CHR 0x5C" "c \<noteq> CHR ''<''" "c \<noteq> CHR ''>''" "c \<noteq> CHR ''&''"
    by fastforce
  then show ?thesis
  proof cases
    case 1
    moreover have "c \<noteq> CHR 0x22 \<and> c \<noteq> CHR 0x5C" using 1(1) by auto
    ultimately have "escape_byte c = CHR 0x5C # ''u00'' @ [hex_digit (byte_num c div 16), hex_digit (byte_num c mod 16)]"
      by (simp add: escape_byte_def)
    with u show ?thesis by simp
  next
    case 2
    then show ?thesis by (auto simp: escape_byte_def unquote_short short_escape_def)
  next
    case 3
    moreover have "c \<notin> {CHR 8, CHR 12, CHR 10, CHR 13, CHR 9}" using 3(1) by auto
    then have "escape_byte c = [c]" using 3 by (simp add: escape_byte_def)
    ultimately show ?thesis using unquote_plain [OF assms] by simp
  qed
qed

text \<open>A string literal gives back the string, with what was not valid UTF-8 replaced.\<close>

lemma unquote_json_chars: "unquote (json_chars s @ CHR 0x22 # rest) = Some (to_valid s, rest)"
proof (induction s rule: json_chars.induct)
  case (1 s)
  show ?case
  proof (cases "s = []")
    case True
    then show ?thesis by (simp add: json_chars.simps to_valid.simps unquote.simps [of "CHR 0x22 # rest"])
  next
    case False
    show ?thesis
    proof (cases "decode_rune s")
      case None
      have h: "hex4 (''fffd'' @ t) = Some (0xFFFD, t)" for t by (simp add: hex4_def hex_val_def)
      have "map char_of [239, 191, 189 :: nat] = [CHR 0xEF, CHR 0xBF, CHR 0xBD]" by (rule chars_of_codes) simp
      then have "encode_rune 0xFFFD = [CHR 0xEF, CHR 0xBF, CHR 0xBD]" by (simp add: encode_rune_def)
      with 1(1) [OF False None] unquote_long [OF h] None False show ?thesis
        by (simp add: json_chars.simps [of s] to_valid.simps [of s] surrogate_def)
    next
      case (Some p)
      obtain r n where p: "p = (r, n)" by (cases p)
      note d = Some [unfolded p]
      have ih: "unquote (json_chars (drop n s) @ CHR 0x22 # rest) = Some (to_valid (drop n s), rest)"
        using 1(2) [OF False Some p [symmetric]] .
      have v: "to_valid s = take n s @ to_valid (drop n s)"
        using d False by (simp add: to_valid.simps [of s])
      consider (ascii) "r < 0x80" | (sep) "r = 0x2028 \<or> r = 0x2029" | (other) "0x80 \<le> r" "r \<noteq> 0x2028" "r \<noteq> 0x2029"
        by linarith
      then show ?thesis
      proof cases
        case ascii
        from decode_rune_ascii [OF d ascii] have a: "n = 1" "byte_num (hd s) = r" "take n s = [hd s]"
          using False by (auto simp: take_Suc)
        have "json_chars s = escape_byte (hd s) @ json_chars (drop n s)"
          using d False ascii by (simp add: json_chars.simps [of s])
        with unquote_escape [of "hd s"] a ascii ih v show ?thesis by simp
      next
        case sep
        have t: "take n s = encode_rune r" by (rule decode_rune_separator [OF d sep])
        have j: "json_chars s = CHR 0x5C # ''u202'' @ [hex_digit (r mod 16)] @ json_chars (drop n s)"
          using d False sep by (auto simp: json_chars.simps [of s])
        have h: "hex4 (''202'' @ [hex_digit (r mod 16)] @ u) = Some (r, u)" for u
          using sep by (auto simp: hex4_def hex_val_def [of "CHR ''0''"] hex_val_def [of "CHR ''2''"])
        have "\<not> surrogate r" using sep by (auto simp: surrogate_def)
        from unquote_long [OF h this] ih v t j show ?thesis by simp
      next
        case other
        have "json_chars s = take n s @ json_chars (drop n s)"
          using d False other by (simp add: json_chars.simps [of s])
        with unquote_rune [OF d other(1)] ih v show ?thesis by simp
      qed
    qed
  qed
qed

section \<open>Values\<close>

datatype json =
    J_null
  | J_bool bool
  | J_number string
  | J_string string
  | J_array "json list"
  | J_object "(string \<times> json) list"

definition json_space :: "char \<Rightarrow> bool" where
  "json_space c \<longleftrightarrow> c = CHR 32 \<or> c = CHR 9 \<or> c = CHR 10 \<or> c = CHR 13"

definition skip :: "string \<Rightarrow> string" where
  "skip s = dropWhile json_space s"

definition is_digit :: "char \<Rightarrow> bool" where
  "is_digit c \<longleftrightarrow> 48 \<le> byte_num c \<and> byte_num c \<le> 57"

text \<open>The three parts of a number: each is the text it takes and the rest.\<close>

definition read_digits :: "string \<Rightarrow> (string \<times> string) option" where
  "read_digits s = (if takeWhile is_digit s = [] then None else Some (takeWhile is_digit s, dropWhile is_digit s))"

definition read_integer :: "string \<Rightarrow> (string \<times> string) option" where
  "read_integer s =
     (case s of
        [] \<Rightarrow> None
      | c # t \<Rightarrow> (if c = CHR ''0'' then Some ([c], t) else read_digits s))"

definition read_fraction :: "string \<Rightarrow> (string \<times> string) option" where
  "read_fraction s =
     (case s of
        [] \<Rightarrow> Some ([], s)
      | c # t \<Rightarrow> (if c = CHR ''.'' then map_option (apfst (Cons c)) (read_digits t) else Some ([], s)))"

definition read_exponent :: "string \<Rightarrow> (string \<times> string) option" where
  "read_exponent s =
     (case s of
        [] \<Rightarrow> Some ([], s)
      | c # t \<Rightarrow>
          (if c = CHR ''e'' \<or> c = CHR ''E'' then
             (case t of
                [] \<Rightarrow> None
              | g # u \<Rightarrow>
                  (if g = CHR ''+'' \<or> g = CHR ''-'' then map_option (apfst (\<lambda>x. c # g # x)) (read_digits u)
                   else map_option (apfst (Cons c)) (read_digits t)))
           else Some ([], s)))"

definition read_number :: "string \<Rightarrow> (string \<times> string) option" where
  "read_number s =
     (let (sign, s1) = (case s of c # t \<Rightarrow> if c = CHR ''-'' then ([c], t) else ([], s) | [] \<Rightarrow> ([], s))
      in case read_integer s1 of
           None \<Rightarrow> None
         | Some (i, s2) \<Rightarrow>
             (case read_fraction s2 of
                None \<Rightarrow> None
              | Some (f, s3) \<Rightarrow> map_option (apfst (\<lambda>e. sign @ i @ f @ e)) (read_exponent s3)))"

definition read_word :: "string \<Rightarrow> json \<Rightarrow> string \<Rightarrow> (json \<times> string) option" where
  "read_word w v s = (if take (length w) s = w then Some (v, drop (length w) s) else None)"

text \<open>
  The reader takes a fuel, and the nesting that is still allowed (Go stops at 10000). An
  element is followed by a comma and another one, or by the end of its array or object.
\<close>

fun read_value :: "nat \<Rightarrow> nat \<Rightarrow> string \<Rightarrow> (json \<times> string) option"
  and read_elements :: "nat \<Rightarrow> nat \<Rightarrow> string \<Rightarrow> (json list \<times> string) option"
  and read_members :: "nat \<Rightarrow> nat \<Rightarrow> string \<Rightarrow> ((string \<times> json) list \<times> string) option" where
  "read_value 0 d s = None"
| "read_value (Suc f) d s =
     (case skip s of
        [] \<Rightarrow> None
      | c # t \<Rightarrow>
          (if c = CHR 0x22 then map_option (apfst J_string) (unquote t)
           else if c = CHR ''['' then
             (case d of
                0 \<Rightarrow> None
              | Suc e \<Rightarrow>
                  (if skip t \<noteq> [] \<and> hd (skip t) = CHR '']'' then Some (J_array [], tl (skip t))
                   else map_option (apfst J_array) (read_elements f e t)))
           else if c = CHR ''{'' then
             (case d of
                0 \<Rightarrow> None
              | Suc e \<Rightarrow>
                  (if skip t \<noteq> [] \<and> hd (skip t) = CHR ''}'' then Some (J_object [], tl (skip t))
                   else map_option (apfst J_object) (read_members f e t)))
           else if c = CHR ''t'' then read_word ''true'' (J_bool True) (c # t)
           else if c = CHR ''f'' then read_word ''false'' (J_bool False) (c # t)
           else if c = CHR ''n'' then read_word ''null'' J_null (c # t)
           else map_option (apfst J_number) (read_number (c # t))))"
| "read_elements 0 d s = None"
| "read_elements (Suc f) d s =
     (case read_value f d s of
        None \<Rightarrow> None
      | Some (v, t) \<Rightarrow>
          (case skip t of
             [] \<Rightarrow> None
           | c # u \<Rightarrow>
               (if c = CHR '','' then map_option (apfst (Cons v)) (read_elements f d u)
                else if c = CHR '']'' then Some ([v], u)
                else None)))"
| "read_members 0 d s = None"
| "read_members (Suc f) d s =
     (case skip s of
        [] \<Rightarrow> None
      | q # t \<Rightarrow>
          (if q \<noteq> CHR 0x22 then None
           else case unquote t of
               None \<Rightarrow> None
             | Some (k, u) \<Rightarrow>
                 (case skip u of
                    [] \<Rightarrow> None
                  | c # w \<Rightarrow>
                      (if c \<noteq> CHR '':'' then None
                       else case read_value f d w of
                           None \<Rightarrow> None
                         | Some (v, x) \<Rightarrow>
                             (case skip x of
                                [] \<Rightarrow> None
                              | e # y \<Rightarrow>
                                  (if e = CHR '','' then map_option (apfst (Cons (k, v))) (read_members f d y)
                                   else if e = CHR ''}'' then Some ([(k, v)], y)
                                   else None))))))"

definition max_nesting :: nat where "max_nesting = 10000"

definition read_json :: "string \<Rightarrow> json option" where
  "read_json s =
     (case read_value (2 * length s + 1) max_nesting s of
        None \<Rightarrow> None
      | Some (v, t) \<Rightarrow> (if skip t = [] then Some v else None))"

section \<open>The fuel is enough\<close>

lemma skip_length: "length (skip s) \<le> length s"
  by (simp add: skip_def length_dropWhile_le)

lemma unquote_shrinks: "unquote s = Some (x, t) \<Longrightarrow> length t < length s"
proof (induction s arbitrary: x rule: unquote.induct)
  case (1 s)
  show ?case
  proof (cases s)
    case Nil
    with 1(5) show ?thesis by (simp add: unquote.simps)
  next
    case (Cons c u)
    note run = 1(5) [unfolded unquote.simps [of s], unfolded Cons list.case]
    consider "c = CHR 0x22" | "c = CHR 0x5C" | "c \<noteq> CHR 0x22" "c \<noteq> CHR 0x5C" by blast
    then show ?thesis
    proof cases
      case 1
      with run Cons show ?thesis by simp
    next
      case 2
      then obtain e v where v: "u = e # v" using run by (cases u) auto
      show ?thesis
      proof (cases "e = CHR ''u''")
        case True
        with run 2 v obtain r w where w: "hex4 v = Some (r, w)" by (auto split: option.splits)
        obtain y z where z: "utf16_escape r w = (y, z)" by fastforce
        with run 2 v True w obtain x' where "unquote z = Some (x', t)" by auto
        then have "length t < length z"
          using 1(1) [OF Cons _ 2 v True w refl] z 2 by simp
        with hex4_shrinks [OF w] utf16_escape_shrinks [OF z] v Cons show ?thesis by simp
      next
        case False
        with run 2 v obtain y x' where y: "short_escape e = Some y" "unquote v = Some (x', t)"
          by (auto split: option.splits)
        then have "length t < length v" using 1(2) [OF Cons _ 2 v False y(1)] 2 by simp
        with v Cons show ?thesis by simp
      qed
    next
      case 3
      then have c: "\<not> byte_num c < 32" using run by (auto split: if_splits)
      show ?thesis
      proof (cases "decode_rune s")
        case None
        with run 3 c Cons obtain x' where "unquote u = Some (x', t)" by (auto simp del: decode_rune.simps)
        then have "length t < length u" using 1(3) [OF Cons 3 c None] by simp
        with Cons show ?thesis by simp
      next
        case (Some p)
        obtain r n where p: "p = (r, n)" by fastforce
        with run 3 c Cons Some obtain x' where "unquote (drop n s) = Some (x', t)"
          by (auto simp del: decode_rune.simps)
        then have "length t < length (drop n s)" using 1(4) [OF Cons 3 c Some p [symmetric]] by simp
        then show ?thesis by simp
      qed
    qed
  qed
qed

lemma skip_Cons: "skip s = c # t \<Longrightarrow> length t < length s"
  using skip_length [of s] by simp

lemma digits_shrink: "read_digits s = Some (x, t) \<Longrightarrow> length t < length s"
proof -
  assume "read_digits s = Some (x, t)"
  then have "takeWhile is_digit s \<noteq> []" "t = dropWhile is_digit s"
    by (auto simp: read_digits_def split: if_splits)
  then show ?thesis by (cases s) (auto simp: le_imp_less_Suc length_dropWhile_le split: if_splits)
qed

lemma number_shrinks: "read_number s = Some (x, t) \<Longrightarrow> length t < length s"
proof -
  assume r: "read_number s = Some (x, t)"
  define s1 where "s1 = (case s of c # t \<Rightarrow> if c = CHR ''-'' then t else s | [] \<Rightarrow> s)"
  have s1: "length s1 \<le> length s" by (simp add: s1_def split: list.splits)
  obtain i s2 where i: "read_integer s1 = Some (i, s2)"
    using r by (auto simp: read_number_def s1_def split: list.splits option.splits if_splits)
  obtain f s3 where f: "read_fraction s2 = Some (f, s3)"
    using r i by (auto simp: read_number_def s1_def split: list.splits option.splits if_splits)
  obtain e where e: "read_exponent s3 = Some (e, t)"
    using r i f by (auto simp: read_number_def s1_def split: list.splits option.splits if_splits)
  have "length s2 < length s1"
    using i by (auto simp: read_integer_def dest: digits_shrink split: list.splits if_splits)
  moreover have "length s3 \<le> length s2"
    using f by (auto simp: read_fraction_def dest: digits_shrink split: list.splits if_splits)
  moreover have "length t \<le> length s3"
    using e by (auto simp: read_exponent_def dest!: digits_shrink split: list.splits if_splits)
  ultimately show ?thesis using s1 by linarith
qed

lemma word_shrinks: "read_word w v s = Some (x, t) \<Longrightarrow> w \<noteq> [] \<Longrightarrow> length t < length s"
  by (cases s) (auto simp: read_word_def split: if_splits)

lemma read_shrinks:
  "read_value f d s = Some (v, t) \<Longrightarrow> length t < length s"
  "read_elements f d s = Some (vs, t) \<Longrightarrow> length t < length s"
  "read_members f d s = Some (ms, t) \<Longrightarrow> length t < length s"
proof (induction f d s and f d s and f d s arbitrary: v t and vs t and ms t
    rule: read_value_read_elements_read_members.induct)
  case (2 f d s)
  obtain c u where c: "skip s = c # u" using 2(3) by (cases "skip s") auto
  have u: "length u < length s" by (rule skip_Cons [OF c])
  note run = 2(3) [unfolded read_value.simps c list.case]
  consider "c = CHR 0x22" | "c = CHR ''[''" | "c = CHR ''{''"
    | "c \<noteq> CHR 0x22" "c \<noteq> CHR ''[''" "c \<noteq> CHR ''{''" by blast
  then show ?case
  proof cases
    case 1
    with run u show ?thesis by (auto dest: unquote_shrinks)
  next
    case a: 2
    then obtain e where e: "d = Suc e" using run by (cases d) auto
    show ?thesis
    proof (cases "skip u \<noteq> [] \<and> hd (skip u) = CHR '']''")
      case True
      then have "t = tl (skip u)" using run a e by simp
      with True skip_length [of u] u show ?thesis by simp
    next
      case False
      then obtain vs where "read_elements f e u = Some (vs, t)" using run a e by auto
      from 2(1) [OF c _ a e False this] a u show ?thesis by simp
    qed
  next
    case o: 3
    then obtain e where e: "d = Suc e" using run by (cases d) auto
    show ?thesis
    proof (cases "skip u \<noteq> [] \<and> hd (skip u) = CHR ''}''")
      case True
      then have "t = tl (skip u)" using run o e by simp
      with True skip_length [of u] u show ?thesis by simp
    next
      case False
      then obtain ms where "read_members f e u = Some (ms, t)" using run o e by auto
      from 2(2) [OF c _ _ o e False this] o u show ?thesis by simp
    qed
  next
    case 4
    with run have "length t < length (c # u)"
      by (auto dest: number_shrinks dest!: word_shrinks split: if_splits)
    with c skip_length [of s] show ?thesis by simp
  qed
next
  case (4 f d s)
  then obtain v t1 where v: "read_value f d s = Some (v, t1)" by (auto split: option.splits)
  have l: "length t1 < length s" using 4(1) [OF v] .
  obtain c u where c: "skip t1 = c # u" using 4(3) v by (cases "skip t1") auto
  with 4(3) v have "c = CHR '','' \<and> (\<exists>ws. read_elements f d u = Some (ws, t)) \<or> t = u"
    by (auto split: if_splits)
  with 4(2) [OF v refl c] l skip_Cons [OF c] show ?case by fastforce
next
  case (6 f d s)
  obtain q s1 where q: "skip s = q # s1" using 6(3) by (cases "skip s") auto
  with 6(3) have qq: "q = CHR 0x22" by (auto split: if_splits)
  obtain k u where k: "unquote s1 = Some (k, u)" using 6(3) q qq by (auto split: option.splits)
  obtain c w where c: "skip u = c # w" using 6(3) q qq k by (cases "skip u") auto
  with 6(3) q qq k have cc: "c = CHR '':''" by (auto split: if_splits)
  obtain v x where v: "read_value f d w = Some (v, x)" using 6(3) q qq k c cc by (auto split: option.splits)
  obtain e y where e: "skip x = e # y" using 6(3) q qq k c cc v by (cases "skip x") auto
  have l: "length y < length s"
    using skip_Cons [OF q] unquote_shrinks [OF k] skip_Cons [OF c] 6(1) [OF q _ k refl c _ v] skip_Cons [OF e] qq cc
    by simp
  from 6(3) q qq k c cc v e have "e = CHR '','' \<and> (\<exists>ns. read_members f d y = Some (ns, t)) \<or> t = y"
    by (auto split: if_splits)
  with 6(2) [OF q _ k refl c _ v refl e] l qq cc show ?case by fastforce
qed simp_all

text \<open>With more fuel than twice the length of the text, more fuel changes nothing.\<close>

lemma read_fuel:
  "2 * length s < f \<Longrightarrow> f \<le> g \<Longrightarrow> read_value g d s = read_value f d s"
  "2 * length s + 1 < f \<Longrightarrow> f \<le> g \<Longrightarrow> read_elements g d s = read_elements f d s"
  "2 * length s + 1 < f \<Longrightarrow> f \<le> g \<Longrightarrow> read_members g d s = read_members f d s"
proof (induction f d s and f d s and f d s arbitrary: g and g and g
    rule: read_value_read_elements_read_members.induct)
  case (2 f d s)
  obtain h where g: "g = Suc h" "f \<le> h" using 2(4) by (cases g) auto
  show ?case
  proof (cases "skip s")
    case Nil
    then show ?thesis by (simp add: g)
  next
    case (Cons c t)
    have "2 * length t + 1 < f" using skip_Cons [OF Cons] 2(3) by simp
    have e: "read_elements h e t = read_elements f e t"
      if "c = CHR ''[''" "d = Suc e" "\<not> (skip t \<noteq> [] \<and> hd (skip t) = CHR '']'')" for e
      using 2(1) [OF Cons _ that(1,2,3) _ g(2)] that(1) \<open>2 * length t + 1 < f\<close> by simp
    have m: "read_members h e t = read_members f e t"
      if "c = CHR ''{''" "d = Suc e" "\<not> (skip t \<noteq> [] \<and> hd (skip t) = CHR ''}'')" for e
      using 2(2) [OF Cons _ _ that(1,2,3) _ g(2)] that(1) \<open>2 * length t + 1 < f\<close> by simp
    show ?thesis
      using e m by (auto simp: g(1) Cons split: nat.split)
  qed
next
  case (4 f d s)
  obtain h where g: "g = Suc h" "f \<le> h" using 4(4) by (cases g) auto
  have v: "read_value h d s = read_value f d s" using 4(1) [OF _ g(2)] 4(3) by simp
  show ?case
  proof (cases "read_value f d s")
    case (Some p)
    obtain w t where p: "p = (w, t)" by fastforce
    show ?thesis
    proof (cases "skip t")
      case (Cons c u)
      have "2 * length u + 1 < f" using 4(3) read_shrinks(1) [OF Some [unfolded p]] skip_Cons [OF Cons] by simp
      then have "c = CHR '','' \<Longrightarrow> read_elements h d u = read_elements f d u"
        using 4(2) [OF Some p [symmetric] Cons _ _ g(2)] by blast
      then show ?thesis by (simp add: g(1) v Some p Cons)
    qed (simp add: g(1) v Some p)
  qed (simp add: g(1) v)
next
  case (6 f d s)
  obtain h where g: "g = Suc h" "f \<le> h" using 6(4) by (cases g) auto
  show ?case
  proof (cases "\<exists>s1 k u w. skip s = CHR 0x22 # s1 \<and> unquote s1 = Some (k, u) \<and> skip u = CHR '':'' # w")
    case True
    then obtain s1 k u w where s: "skip s = CHR 0x22 # s1" "unquote s1 = Some (k, u)" "skip u = CHR '':'' # w"
      by blast
    have lw: "length w < length s" using skip_Cons [OF s(1)] unquote_shrinks [OF s(2)] skip_Cons [OF s(3)] by simp
    then have v: "read_value h d w = read_value f d w"
      using 6(1) [OF s(1) _ s(2) refl s(3) _ _ g(2)] 6(3) by simp
    show ?thesis
    proof (cases "read_value f d w")
      case (Some p)
      obtain x t where p: "p = (x, t)" by fastforce
      show ?thesis
      proof (cases "skip t")
        case (Cons c y)
        have "2 * length y + 1 < f"
          using 6(3) lw read_shrinks(1) [OF Some [unfolded p]] skip_Cons [OF Cons] by simp
        then have "c = CHR '','' \<Longrightarrow> read_members h d y = read_members f d y"
          using 6(2) [OF s(1) _ s(2) refl s(3) _ Some p [symmetric] Cons _ _ g(2)] by simp
        then show ?thesis by (simp add: g(1) s v Some p Cons)
      qed (simp add: g(1) s v Some p)
    qed (simp add: g(1) s v)
  next
    case False
    then show ?thesis by (auto simp: g(1) split: list.split option.split)
  qed
qed simp_all

section \<open>Values as Marshal writes them\<close>

text \<open>No space anywhere; a number is its text.\<close>

fun write_value :: "json \<Rightarrow> string"
  and write_elements :: "json list \<Rightarrow> string"
  and write_members :: "(string \<times> json) list \<Rightarrow> string" where
  "write_value J_null = ''null''"
| "write_value (J_bool b) = (if b then ''true'' else ''false'')"
| "write_value (J_number n) = n"
| "write_value (J_string s) = json_string s"
| "write_value (J_array vs) = CHR ''['' # write_elements vs @ [CHR '']'']"
| "write_value (J_object ms) = CHR ''{'' # write_members ms @ [CHR ''}'']"
| "write_elements [] = []"
| "write_elements [v] = write_value v"
| "write_elements (v # w # vs) = write_value v @ CHR '','' # write_elements (w # vs)"
| "write_members [] = []"
| "write_members [(k, v)] = json_string k @ CHR '':'' # write_value v"
| "write_members ((k, v) # m # ms) = json_string k @ CHR '':'' # write_value v @ CHR '','' # write_members (m # ms)"

text \<open>A value with what was not valid UTF-8 in its strings and keys replaced.\<close>

fun valid_json :: "json \<Rightarrow> json" where
  "valid_json (J_string s) = J_string (to_valid s)"
| "valid_json (J_array vs) = J_array (map valid_json vs)"
| "valid_json (J_object ms) = J_object (map (\<lambda>(k, v). (to_valid k, valid_json v)) ms)"
| "valid_json v = v"

text \<open>No numbers, and nested at most so deep.\<close>

fun plain_json :: "nat \<Rightarrow> json \<Rightarrow> bool" where
  "plain_json d (J_number n) = False"
| "plain_json d (J_array vs) = (d > 0 \<and> (\<forall>v\<in>set vs. plain_json (d - 1) v))"
| "plain_json d (J_object ms) = (d > 0 \<and> (\<forall>(k, v)\<in>set ms. plain_json (d - 1) v))"
| "plain_json d v = True"

lemma write_value_head:
  "plain_json d v \<Longrightarrow> \<exists>c t. write_value v = c # t \<and> \<not> json_space c \<and> c \<noteq> CHR '']''"
  by (cases v) (auto simp: json_space_def json_string_def)

lemma write_elements_head:
  "\<lbrakk>vs \<noteq> []; \<forall>v\<in>set vs. plain_json d v\<rbrakk> \<Longrightarrow> \<exists>c t. write_elements vs = c # t \<and> \<not> json_space c \<and> c \<noteq> CHR '']''"
  by (cases vs rule: write_elements.cases) (auto dest!: write_value_head)

lemma skip_nonspace [simp]: "\<not> json_space c \<Longrightarrow> skip (c # s) = c # s"
  by (simp add: skip_def)

lemma structural_nonspace [simp]:
  "\<not> json_space (CHR 0x22)" "\<not> json_space (CHR '','')" "\<not> json_space (CHR '':'')" "\<not> json_space (CHR '']'')"
  "\<not> json_space (CHR ''}'')" "\<not> json_space (CHR ''['')" "\<not> json_space (CHR ''{'')" "\<not> json_space (CHR ''n'')"
  "\<not> json_space (CHR ''t'')" "\<not> json_space (CHR ''f'')"
  by (simp_all add: json_space_def)

lemma fuel_Suc: "Suc n \<le> f \<longleftrightarrow> (\<exists>g. f = Suc g \<and> n \<le> g)"
  by (cases f) auto

lemma read_value_written:
  "plain_json d v \<Longrightarrow> \<exists>f0. \<forall>f\<ge>f0. read_value f d (write_value v @ rest) = Some (valid_json v, rest)"
  "\<lbrakk>vs \<noteq> []; \<forall>v\<in>set vs. plain_json d v\<rbrakk> \<Longrightarrow>
     \<exists>f0. \<forall>f\<ge>f0. read_elements f d (write_elements vs @ CHR '']'' # rest) = Some (map valid_json vs, rest)"
  "\<lbrakk>ms \<noteq> []; \<forall>(k, v)\<in>set ms. plain_json d v\<rbrakk> \<Longrightarrow>
     \<exists>f0. \<forall>f\<ge>f0. read_members f d (write_members ms @ CHR ''}'' # rest)
       = Some (map (\<lambda>(k, v). (to_valid k, valid_json v)) ms, rest)"
proof (induction v and vs and ms arbitrary: d rest and d rest and d rest
    rule: write_value_write_elements_write_members.induct)
  case 1
  then show ?case by (intro exI [of _ 1]) (auto simp: Suc_le_eq gr0_conv_Suc read_word_def)
next
  case (2 b)
  then show ?case by (intro exI [of _ 1]) (auto simp: Suc_le_eq gr0_conv_Suc read_word_def)
next
  case (4 s)
  then show ?case
    by (intro exI [of _ 1]) (auto simp: Suc_le_eq gr0_conv_Suc json_string_def unquote_json_chars)
next
  case (5 vs)
  then obtain e where e: "d = Suc e" by (cases d) auto
  show ?case
  proof (cases "vs = []")
    case True
    then show ?thesis by (intro exI [of _ 1]) (auto simp: Suc_le_eq gr0_conv_Suc e)
  next
    case False
    with 5 e obtain f0 where f: "\<forall>f\<ge>f0. read_elements f e (write_elements vs @ CHR '']'' # rest) = Some (map valid_json vs, rest)"
      by (metis diff_Suc_1 plain_json.simps(2))
    obtain c t where c: "write_elements vs = c # t" "\<not> json_space c" "c \<noteq> CHR '']''"
      using write_elements_head [OF False, of e] 5(2) e by auto
    show ?thesis
      using f c by (intro exI [of _ "Suc f0"]) (auto simp: e fuel_Suc)
  qed
next
  case (6 ms)
  then obtain e where e: "d = Suc e" by (cases d) auto
  show ?case
  proof (cases "ms = []")
    case True
    then show ?thesis by (intro exI [of _ 1]) (auto simp: Suc_le_eq gr0_conv_Suc e)
  next
    case False
    have "\<forall>(k, v)\<in>set ms. plain_json e v" using 6(2) e by simp
    from 6(1) [OF False this] obtain f0 where f: "\<forall>f\<ge>f0. read_members f e (write_members ms @ CHR ''}'' # rest)
        = Some (map (\<lambda>(k, v). (to_valid k, valid_json v)) ms, rest)"
      by blast
    obtain t where c: "write_members ms = CHR 0x22 # t"
      using False by (cases ms rule: write_members.cases) (auto simp: json_string_def)
    show ?thesis
      using f c by (intro exI [of _ "Suc f0"]) (auto simp: e fuel_Suc)
  qed
next
  case (8 v)
  then obtain f0 where "\<forall>f\<ge>f0. read_value f d (write_value v @ CHR '']'' # rest) = Some (valid_json v, CHR '']'' # rest)"
    by fastforce
  then show ?case by (intro exI [of _ "Suc f0"]) (auto simp: fuel_Suc)
next
  case (9 v w vs)
  let ?r = "write_elements (w # vs) @ CHR '']'' # rest"
  obtain f0 where f0: "\<forall>f\<ge>f0. read_value f d (write_value v @ CHR '','' # ?r) = Some (valid_json v, CHR '','' # ?r)"
    using 9(1) [of d "CHR '','' # ?r"] 9(4) by auto
  obtain f1 where f1: "\<forall>f\<ge>f1. read_elements f d ?r = Some (map valid_json (w # vs), rest)"
    using 9(2) [of d rest] 9(4) by auto
  show ?case using f0 f1 by (intro exI [of _ "Suc (max f0 f1)"]) (auto simp: fuel_Suc)
next
  case (11 k v)
  then obtain f0 where "\<forall>f\<ge>f0. read_value f d (write_value v @ CHR ''}'' # rest) = Some (valid_json v, CHR ''}'' # rest)"
    by fastforce
  then show ?case
    by (intro exI [of _ "Suc f0"]) (auto simp: json_string_def unquote_json_chars fuel_Suc)
next
  case (12 k v m ms)
  let ?r = "write_members (m # ms) @ CHR ''}'' # rest"
  obtain f0 where f0: "\<forall>f\<ge>f0. read_value f d (write_value v @ CHR '','' # ?r) = Some (valid_json v, CHR '','' # ?r)"
    using 12(1) [of d "CHR '','' # ?r"] 12(4) by auto
  obtain f1 where f1: "\<forall>f\<ge>f1. read_members f d ?r = Some (map (\<lambda>(k, v). (to_valid k, valid_json v)) (m # ms), rest)"
    using 12(2) [of d rest] 12(4) by auto
  show ?case
    using f0 f1 by (intro exI [of _ "Suc (max f0 f1)"]) (auto simp: json_string_def unquote_json_chars fuel_Suc)
qed simp_all

text \<open>What was written is read back.\<close>

lemma read_json_write:
  assumes "plain_json max_nesting v"
  shows "read_json (write_value v) = Some (valid_json v)"
proof -
  let ?s = "write_value v"
  obtain f0 where f0: "\<forall>f\<ge>f0. read_value f max_nesting ?s = Some (valid_json v, [])"
    using read_value_written(1) [OF assms, of "[]"] by auto
  have "read_value (max f0 (2 * length ?s + 1)) max_nesting ?s = read_value (2 * length ?s + 1) max_nesting ?s"
    by (rule read_fuel(1)) (simp_all del: read_value.simps)
  moreover have "read_value (max f0 (2 * length ?s + 1)) max_nesting ?s = Some (valid_json v, [])"
    using f0 by (simp del: read_value.simps)
  ultimately show ?thesis by (simp add: read_json_def skip_def del: read_value.simps)
qed

section \<open>What the text does not contain\<close>

lemma escape_byte_visible: "byte_num c < 0x80 \<Longrightarrow> \<forall>x\<in>set (escape_byte c). 32 \<le> byte_num x"
  by (auto simp: escape_byte_def hex_digit_def)

text \<open>No control character is written, so a text is one line.\<close>

lemma json_chars_visible: "\<forall>c\<in>set (json_chars s). 32 \<le> byte_num c"
proof (induction s rule: json_chars.induct)
  case (1 s)
  show ?case
  proof (cases "s = [] \<or> decode_rune s = None")
    case True
    then show ?thesis using 1(1) by (auto simp: json_chars.simps [of s] simp del: decode_rune.simps)
  next
    case False
    then obtain r n where d: "decode_rune s = Some (r, n)" by fastforce
    have "\<forall>c\<in>set (take n s). 32 \<le> byte_num c" if "0x80 \<le> r"
      using decode_rune_high [OF d that] by fastforce
    moreover have "\<forall>c\<in>set (escape_byte (hd s)). 32 \<le> byte_num c" if "r < 0x80"
      using escape_byte_visible [of "hd s"] decode_rune_ascii [OF d that] that by simp
    moreover have "32 \<le> byte_num (hex_digit (r mod 16))"
      by (auto simp: hex_digit_def)
    ultimately show ?thesis
      using False d 1(2) [OF _ d refl]
      by (auto simp: json_chars.simps [of s] simp del: decode_rune.simps)
  qed
qed

lemma write_value_visible:
  "plain_json d v \<Longrightarrow> \<forall>c\<in>set (write_value v). 32 \<le> byte_num c"
  "\<forall>v\<in>set vs. plain_json d v \<Longrightarrow> \<forall>c\<in>set (write_elements vs). 32 \<le> byte_num c"
  "\<forall>(k, v)\<in>set ms. plain_json d v \<Longrightarrow> \<forall>c\<in>set (write_members ms). 32 \<le> byte_num c"
proof (induction v and vs and ms arbitrary: d and d and d rule: write_value_write_elements_write_members.induct)
  case (5 vs)
  then show ?case by auto
next
  case (6 ms)
  then show ?case by auto
qed (use json_chars_visible in \<open>auto simp: json_string_def\<close>)

section \<open>Lengths\<close>

lemma length_escape_byte: "length (escape_byte c) \<le> 6"
  by (simp add: escape_byte_def)

lemma length_json_chars: "length (json_chars s) \<le> 6 * length s"
proof (induction s rule: json_chars.induct)
  case (1 s)
  show ?case
  proof (cases "s = [] \<or> decode_rune s = None")
    case True
    then show ?thesis using 1(1)
      by (cases s) (auto simp: json_chars.simps [of "[]"] json_chars.simps [of "_ # _"] simp del: decode_rune.simps)
  next
    case False
    then obtain r n where d: "decode_rune s = Some (r, n)" by fastforce
    have n: "0 < n" "n \<le> length s" using decode_rune_size [OF d] by auto
    have "length (json_chars (drop n s)) \<le> 6 * length (drop n s)" using 1(2) False d by blast
    then have "length (json_chars (drop n s)) + 6 \<le> 6 * length s"
      "length (json_chars (drop n s)) + n \<le> 6 * length s"
      using n by simp_all
    then show ?thesis
      using False d n length_escape_byte [of "hd s"] by (simp add: json_chars.simps [of s] del: decode_rune.simps)
  qed
qed

lemma length_json_string: "length (json_string s) \<le> 6 * length s + 2"
  using length_json_chars [of s] by (simp add: json_string_def)

text \<open>A bound on the text of a value that is computed from the lengths of its strings.\<close>

fun json_bound :: "json \<Rightarrow> nat" where
  "json_bound (J_number n) = length n"
| "json_bound (J_string s) = 6 * length s + 2"
| "json_bound (J_array vs) = 2 + sum_list (map (\<lambda>v. json_bound v + 1) vs)"
| "json_bound (J_object ms) = 2 + sum_list (map (\<lambda>(k, v). 6 * length k + json_bound v + 4) ms)"
| "json_bound v = 5"

lemma length_write_value:
  "length (write_value v) \<le> json_bound v"
  "length (write_elements vs) \<le> sum_list (map (\<lambda>v. json_bound v + 1) vs)"
  "length (write_members ms) \<le> sum_list (map (\<lambda>(k, v). 6 * length k + json_bound v + 4) ms)"
proof (induction v and vs and ms rule: write_value_write_elements_write_members.induct)
  case (4 s)
  then show ?case using length_json_string [of s] by simp
next
  case (11 k v)
  then show ?case using length_json_string [of k] by simp
next
  case (12 k v m ms)
  then show ?case using length_json_string [of k] by simp
qed simp_all

end
