(* ===== verification/Wsl2_Json.thy ===== *)
theory Wsl2_Json
  imports Wsl2_Protocol Json
begin

text \<open>
  The JSON of the helper protocol: \<open>encodeRequest\<close> of \<open>secure/wsl2/client.go\<close> and the
  \<open>json.Unmarshal\<close> of a response into the structs of \<open>protocol.go\<close> and \<open>errors.go\<close>, by their
  \<open>json\<close> tags.
\<close>

section \<open>Requests\<close>

definition omitempty :: "string \<Rightarrow> string \<Rightarrow> (string \<times> json) list" where
  "omitempty k s = (if s = '''' then [] else [(k, J_string s)])"

definition omitnil :: "string \<Rightarrow> ('a \<Rightarrow> json) \<Rightarrow> 'a option \<Rightarrow> (string \<times> json) list" where
  "omitnil k f x = (case x of None \<Rightarrow> [] | Some v \<Rightarrow> [(k, f v)])"

definition request_json :: "helper_request \<Rightarrow> json" where
  "request_json rq = J_object
     ([(''protocol'', J_string (rq_Protocol rq)), (''request_id'', J_string (rq_RequestID rq)),
       (''operation'', J_string (rq_Operation rq))]
      @ omitempty ''service'' (rq_Service rq) @ omitempty ''account'' (rq_Account rq)
      @ omitnil ''secret_b64'' J_string (rq_Secret rq))"

text \<open>\<open>Marshal\<close> cannot fail on a struct of strings.\<close>

definition encodeRequest :: "helper_request \<Rightarrow> go_error + bytes" where
  "encodeRequest rq = Inr (write_value (request_json rq))"

section \<open>Responses\<close>

text \<open>
  One member of an object is stored in a field. \<open>null\<close> leaves a string or bool as it is and
  makes a pointer or slice nil; a value of another type is an error, here \<open>None\<close>.
\<close>

definition store_string :: "json \<Rightarrow> string \<Rightarrow> string option" where
  "store_string v old = (case v of J_string s \<Rightarrow> Some s | J_null \<Rightarrow> Some old | _ \<Rightarrow> None)"

definition store_bool :: "json \<Rightarrow> bool \<Rightarrow> bool option" where
  "store_bool v old = (case v of J_bool b \<Rightarrow> Some b | J_null \<Rightarrow> Some old | _ \<Rightarrow> None)"

text \<open>The pointee, allocated when the pointer is nil, takes the value.\<close>

definition store_pointer :: "(json \<Rightarrow> 'a \<Rightarrow> 'a option) \<Rightarrow> 'a \<Rightarrow> json \<Rightarrow> 'a option \<Rightarrow> 'a option option" where
  "store_pointer store zero v old =
     (if v = J_null then Some None
      else map_option Some (store v (case old of None \<Rightarrow> zero | Some x \<Rightarrow> x)))"

text \<open>Elements are decoded over those of the slice, and over empty strings beyond its end.\<close>

fun store_strings :: "json list \<Rightarrow> string list \<Rightarrow> string list option" where
  "store_strings [] old = Some []"
| "store_strings (v # vs) old =
     (case store_string v (case old of [] \<Rightarrow> '''' | s # _ \<Rightarrow> s) of
        None \<Rightarrow> None
      | Some s \<Rightarrow> map_option (Cons s) (store_strings vs (tl old)))"

definition store_slice :: "json \<Rightarrow> string list option \<Rightarrow> string list option option" where
  "store_slice v old =
     (case v of
        J_null \<Rightarrow> Some None
      | J_array vs \<Rightarrow> map_option Some (store_strings vs (case old of None \<Rightarrow> [] | Some xs \<Rightarrow> xs))
      | _ \<Rightarrow> None)"

text \<open>The members of an object go into its struct one after the other.\<close>

fun store_members :: "(string \<Rightarrow> json \<Rightarrow> 'r \<Rightarrow> 'r option) \<Rightarrow> (string \<times> json) list \<Rightarrow> 'r \<Rightarrow> 'r option" where
  "store_members store [] r = Some r"
| "store_members store ((k, v) # ms) r =
     (case store k v r of None \<Rightarrow> None | Some r' \<Rightarrow> store_members store ms r')"

definition store_struct :: "(string \<Rightarrow> json \<Rightarrow> 'r \<Rightarrow> 'r option) \<Rightarrow> json \<Rightarrow> 'r \<Rightarrow> 'r option" where
  "store_struct store v r =
     (case v of J_object ms \<Rightarrow> store_members store ms r | J_null \<Rightarrow> Some r | _ \<Rightarrow> None)"

text \<open>A key is a field's name or differs from it in case; other keys are ignored.\<close>

definition store_result :: "string \<Rightarrow> json \<Rightarrow> helper_result \<Rightarrow> helper_result option" where
  "store_result k v r =
     (if EqualFold k ''helper_version''
      then map_option (\<lambda>x. r\<lparr>HelperVersion := x\<rparr>) (store_string v (HelperVersion r))
      else if EqualFold k ''supported_protocols''
      then map_option (\<lambda>x. r\<lparr>SupportedProtocols := x\<rparr>) (store_slice v (SupportedProtocols r))
      else if EqualFold k ''backend''
      then map_option (\<lambda>x. r\<lparr>rs_Backend := x\<rparr>) (store_string v (rs_Backend r))
      else if EqualFold k ''secret_b64''
      then map_option (\<lambda>x. r\<lparr>rs_Secret := x\<rparr>) (store_pointer store_string '''' v (rs_Secret r))
      else if EqualFold k ''deleted''
      then map_option (\<lambda>x. r\<lparr>Deleted := x\<rparr>) (store_pointer store_bool False v (Deleted r))
      else Some r)"

text \<open>Whether this slice is nil or empty makes no difference to the program.\<close>

definition store_error :: "string \<Rightarrow> json \<Rightarrow> protocol_error \<Rightarrow> protocol_error option" where
  "store_error k v e =
     (if EqualFold k ''code'' then map_option (\<lambda>x. e\<lparr>pe_Code := x\<rparr>) (store_string v (pe_Code e))
      else if EqualFold k ''message''
      then map_option (\<lambda>x. e\<lparr>pe_Message := x\<rparr>) (store_string v (pe_Message e))
      else if EqualFold k ''retryable''
      then map_option (\<lambda>x. e\<lparr>pe_Retryable := x\<rparr>) (store_bool v (pe_Retryable e))
      else if EqualFold k ''supported_protocols''
      then map_option (\<lambda>x. e\<lparr>pe_SupportedProtocols := (case x of None \<Rightarrow> [] | Some ps \<Rightarrow> ps)\<rparr>)
        (store_slice v (Some (pe_SupportedProtocols e)))
      else Some e)"

definition zero_result :: helper_result where
  "zero_result = \<lparr>HelperVersion = '''', SupportedProtocols = None, rs_Backend = '''', rs_Secret = None,
     Deleted = None, secret = []\<rparr>"

definition zero_error :: protocol_error where
  "zero_error = \<lparr>pe_Code = '''', pe_Message = '''', pe_Retryable = False, pe_SupportedProtocols = []\<rparr>"

definition zero_response :: helper_response where
  "zero_response = \<lparr>rp_Protocol = '''', rp_RequestID = '''', rp_OK = False, rp_Result = None, rp_Error = None\<rparr>"

definition store_response :: "string \<Rightarrow> json \<Rightarrow> helper_response \<Rightarrow> helper_response option" where
  "store_response k v r =
     (if EqualFold k ''protocol''
      then map_option (\<lambda>x. r\<lparr>rp_Protocol := x\<rparr>) (store_string v (rp_Protocol r))
      else if EqualFold k ''request_id''
      then map_option (\<lambda>x. r\<lparr>rp_RequestID := x\<rparr>) (store_string v (rp_RequestID r))
      else if EqualFold k ''ok'' then map_option (\<lambda>x. r\<lparr>rp_OK := x\<rparr>) (store_bool v (rp_OK r))
      else if EqualFold k ''result''
      then map_option (\<lambda>x. r\<lparr>rp_Result := x\<rparr>)
        (store_pointer (store_struct store_result) zero_result v (rp_Result r))
      else if EqualFold k ''error''
      then map_option (\<lambda>x. r\<lparr>rp_Error := x\<rparr>)
        (store_pointer (store_struct store_error) zero_error v (rp_Error r))
      else Some r)"

definition Unmarshal_response :: "bytes \<Rightarrow> go_error + helper_response" where
  "Unmarshal_response b =
     (case read_json b of
        None \<Rightarrow> Inl (Plain ''json: syntax error'')
      | Some v \<Rightarrow>
          (case store_struct store_response v zero_response of
             None \<Rightarrow> Inl (Plain ''json: cannot unmarshal'')
           | Some r \<Rightarrow> Inr r))"

section \<open>Requests as they are read\<close>

lemma to_valid_Nil [simp]: "to_valid s = '''' \<longleftrightarrow> s = ''''"
  by (auto simp: to_valid.simps [of s] split: option.splits dest: decode_rune_size)

definition valid_request :: "helper_request \<Rightarrow> helper_request" where
  "valid_request rq =
     \<lparr>rq_Protocol = to_valid (rq_Protocol rq), rq_RequestID = to_valid (rq_RequestID rq),
      rq_Operation = to_valid (rq_Operation rq), rq_Service = to_valid (rq_Service rq),
      rq_Account = to_valid (rq_Account rq), rq_Secret = map_option to_valid (rq_Secret rq)\<rparr>"

lemma valid_json_append: "valid_json (J_object (xs @ ys)) =
    (case (valid_json (J_object xs), valid_json (J_object ys)) of (J_object a, J_object b) \<Rightarrow> J_object (a @ b))"
  by simp

lemma to_valid_names [simp]:
  "to_valid ''protocol'' = ''protocol''" "to_valid ''request_id'' = ''request_id''"
  "to_valid ''operation'' = ''operation''" "to_valid ''service'' = ''service''"
  "to_valid ''account'' = ''account''" "to_valid ''secret_b64'' = ''secret_b64''"
  "to_valid ''ok'' = ''ok''" "to_valid ''result'' = ''result''" "to_valid ''error'' = ''error''"
  "to_valid ''helper_version'' = ''helper_version''" "to_valid ''supported_protocols'' = ''supported_protocols''"
  "to_valid ''backend'' = ''backend''" "to_valid ''deleted'' = ''deleted''" "to_valid ''code'' = ''code''"
  "to_valid ''message'' = ''message''" "to_valid ''retryable'' = ''retryable''"
  by (simp_all add: to_valid.simps)

lemma valid_request_json: "valid_json (request_json rq) = request_json (valid_request rq)"
  by (auto simp: request_json_def valid_request_def omitempty_def omitnil_def split: option.split)

lemma plain_request_json: "plain_json max_nesting (request_json rq)"
  by (auto simp: request_json_def omitempty_def omitnil_def max_nesting_def split: option.split)

lemma request_json_inject [simp]: "request_json r = request_json s \<longleftrightarrow> r = s"
  by (cases r; cases s)
    (auto simp: request_json_def omitempty_def omitnil_def split: option.splits if_splits)

section \<open>Responses as they are written\<close>

definition omitslice :: "string \<Rightarrow> string list \<Rightarrow> (string \<times> json) list" where
  "omitslice k ps = (if ps = [] then [] else [(k, J_array (map J_string ps))])"

definition result_json :: "helper_result \<Rightarrow> json" where
  "result_json r = J_object
     (omitempty ''helper_version'' (HelperVersion r)
      @ omitslice ''supported_protocols'' (case SupportedProtocols r of None \<Rightarrow> [] | Some ps \<Rightarrow> ps)
      @ omitempty ''backend'' (rs_Backend r)
      @ omitnil ''secret_b64'' J_string (rs_Secret r) @ omitnil ''deleted'' J_bool (Deleted r))"

definition error_json :: "protocol_error \<Rightarrow> json" where
  "error_json e = J_object
     ([(''code'', J_string (pe_Code e)), (''message'', J_string (pe_Message e)),
       (''retryable'', J_bool (pe_Retryable e))]
      @ omitslice ''supported_protocols'' (pe_SupportedProtocols e))"

definition response_json :: "helper_response \<Rightarrow> json" where
  "response_json rp = J_object
     ([(''protocol'', J_string (rp_Protocol rp))] @ omitempty ''request_id'' (rp_RequestID rp)
      @ [(''ok'', J_bool (rp_OK rp))]
      @ omitnil ''result'' result_json (rp_Result rp) @ omitnil ''error'' error_json (rp_Error rp))"

text \<open>A response of valid strings. An empty list of protocols is not written.\<close>

definition clean_result :: "helper_result \<Rightarrow> bool" where
  "clean_result r \<longleftrightarrow> ValidString (HelperVersion r) \<and> ValidString (rs_Backend r)
     \<and> list_all ValidString (case SupportedProtocols r of None \<Rightarrow> [] | Some ps \<Rightarrow> ps)
     \<and> SupportedProtocols r \<noteq> Some []
     \<and> ValidString (case rs_Secret r of None \<Rightarrow> '''' | Some s \<Rightarrow> s) \<and> secret r = []"

definition clean_error :: "protocol_error \<Rightarrow> bool" where
  "clean_error e \<longleftrightarrow> ValidString (pe_Code e) \<and> ValidString (pe_Message e)
     \<and> list_all ValidString (pe_SupportedProtocols e)"

definition clean_response :: "helper_response \<Rightarrow> bool" where
  "clean_response rp \<longleftrightarrow> ValidString (rp_Protocol rp) \<and> ValidString (rp_RequestID rp)
     \<and> pred_option clean_result (rp_Result rp) \<and> pred_option clean_error (rp_Error rp)"

lemma store_members_append:
  "store_members f (xs @ ys) r = Option.bind (store_members f xs r) (store_members f ys)"
  by (induction xs arbitrary: r) (auto split: option.split)

lemma store_strings_written: "length old = 0 \<Longrightarrow> store_strings (map J_string ps) old = Some ps"
  by (induction ps arbitrary: old) (auto simp: store_string_def)

lemma result_json_valid: "clean_result r \<Longrightarrow> valid_json (result_json r) = result_json r"
  by (auto simp: clean_result_def result_json_def omitempty_def omitnil_def omitslice_def to_valid_ValidString
      list_all_iff split: option.splits)

lemma error_json_valid: "clean_error e \<Longrightarrow> valid_json (error_json e) = error_json e"
  by (auto simp: clean_error_def error_json_def omitslice_def to_valid_ValidString list_all_iff)

lemma response_json_valid: "clean_response rp \<Longrightarrow> valid_json (response_json rp) = response_json rp"
  by (auto simp: clean_response_def response_json_def omitempty_def omitnil_def to_valid_ValidString
      result_json_valid error_json_valid split: option.splits)

lemma plain_fields:
  "\<forall>(n, v)\<in>set (omitempty k s). plain_json d v"
  "0 < d \<Longrightarrow> \<forall>(n, v)\<in>set (omitslice k ps). plain_json d v"
  "(\<forall>(n, v)\<in>set (omitnil k f x). plain_json d v) \<longleftrightarrow> (case x of None \<Rightarrow> True | Some y \<Rightarrow> plain_json d (f y))"
  by (auto simp: omitempty_def omitslice_def omitnil_def split: option.split)

lemma plain_result_json: "2 \<le> d \<Longrightarrow> plain_json d (result_json r)"
  unfolding result_json_def by (simp add: ball_Un plain_fields split: option.split)

lemma plain_error_json: "2 \<le> d \<Longrightarrow> plain_json d (error_json e)"
  unfolding error_json_def by (simp add: ball_Un plain_fields)

lemma plain_response_json: "plain_json max_nesting (response_json rp)"
  unfolding response_json_def
  by (simp add: ball_Un plain_fields plain_result_json plain_error_json max_nesting_def split: option.split)

lemma store_result_written: "clean_result r \<Longrightarrow> store_struct store_result (result_json r) zero_result = Some r"
  by (cases r)
    (auto simp: result_json_def zero_result_def store_struct_def store_members_append store_result_def lower_byte_def
      omitempty_def omitnil_def omitslice_def clean_result_def store_string_def store_bool_def store_slice_def store_pointer_def
      store_strings_written split: option.splits if_splits)

lemma store_error_written: "clean_error e \<Longrightarrow> store_struct store_error (error_json e) zero_error = Some e"
  by (cases e)
    (auto simp: error_json_def zero_error_def store_struct_def store_members_append store_error_def lower_byte_def
      clean_error_def omitslice_def store_string_def store_bool_def store_slice_def store_strings_written
      split: option.splits if_splits)

lemma json_object_not_null [simp]: "result_json r \<noteq> J_null" "error_json e \<noteq> J_null"
  by (simp_all add: result_json_def error_json_def)

lemma store_response_written:
  "clean_response rp \<Longrightarrow> store_struct store_response (response_json rp) zero_response = Some rp"
  by (cases rp)
    (auto simp: response_json_def zero_response_def store_struct_def [of store_response] store_members_append
      store_response_def lower_byte_def omitempty_def omitnil_def clean_response_def store_string_def store_bool_def
      store_pointer_def store_result_written store_error_written split: option.splits if_splits)

lemma length_request:
  "length (write_value (request_json rq)) \<le>
     6 * (length (rq_Protocol rq) + length (rq_RequestID rq) + length (rq_Operation rq) + length (rq_Service rq)
       + length (rq_Account rq) + (case rq_Secret rq of None \<Rightarrow> 0 | Some s \<Rightarrow> length s)) + 500"
proof -
  have "json_bound (request_json rq) \<le>
     6 * (length (rq_Protocol rq) + length (rq_RequestID rq) + length (rq_Operation rq) + length (rq_Service rq)
       + length (rq_Account rq) + (case rq_Secret rq of None \<Rightarrow> 0 | Some s \<Rightarrow> length s)) + 500"
    by (auto simp: request_json_def omitempty_def omitnil_def split: option.split)
  with length_write_value(1) show ?thesis by (rule order_trans)
qed

section \<open>On the wire\<close>

lemma ValidString_literals:
  "to_valid protocolID = protocolID" "to_valid operationProbe = operationProbe" "to_valid operationGet = operationGet"
  "to_valid operationSet = operationSet" "to_valid operationDelete = operationDelete"
  by (simp_all add: to_valid.simps operation_names protocolID_def)

lemma base64_valid: "to_valid (base64_encode v) = base64_encode v" "ValidString (base64_encode v)"
proof -
  show "ValidString (base64_encode v)"
    by (rule conjunct1 [OF ascii_utf8]) (use base64_encode_chars in fastforce)
  then show "to_valid (base64_encode v) = base64_encode v" by (rule to_valid_ValidString)
qed

lemma read_request_written: "read_json (write_value (request_json rq)) = Some (request_json (valid_request rq))"
  by (simp add: read_json_write plain_request_json valid_request_json)

lemma request_one_line: "CHR 10 \<notin> set (write_value (request_json rq))"
  using write_value_visible(1) [OF plain_request_json] by fastforce

lemma encoded_line:
  "\<exists>line. encodeRequest rq = Inr line \<and> read_json line = Some (request_json (valid_request rq)) \<and> CHR 10 \<notin> set line"
  using request_one_line by (simp add: encodeRequest_def read_request_written)

lemma Unmarshal_written: "clean_response rp \<Longrightarrow> Unmarshal_response (write_value (response_json rp)) = Inr rp"
  by (simp add: Unmarshal_response_def read_json_write plain_response_json response_json_valid store_response_written)

section \<open>Properties\<close>

text \<open>The members of a request by their names on the wire, with bytes that are not valid UTF-8 replaced.\<close>

lemma request_members:
  "\<exists>ms. request_json (valid_request rq) = J_object ms \<and> distinct (map fst ms) \<and> map_of ms =
     (\<lambda>name. if name = ''protocol'' then Some (J_string (to_valid (rq_Protocol rq)))
       else if name = ''request_id'' then Some (J_string (to_valid (rq_RequestID rq)))
       else if name = ''operation'' then Some (J_string (to_valid (rq_Operation rq)))
       else if name = ''service'' \<and> rq_Service rq \<noteq> '''' then Some (J_string (to_valid (rq_Service rq)))
       else if name = ''account'' \<and> rq_Account rq \<noteq> '''' then Some (J_string (to_valid (rq_Account rq)))
       else if name = ''secret_b64'' then map_option (\<lambda>s. J_string (to_valid s)) (rq_Secret rq)
       else None)"
  by (cases "rq_Secret rq")
    (auto simp: request_json_def valid_request_def omitempty_def omitnil_def fun_eq_iff)

text \<open>C28 The wire format loses nothing: \<open>encodeRequest\<close> never fails, its text is one line, and read as JSON
  it is an object in which the name of each field of the protocol has the value of that field
  in the request, with the bytes that are not valid UTF-8 replaced; service and account are left out
  when they are empty, the secret when there is none, and there is no other member and none
  twice. In the other direction, what \<open>Marshal\<close> writes for a response of valid strings by the
  tags of its structs is read back by \<open>Unmarshal\<close> as that response, every optional field included.\<close>

theorem wire_roundtrip:
  assumes "clean_response rp"
  shows "(\<exists>b ms. encodeRequest rq = Inr b \<and> CHR 10 \<notin> set b \<and> read_json b = Some (J_object ms)
       \<and> distinct (map fst ms)
       \<and> map_of ms =
         (\<lambda>name. if name = ''protocol'' then Some (J_string (to_valid (rq_Protocol rq)))
           else if name = ''request_id'' then Some (J_string (to_valid (rq_RequestID rq)))
           else if name = ''operation'' then Some (J_string (to_valid (rq_Operation rq)))
           else if name = ''service'' \<and> rq_Service rq \<noteq> '''' then Some (J_string (to_valid (rq_Service rq)))
           else if name = ''account'' \<and> rq_Account rq \<noteq> '''' then Some (J_string (to_valid (rq_Account rq)))
           else if name = ''secret_b64'' then map_option (\<lambda>s. J_string (to_valid s)) (rq_Secret rq)
           else None))
     \<and> Unmarshal_response (write_value (response_json rp)) = Inr rp"
  using Unmarshal_written [OF assms] request_one_line [of rq] request_members [of rq]
  unfolding encodeRequest_def by (metis read_request_written)

theorem wire_roundtrip_witness:
  "Unmarshal_response (write_value (response_json
     \<lparr>rp_Protocol = ''p'', rp_RequestID = ''1'', rp_OK = True,
      rp_Result = Some \<lparr>HelperVersion = ''2'', SupportedProtocols = Some [''p''], rs_Backend = ''b'', rs_Secret = None,
        Deleted = Some False, secret = []\<rparr>, rp_Error = None\<rparr>))
   = Inr \<lparr>rp_Protocol = ''p'', rp_RequestID = ''1'', rp_OK = True,
      rp_Result = Some \<lparr>HelperVersion = ''2'', SupportedProtocols = Some [''p''], rs_Backend = ''b'', rs_Secret = None,
        Deleted = Some False, secret = []\<rparr>, rp_Error = None\<rparr>"
  by (rule conjunct2 [OF wire_roundtrip])
    (simp add: clean_response_def clean_result_def ValidString.simps)

end
