(* ===== verification/Secure_Open.thy ===== *)
theory Secure_Open
  imports Open Keyctl Wsl2 Wsl2_Json
begin

text \<open>
  Package \<open>secure\<close>: \<open>keyring.go\<close>, \<open>keyring_linux.go\<close> and the three \<open>info\<close> files. \<open>Open\<close>
  merges its options and hands over to the getter of the target: on Linux the one that knows
  Windows Credential Manager through the WSL2 helper, Secret Service and the kernel keyring,
  elsewhere the default one that knows the native backend. Neither knows the filesystem.
\<close>

section \<open>Options\<close>

record 'w secure_option =
  so_Service :: string
  so_Keyringer :: "'w keyringer option"
  so_Backends :: "backend list"

fun secure_merge_loop :: "'w secure_option option list \<Rightarrow> 'w secure_option \<Rightarrow> go_error + 'w secure_option" where
  "secure_merge_loop [] merged = Inr merged"
| "secure_merge_loop (None # options) merged = Inl nil_dereference"
| "secure_merge_loop (Some opt # options) merged =
     secure_merge_loop options
       \<lparr>so_Service = (if so_Service opt \<noteq> '''' then so_Service opt else so_Service merged),
        so_Keyringer = (if so_Keyringer opt \<noteq> None then so_Keyringer opt else so_Keyringer merged),
        so_Backends = (if length (so_Backends opt) \<noteq> 0 then so_Backends opt else so_Backends merged)\<rparr>"

definition secure_mergeOptions :: "'w secure_option option list \<Rightarrow> go_error + 'w secure_option" where
  "secure_mergeOptions options =
     secure_merge_loop options \<lparr>so_Service = '''', so_Keyringer = None, so_Backends = []\<rparr>"

section \<open>The platform\<close>

record 'w secure_world =
  sw_os :: goos
  sw_native :: "'w native_world"
  sw_keyctl :: "'w keyctl_calls"
  sw_fuel :: nat
  sw_readKernelRelease :: "('w, go_error + bytes) state"
  sw_lookPath :: "string \<Rightarrow> ('w, go_error + string) state"
  sw_runProcess :: "'w runFunc"
  sw_ReadFull :: "nat \<Rightarrow> ('w, go_error + bytes) state"

text \<open>\<open>nativeBackendInfo\<close> of \<open>keyring_linux.go\<close>, \<open>info_darwin.go\<close>, \<open>info_windows.go\<close> and
  \<open>info_other.go\<close>.\<close>

definition linux_info :: info where [simp]:
  "linux_info = \<lparr>Backend = BackendSecretService, Persistence = PersistencePersistent,
     Host = HostCurrent, Interaction = InteractionPossible, Fallback = False, Rejected = []\<rparr>"

definition darwin_info :: info where [simp]:
  "darwin_info = \<lparr>Backend = BackendKeychain, Persistence = PersistencePersistent,
     Host = HostCurrent, Interaction = InteractionPossible, Fallback = False, Rejected = []\<rparr>"

definition windows_info :: info where [simp]:
  "windows_info = \<lparr>Backend = BackendWindowsCredentialManager, Persistence = PersistencePersistent,
     Host = HostCurrent, Interaction = InteractionNone, Fallback = False, Rejected = []\<rparr>"

definition other_info :: info where [simp]:
  "other_info = \<lparr>Backend = BackendCustom, Persistence = PersistenceUnknown,
     Host = HostCurrent, Interaction = InteractionUnknown, Fallback = False, Rejected = []\<rparr>"

definition secure_nativeBackendInfo :: "goos \<Rightarrow> info" where
  "secure_nativeBackendInfo os =
     (case os of
        Linux \<Rightarrow> linux_info
      | MacOS \<Rightarrow> darwin_info
      | Windows_NT \<Rightarrow> windows_info
      | Other_unix \<Rightarrow> other_info
      | Other_target \<Rightarrow> other_info)"

definition secure_nativeBackendSupported :: "goos \<Rightarrow> bool" where
  "secure_nativeBackendSupported os = (os = Linux \<or> os = MacOS \<or> os = Windows_NT)"

section \<open>The getters\<close>

datatype 'w secure_opened =
    Secure_custom "'w keyringer"
  | Secure_native string
  | Secure_wsl2 "'w wsl2_keyring"
  | Secure_kernel keyctl_keyring

definition default_order :: "goos \<Rightarrow> 'w secure_option \<Rightarrow> backend list" where
  "default_order os opt =
     (if length (so_Backends opt) = 0 \<and> secure_nativeBackendSupported os
      then [Backend (secure_nativeBackendInfo os)] else so_Backends opt)"

definition default_registry :: "goos \<Rightarrow> 'w secure_option \<Rightarrow> backend \<rightharpoonup> ('w, 'w secure_opened) opener" where
  "default_registry os opt =
     (if secure_nativeBackendSupported os
      then [Backend (secure_nativeBackendInfo os) \<mapsto>
        (\<lambda>_. ret (Inr (Secure_native (so_Service opt), secure_nativeBackendInfo os)))]
      else Map.empty)"

definition defaultGetter_Get ::
  "goos \<Rightarrow> 'w ctx option \<Rightarrow> 'w secure_option \<Rightarrow> ('w, go_error + 'w secure_opened \<times> info) state" where
  "defaultGetter_Get os ctx opt = SelectBackend ctx (default_order os opt) (default_registry os opt)"

text \<open>The Linux getter's three openers.\<close>

definition wsl2_info :: info where
  "wsl2_info = \<lparr>Backend = BackendWindowsCredentialManager, Persistence = PersistencePersistent, Host = HostWindows,
     Interaction = InteractionNone, Fallback = False, Rejected = []\<rparr>"

definition secret_service_info :: info where
  "secret_service_info = \<lparr>Backend = BackendSecretService, Persistence = PersistencePersistent, Host = HostCurrent,
     Interaction = InteractionPossible, Fallback = False, Rejected = []\<rparr>"

definition kernel_info :: info where
  "kernel_info = \<lparr>Backend = BackendKernelKeyring, Persistence = PersistenceSession, Host = HostCurrent,
     Interaction = InteractionNone, Fallback = False, Rejected = []\<rparr>"

definition open_wsl2 :: "'w secure_world \<Rightarrow> 'w secure_option \<Rightarrow> ('w, 'w secure_opened) opener" where
  "open_wsl2 sw opt ctx = do {
     r \<leftarrow> wsl2_New Unmarshal_response (nw_WithTimeout (sw_native sw)) (isWSL2 (sw_readKernelRelease sw))
       (sw_lookPath sw) (sw_runProcess sw) (sw_ReadFull sw) encodeRequest ctx (so_Service opt);
     ret (case r of Inl err \<Rightarrow> Inl err | Inr k \<Rightarrow> Inr (Secure_wsl2 k, wsl2_info))
   }"

definition open_secret_service :: "'w secure_world \<Rightarrow> 'w secure_option \<Rightarrow> ('w, 'w secure_opened) opener" where
  "open_secret_service sw opt ctx = do {
     p \<leftarrow> dbus_Probe (nw_WithTimeout (sw_native sw)) (nw_bus (sw_native sw)) ctx;
     ret (case p of Some err \<Rightarrow> Inl err
          | None \<Rightarrow> Inr (Secure_native (so_Service opt), secret_service_info))
   }"

definition open_kernel :: "'w secure_world \<Rightarrow> 'w secure_option \<Rightarrow> ('w, 'w secure_opened) opener" where
  "open_kernel sw opt ctx = do {
     r \<leftarrow> keyctl_Open (sw_keyctl sw) (so_Service opt);
     ret (case r of Inl err \<Rightarrow> Inl err | Inr k \<Rightarrow> Inr (Secure_kernel k, kernel_info))
   }"

definition linux_order :: "'w secure_world \<Rightarrow> 'w secure_option \<Rightarrow> ('w, backend list) state" where
  "linux_order sw opt =
     (if length (so_Backends opt) = 0
      then do {
        inside \<leftarrow> isWSL2 (sw_readKernelRelease sw);
        ret ((if inside then [BackendWindowsCredentialManager] else [])
          @ [BackendSecretService, BackendKernelKeyring])
      }
      else ret (so_Backends opt))"

definition linux_registry :: "'w secure_world \<Rightarrow> 'w secure_option \<Rightarrow> backend \<rightharpoonup> ('w, 'w secure_opened) opener" where
  "linux_registry sw opt =
     [BackendWindowsCredentialManager \<mapsto> open_wsl2 sw opt,
      BackendSecretService \<mapsto> open_secret_service sw opt,
      BackendKernelKeyring \<mapsto> open_kernel sw opt]"

definition linuxGetter_Get ::
  "'w secure_world \<Rightarrow> 'w ctx option \<Rightarrow> 'w secure_option \<Rightarrow> ('w, go_error + 'w secure_opened \<times> info) state" where
  "linuxGetter_Get sw ctx opt = do {
     order \<leftarrow> linux_order sw opt;
     SelectBackend ctx order (linux_registry sw opt)
   }"

section \<open>Open\<close>

text \<open>The initialisation of the package leaves the getter of the target in place.\<close>

definition secure_getter ::
  "'w secure_world \<Rightarrow> 'w ctx option \<Rightarrow> 'w secure_option \<Rightarrow> ('w, go_error + 'w secure_opened \<times> info) state" where
  "secure_getter sw =
     (if sw_os sw = Linux then linuxGetter_Get sw else defaultGetter_Get (sw_os sw))"

definition secure_customInfo :: info where
  "secure_customInfo = \<lparr>Backend = BackendCustom, Persistence = PersistenceUnknown, Host = HostUnknown,
     Interaction = InteractionUnknown, Fallback = False, Rejected = []\<rparr>"

definition secure_Open ::
  "'w secure_world \<Rightarrow> 'w ctx option \<Rightarrow> 'w secure_option option list
     \<Rightarrow> ('w, go_error + 'w secure_opened \<times> info) state" where
  "secure_Open sw ctx options = do {
     cerr \<leftarrow> ContextError ctx;
     (case cerr of
        Some err \<Rightarrow> ret (Inl err)
      | None \<Rightarrow>
          (case secure_mergeOptions options of
             Inl panic \<Rightarrow> ret (Inl panic)
           | Inr opt \<Rightarrow>
               (case so_Keyringer opt of
                  Some k \<Rightarrow> ret (Inr (Secure_custom k, secure_customInfo))
                | None \<Rightarrow>
                    (if so_Service opt = ''''
                     then ret (Inl (Errorf ''%w: service is empty'' [Category ErrInvalidArgument]))
                     else secure_getter sw ctx opt))))
   }"

section \<open>Operations\<close>

definition secure_Get :: "'w secure_world \<Rightarrow> string \<Rightarrow> 'w ctx option \<Rightarrow> string \<Rightarrow> ('w, go_error + bytes) state" where
  "secure_Get sw service ctx username = native_Get (native_ops_of (sw_os sw) (sw_native sw)) ctx service username"

definition secure_Set ::
  "'w secure_world \<Rightarrow> string \<Rightarrow> 'w ctx option \<Rightarrow> string \<Rightarrow> bytes \<Rightarrow> ('w, go_error option) state" where
  "secure_Set sw service ctx username password =
     native_Set (native_ops_of (sw_os sw) (sw_native sw)) ctx service username password"

definition secure_Delete :: "'w secure_world \<Rightarrow> string \<Rightarrow> 'w ctx option \<Rightarrow> string \<Rightarrow> ('w, go_error option) state" where
  "secure_Delete sw service ctx username =
     native_Delete (native_ops_of (sw_os sw) (sw_native sw)) ctx service username"

text \<open>\<open>NewKeyring\<close> makes the native keyring of a service without selecting.\<close>

definition secure_NewKeyring :: "string \<Rightarrow> 'w secure_opened" where
  "secure_NewKeyring service = Secure_native service"

definition secure_methods :: "'w secure_world \<Rightarrow> 'w secure_opened \<Rightarrow> 'w keyringer" where
  "secure_methods sw k =
     (case k of
        Secure_custom c \<Rightarrow> c
      | Secure_native service \<Rightarrow>
          \<lparr>kr_Get = secure_Get sw service, kr_Set = secure_Set sw service, kr_Delete = secure_Delete sw service\<rparr>
      | Secure_wsl2 h \<Rightarrow>
          \<lparr>kr_Get = wsl2_Get Unmarshal_response (nw_WithTimeout (sw_native sw)) (Some h),
           kr_Set = wsl2_Set Unmarshal_response (nw_WithTimeout (sw_native sw)) (Some h),
           kr_Delete = wsl2_Delete Unmarshal_response (nw_WithTimeout (sw_native sw)) (Some h)\<rparr>
      | Secure_kernel r \<Rightarrow> keyctl_keyringer (sw_keyctl sw) (sw_fuel sw) r)"


section \<open>Lemmas\<close>

lemma secure_Open_Inr:
  assumes "run_state (secure_Open sw ctx options) w = (Inr (k, i), w')"
  obtains (custom) opt c where "secure_mergeOptions options = Inr opt" "so_Keyringer opt = Some c"
      "k = Secure_custom c" "i = secure_customInfo"
  | (selected) opt w1 where "secure_mergeOptions options = Inr opt" "so_Keyringer opt = None" "so_Service opt \<noteq> ''''"
      "run_state (secure_getter sw ctx opt) w1 = (Inr (k, i), w')" "run_state (ContextError ctx) w = (None, w1)"
  using assms by (auto simp: secure_Open_def split: prod.splits option.splits sum.splits if_splits)

lemma wsl2_New_service:
  "run_state (wsl2_New U T I lk rp rf enc ctx service) w = (Inr k, w') \<Longrightarrow> w_service k = service"
  by (auto simp: wsl2_New_def Let_def split: prod.splits option.splits sum.splits if_splits)

text \<open>What a successful opener of the Linux registry returned.\<close>

lemma linux_registry_cases:
  assumes "linux_registry sw opt b = Some opener" and "run_state (opener ctx) w = (Inr (k, j), w')"
  obtains (helper) h where "b = BackendWindowsCredentialManager" "k = Secure_wsl2 h" "j = wsl2_info"
      "w_service h = so_Service opt"
  | (service) "b = BackendSecretService" "k = Secure_native (so_Service opt)" "j = secret_service_info"
  | (kernel) r where "b = BackendKernelKeyring" "k = Secure_kernel r" "j = kernel_info" "kc_service r = so_Service opt"
proof -
  from assms(1) consider
      "b = BackendWindowsCredentialManager" "opener = open_wsl2 sw opt"
    | "b = BackendSecretService" "opener = open_secret_service sw opt"
    | "b = BackendKernelKeyring" "opener = open_kernel sw opt"
    by (auto simp: linux_registry_def split: if_splits)
  then show ?thesis
  proof cases
    case 1
    with assms(2) helper show ?thesis
      by (auto simp: open_wsl2_def dest: wsl2_New_service split: prod.splits sum.splits)
  next
    case 2
    with assms(2) service show ?thesis by (auto simp: open_secret_service_def split: prod.splits option.splits)
  next
    case 3
    with assms(2) kernel show ?thesis
      by (auto simp: open_kernel_def keyctl_Open_def split: prod.splits sum.splits)
  qed
qed

lemma linux_selected:
  assumes "run_state (linuxGetter_Get sw ctx opt) w = (Inr (k, i), w')"
  obtains order w0 b opener w1 j post where "run_state (linux_order sw opt) w = (order, w0)"
    "order = map fst (Rejected i) @ b # post"
    "\<forall>(b', x) \<in> set (Rejected i). \<exists>e. x = Some e \<and> permits_fallback e"
    "linux_registry sw opt b = Some opener" "run_state (opener ctx) w1 = (Inr (k, j), w')"
    "i = j\<lparr>Fallback := Fallback j \<or> Rejected i \<noteq> [], Rejected := Rejected i\<rparr>"
    "\<And>b' x opener'. (b', x) \<in> set (Rejected i) \<Longrightarrow> linux_registry sw opt b' = Some opener'
       \<Longrightarrow> \<exists>e v v'. x = Some e \<and> permits_fallback e \<and> run_state (opener' ctx) v = (Inl e, v')"
proof -
  obtain order w0 where o: "run_state (linux_order sw opt) w = (order, w0)" by fastforce
  with assms have "run_state (SelectBackend ctx order (linux_registry sw opt)) w0 = (Inr (k, i), w')"
    by (simp add: linuxGetter_Get_def)
  from select_selected [OF this] select_tried [OF this] o that show ?thesis by (elim exE conjE) blast
qed

lemma default_selected:
  assumes "run_state (defaultGetter_Get os ctx opt) w = (Inr (k, i), w')"
  shows "secure_nativeBackendSupported os \<and> k = Secure_native (so_Service opt)
     \<and> Backend i = Backend (secure_nativeBackendInfo os) \<and> Persistence i = Persistence (secure_nativeBackendInfo os)
     \<and> Host i = Host (secure_nativeBackendInfo os)"
proof -
  from select_selected [OF assms [unfolded defaultGetter_Get_def]] obtain b opener w1 j where
    r: "default_registry os opt b = Some opener" "run_state (opener ctx) w1 = (Inr (k, j), w')"
    and i: "i = j\<lparr>Fallback := Fallback j \<or> Rejected i \<noteq> [], Rejected := Rejected i\<rparr>" by blast
  from r have "secure_nativeBackendSupported os" "k = Secure_native (so_Service opt)" "j = secure_nativeBackendInfo os"
    by (auto simp: default_registry_def split: if_splits)
  then show ?thesis by (intro conjI) (assumption | subst i, simp)+
qed

text \<open>The selection of a Linux system without a desktop.\<close>

lemma secure_open_kernel:
  assumes "sw_os sw = Linux" and "service \<noteq> ''''"
    and "run_state (isWSL2 (sw_readKernelRelease sw)) w = (False, w1)"
    and "run_state (dbus_Probe (nw_WithTimeout (sw_native sw)) (nw_bus (sw_native sw)) Background) w1 = (Some e, w2)"
    and "permits_fallback e"
    and "run_state (keyctl_Open (sw_keyctl sw) service) w2 = (Inr ring, w3)"
  shows "run_state (secure_Open sw Background
         [Some \<lparr>so_Service = service, so_Keyringer = None, so_Backends = []\<rparr>]) w
       = (Inr (Secure_kernel ring, kernel_info\<lparr>Fallback := True, Rejected := [(BackendSecretService, Some e)]\<rparr>), w3)"
proof -
  let ?opt = "\<lparr>so_Service = service, so_Keyringer = None, so_Backends = []\<rparr>"
  have reg: "linux_registry sw ?opt BackendSecretService = Some (open_secret_service sw ?opt)"
    "linux_registry sw ?opt BackendKernelKeyring = Some (open_kernel sw ?opt)"
    by (simp_all add: linux_registry_def backend_defs)
  have a1: "run_state (attempt Background (linux_registry sw ?opt) BackendSecretService) w1 = (Skipped e, w2)"
    using assms(4,5) by (simp add: attempt_def reg open_secret_service_def)
  have a2: "run_state (attempt Background (linux_registry sw ?opt) BackendKernelKeyring) w2
      = (Selected (Secure_kernel ring) kernel_info, w3)"
    using assms(6) by (simp add: attempt_def reg open_kernel_def)
  have "run_state (linux_order sw ?opt) w = ([BackendSecretService, BackendKernelKeyring], w1)"
    using assms(3) by (simp add: linux_order_def)
  then show ?thesis
    using assms(1,2)
    by (simp add: secure_Open_def secure_mergeOptions_def secure_getter_def linuxGetter_Get_def SelectBackend_def
        select_loop_attempt a1 a2)
qed

section \<open>Properties\<close>

text \<open>C32 The description belongs to the keyring, and no keyring of this package stores files: the helper's
  keyring is described as Windows Credential Manager on the Windows host and carries the
  merged service name; the kernel's as session storage; the native one as the persistent
  backend of the target; a described backend is never the filesystem.\<close>

theorem secure_open_described:
  assumes "run_state (secure_Open sw ctx options) w = (Inr (k, i), w')"
  shows "Backend i \<noteq> BackendFilesystem \<and> (case k of
       Secure_custom c \<Rightarrow> i = secure_customInfo
     | Secure_native s \<Rightarrow> secure_nativeBackendSupported (sw_os sw) \<and> Persistence i = PersistencePersistent
         \<and> Backend i = Backend (secure_nativeBackendInfo (sw_os sw)) \<and> Host i = HostCurrent
         \<and> (\<exists>opt. secure_mergeOptions options = Inr opt \<and> so_Service opt = s)
     | Secure_wsl2 h \<Rightarrow> sw_os sw = Linux \<and> Backend i = BackendWindowsCredentialManager
         \<and> Persistence i = PersistencePersistent \<and> Host i = HostWindows
         \<and> (\<exists>opt. secure_mergeOptions options = Inr opt \<and> so_Service opt = w_service h)
     | Secure_kernel r \<Rightarrow> sw_os sw = Linux \<and> Backend i = BackendKernelKeyring
         \<and> Persistence i = PersistenceSession \<and> Host i = HostCurrent
         \<and> (\<exists>opt. secure_mergeOptions options = Inr opt \<and> so_Service opt = kc_service r))"
  using assms
proof (cases rule: secure_Open_Inr)
  case (custom opt c)
  then show ?thesis by (simp add: secure_customInfo_def backend_defs)
next
  case (selected opt w1)
  show ?thesis
  proof (cases "sw_os sw = Linux")
    case True
    with selected(4) have "run_state (linuxGetter_Get sw ctx opt) w1 = (Inr (k, i), w')"
      by (simp add: secure_getter_def)
    then show ?thesis
    proof (rule linux_selected)
      fix order w0 b opener w2 j post
      assume reg: "linux_registry sw opt b = Some opener" and run: "run_state (opener ctx) w2 = (Inr (k, j), w')"
        and i: "i = j\<lparr>Fallback := Fallback j \<or> Rejected i \<noteq> [], Rejected := Rejected i\<rparr>"
      have f: "Backend i = Backend j" "Persistence i = Persistence j" "Host i = Host j" by (subst i, simp)+
      from reg run show ?thesis
        by (cases rule: linux_registry_cases)
          (simp_all add: f True selected(1) wsl2_info_def secret_service_info_def kernel_info_def backend_defs
            secure_nativeBackendInfo_def secure_nativeBackendSupported_def)
    qed
  next
    case False
    with selected(4) have "run_state (defaultGetter_Get (sw_os sw) ctx opt) w1 = (Inr (k, i), w')"
      by (simp add: secure_getter_def)
    from default_selected [OF this] show ?thesis using selected(1)
      by (cases "sw_os sw") (simp_all add: secure_nativeBackendSupported_def secure_nativeBackendInfo_def backend_defs)
  qed
qed

text \<open>The filesystem is refused even when it is asked for: with the filesystem as the only backend, on
  every target, \<open>Open\<close> fails with a selection error that records it as unsupported, and
  nothing is touched.\<close>

lemma secure_filesystem_refused:
  "run_state (secure_Open sw Background
       [Some \<lparr>so_Service = c # cs, so_Keyringer = None, so_Backends = [BackendFilesystem]\<rparr>]) w
     = (Inl (SelectionErr [(BackendFilesystem, Some unsupported_backend)] (Some (Category ErrBackendUnavailable))), w)"
  by (cases "sw_os sw")
    (simp_all add: secure_Open_def secure_mergeOptions_def secure_getter_def linuxGetter_Get_def linux_order_def
      defaultGetter_Get_def default_order_def SelectBackend_def select_loop_attempt attempt_def
      linux_registry_def default_registry_def secure_nativeBackendSupported_def secure_nativeBackendInfo_def
      backend_defs selectionError_def)

text \<open>C7 Session storage only as the last resort: with the default order, the kernel keyring is returned
  only after the probe of Secret Service was run and answered with an error that permits a
  fallback, and, exactly when the kernel release read by this call says WSL2, after the helper for
  Windows Credential Manager had been tried before it with the same outcome. The description
  records exactly these rejections in this order, says the selection is a fallback, and says the
  storage lasts for the session.\<close>

theorem secure_kernel_is_last:
  assumes "run_state (secure_Open sw ctx options) w = (Inr (Secure_kernel r, i), w')"
    and "secure_mergeOptions options = Inr opt" and "so_Backends opt = []"
  shows "Fallback i \<and> Persistence i = PersistenceSession
     \<and> (\<exists>w1 w2 inside e e'. run_state (ContextError ctx) w = (None, w1)
        \<and> run_state (isWSL2 (sw_readKernelRelease sw)) w1 = (inside, w2)
        \<and> Rejected i = (if inside then [(BackendWindowsCredentialManager, Some e')] else [])
             @ [(BackendSecretService, Some e)]
        \<and> permits_fallback e \<and> (\<exists>v v'. run_state (open_secret_service sw opt ctx) v = (Inl e, v'))
        \<and> (inside \<longrightarrow> permits_fallback e' \<and> (\<exists>v v'. run_state (open_wsl2 sw opt ctx) v = (Inl e', v'))))"
  using assms(1)
proof (cases rule: secure_Open_Inr)
  case (selected opt' w1)
  then have opt: "opt' = opt" using assms(2) by simp
  have "sw_os sw = Linux"
    using selected(4) default_selected by (fastforce simp: secure_getter_def split: if_splits)
  with selected(4) opt have "run_state (linuxGetter_Get sw ctx opt) w1 = (Inr (Secure_kernel r, i), w')"
    by (simp add: secure_getter_def)
  then show ?thesis
  proof (rule linux_selected)
    fix order w0 b opener w2 j post
    assume o: "run_state (linux_order sw opt) w1 = (order, w0)"
      and split: "order = map fst (Rejected i) @ b # post"
      and permit: "\<forall>(b', x) \<in> set (Rejected i). \<exists>e. x = Some e \<and> permits_fallback e"
      and reg: "linux_registry sw opt b = Some opener" "run_state (opener ctx) w2 = (Inr (Secure_kernel r, j), w')"
      and i: "i = j\<lparr>Fallback := Fallback j \<or> Rejected i \<noteq> [], Rejected := Rejected i\<rparr>"
      and tried: "\<And>b' x opener'. (b', x) \<in> set (Rejected i) \<Longrightarrow> linux_registry sw opt b' = Some opener'
       \<Longrightarrow> \<exists>e v v'. x = Some e \<and> permits_fallback e \<and> run_state (opener' ctx) v = (Inl e, v')"
    from reg have b: "b = BackendKernelKeyring" and j: "j = kernel_info"
      by (cases rule: linux_registry_cases; simp)+
    obtain inside w3 where inside: "run_state (isWSL2 (sw_readKernelRelease sw)) w1 = (inside, w3)" by fastforce
    with o assms(3) have "order = (if inside then [BackendWindowsCredentialManager] else [])
        @ [BackendSecretService, BackendKernelKeyring]"
      by (auto simp: linux_order_def)
    with split b have names: "map fst (Rejected i) =
        (if inside then [BackendWindowsCredentialManager] else []) @ [BackendSecretService]"
      by (auto simp: backend_defs append_eq_Cons_conv Cons_eq_append_conv split: if_splits)
    have windows: "linux_registry sw opt BackendWindowsCredentialManager = Some (open_wsl2 sw opt)"
      and service: "linux_registry sw opt BackendSecretService = Some (open_secret_service sw opt)"
      by (simp_all add: linux_registry_def backend_defs)
    from names obtain x where x: "(BackendSecretService, x) \<in> set (Rejected i)"
      by (cases inside) (fastforce simp: map_eq_Cons_conv)+
    from tried [OF x service] obtain e where e: "x = Some e" "permits_fallback e"
      "\<exists>v v'. run_state (open_secret_service sw opt ctx) v = (Inl e, v')" by blast
    have "\<exists>e'. Rejected i = (if inside then [(BackendWindowsCredentialManager, Some e')] else [])
             @ [(BackendSecretService, Some e)]
        \<and> (inside \<longrightarrow> permits_fallback e' \<and> (\<exists>v v'. run_state (open_wsl2 sw opt ctx) v = (Inl e', v')))"
    proof (cases inside)
      case True
      with names obtain y z where r: "Rejected i = [(BackendWindowsCredentialManager, y), (BackendSecretService, z)]"
        by (auto simp: map_eq_Cons_conv)
      then have "z = x" using x by (auto simp: backend_defs)
      moreover from tried [of BackendWindowsCredentialManager y, OF _ windows] r obtain e' where
        "y = Some e'" "permits_fallback e'" "\<exists>v v'. run_state (open_wsl2 sw opt ctx) v = (Inl e', v')" by auto
      ultimately show ?thesis using True r e(1) by auto
    next
      case False
      with names x e(1) show ?thesis by (auto simp: map_eq_Cons_conv)
    qed
    moreover have "Rejected i \<noteq> []" using x by auto
    then have "Fallback i" by (subst i) simp
    moreover have "Persistence i = PersistenceSession" by (subst i) (simp add: j kernel_info_def)
    ultimately show ?thesis using inside e(2,3) selected(5) by blast
  qed
qed simp


text \<open>C16 Opening and using, end to end, without a desktop: on Linux outside WSL2, when the Secret Service
  probe says unavailable and the kernel has a user-session keyring with the documented
  behaviour, \<open>Open\<close> with a service name selects the kernel keyring as a fallback, and the
  operations of what it returns answer every sequence of requests on non-empty values within
  the payload limit as a map does.\<close>

theorem secure_open_then_use:
  assumes "sw_os sw = Linux" and "service \<noteq> ''''"
    and "run_state (isWSL2 (sw_readKernelRelease sw)) w = (False, w1)"
    and "run_state (dbus_Probe (nw_WithTimeout (sw_native sw)) (nw_bus (sw_native sw)) Background) w1 = (Some e, w2)"
    and "permits_fallback e"
    and "run_state (keyctl_Open (sw_keyctl sw) service) w2 = (Inr ring, w3)"
    and "kernel_keyring (sw_keyctl sw) ring payloads refers good" and "good w3" and "sw_fuel sw = Suc fuel"
    and "\<forall>r\<in>set rs. acceptable (\<lambda>_. True) (\<lambda>_ v. v \<noteq> [] \<and> length v \<le> userKeyPayloadLimit) r"
    and "spec_run (keyctl_key ring) rs (payloads w3) = (as, m)"
  shows "\<exists>w4. run_state (secure_Open sw Background
         [Some \<lparr>so_Service = service, so_Keyringer = None, so_Backends = []\<rparr>]) w
       = (Inr (Secure_kernel ring, kernel_info\<lparr>Fallback := True, Rejected := [(BackendSecretService, Some e)]\<rparr>), w3)
     \<and> run_state (impl_run (kr_Get (secure_methods sw (Secure_kernel ring)) Background)
         (kr_Set (secure_methods sw (Secure_kernel ring)) Background)
         (kr_Delete (secure_methods sw (Secure_kernel ring)) Background) rs) w3 = (as, w4) \<and> payloads w4 = m"
proof -
  note secure_open_kernel [OF assms(1-6)]
  moreover obtain w4 where "run_state (impl_run (keyctl_Get (sw_keyctl sw) (Suc fuel) ring Background)
       (keyctl_Set (sw_keyctl sw) ring Background) (keyctl_Delete (sw_keyctl sw) ring Background) rs) w3 = (as, w4)"
    "payloads w4 = m" using kernel_keyring.requests_refine [OF assms(7,8,10,11)] by blast
  ultimately show ?thesis
    by (intro exI [of _ w4]) (simp add: secure_methods_def keyctl_keyringer_def assms(9))
qed


section \<open>Witnesses\<close>

text \<open>A headless Linux system: no session bus, a kernel keyring in memory.\<close>

definition demo_headless :: "key_table secure_world" where
  "demo_headless =
     \<lparr>sw_os = Linux,
      sw_native = \<lparr>nw_WithTimeout = (\<lambda>x _. ret (x, ret ())),
        nw_bus = no_session_bus,
        nw_Quote = (\<lambda>s. s), nw_security = (\<lambda>_ _ _. ret ('''', None)),
        nw_wincred = \<lparr>GetGenericCredential = (\<lambda>_. ret (Inl (WinError ErrElementNotFound))),
          WriteGeneric = (\<lambda>_ _ _. ret None), DeleteGeneric = (\<lambda>_. ret None)\<rparr>\<rparr>,
      sw_keyctl = mem_calls, sw_fuel = 1, sw_readKernelRelease = ret (Inl ErrNotExist),
      sw_lookPath = (\<lambda>_. ret (Inl ExecErrNotFound)),
      sw_runProcess = (\<lambda>_ _ _. ret \<lparr>pr_output = '''', pr_exitCode = 0, pr_err = None\<rparr>),
      sw_ReadFull = (\<lambda>n. ret (Inr (replicate n (CHR 0x00))))\<rparr>"

definition no_bus :: go_error where
  "no_bus = Errorf ''connect to session bus: %w''
     [Errorf ''%w: dial session bus: %w'' [Category ErrBackendUnavailable, ErrNotExist]]"

definition demo_keys :: key_table where
  "demo_keys = \<lparr>descriptions = Map.empty, key_data = (\<lambda>_. []), next_serial = 1\<rparr>"

lemma demo_headless_facts:
  "sw_os demo_headless = Linux"
  "run_state (isWSL2 (sw_readKernelRelease demo_headless)) w = (False, w)"
  "run_state (dbus_Probe (nw_WithTimeout (sw_native demo_headless)) (nw_bus (sw_native demo_headless)) Background) w
     = (Some no_bus, w)"
  "permits_fallback no_bus"
  "run_state (keyctl_Open (sw_keyctl demo_headless) ''mail'') w = (Inr \<lparr>session = 1, kc_service = ''mail''\<rparr>, w)"
  "sw_keyctl demo_headless = mem_calls" "sw_fuel demo_headless = Suc 0"
  by (simp_all add: demo_headless_def isWSL2_def probe_def dbus_entries newConnector_none dbus_contextError_eq backendError_def Background_def
      ContextError_def classify_bus_def dbus_portable_def no_bus_def permits_fallback_def keyctl_Open_def mem_calls_def)

lemma demo_headless_open:
  "run_state (secure_Open demo_headless Background
       [Some \<lparr>so_Service = ''mail'', so_Keyringer = None, so_Backends = []\<rparr>]) w
     = (Inr (Secure_kernel \<lparr>session = 1, kc_service = ''mail''\<rparr>,
         kernel_info\<lparr>Fallback := True, Rejected := [(BackendSecretService, Some no_bus)]\<rparr>), w)"
  by (rule secure_open_kernel [OF demo_headless_facts(1) _ demo_headless_facts(2-5)]) simp

theorem secure_open_described_witness:
  "Backend (kernel_info\<lparr>Fallback := True, Rejected := [(BackendSecretService, Some no_bus)]\<rparr>) = BackendKernelKeyring"
  using secure_open_described [OF demo_headless_open] by simp

theorem secure_kernel_is_last_witness:
  "permits_fallback no_bus \<and> (\<exists>v v'. run_state (open_secret_service demo_headless
       \<lparr>so_Service = ''mail'', so_Keyringer = None, so_Backends = []\<rparr> Background) v = (Inl no_bus, v'))"
  using secure_kernel_is_last [where opt = "\<lparr>so_Service = ''mail'', so_Keyringer = None, so_Backends = []\<rparr>",
      OF demo_headless_open [of demo_keys]]
  by (simp add: secure_mergeOptions_def) (auto split: if_splits)

theorem secure_open_then_use_witness:
  "\<exists>w4. run_state (impl_run
       (kr_Get (secure_methods demo_headless (Secure_kernel \<lparr>session = 1, kc_service = ''mail''\<rparr>)) Background)
       (kr_Set (secure_methods demo_headless (Secure_kernel \<lparr>session = 1, kc_service = ''mail''\<rparr>)) Background)
       (kr_Delete (secure_methods demo_headless (Secure_kernel \<lparr>session = 1, kc_service = ''mail''\<rparr>)) Background)
       [Set_req ''k'' ''v'', Get_req ''k'']) demo_keys = ([Done_ok, Value ''v''], w4)"
proof -
  let ?ring = "\<lparr>session = 1, kc_service = ''mail''\<rparr>"
  let ?rs = "[Set_req ''k'' ''v'', Get_req ''k'']"
  have k: "kernel_keyring (sw_keyctl demo_headless) ?ring mem_payloads (\<lambda>w c d. descriptions w d = Some c) mem_good"
    using mem_ring.kernel_keyring_axioms by (simp add: demo_headless_facts(6))
  have g: "mem_good demo_keys" by (simp add: mem_good_def demo_keys_def)
  have a: "\<forall>r\<in>set ?rs. acceptable (\<lambda>_. True) (\<lambda>_ v. v \<noteq> [] \<and> length v \<le> userKeyPayloadLimit) r"
    by (simp add: userKeyPayloadLimit_def)
  have s: "spec_run (keyctl_key ?ring) ?rs (mem_payloads demo_keys) =
      ([Done_ok, Value ''v''], (mem_payloads demo_keys)(keyctl_key ?ring ''k'' \<mapsto> ''v''))" by simp
  show ?thesis
    using secure_open_then_use [OF demo_headless_facts(1) _ demo_headless_facts(2-5) k g demo_headless_facts(7) a s]
    by auto
qed

end
