(* ===== verification/Cli.thy ===== *)
theory Cli
  imports Secure_Open
begin

text \<open>
  \<open>examples/keyring-cli/main.go\<close>: the handlers of the example's three commands and the hook that
  opens the keyring before them. Parsing the command line belongs to the \<open>cobra\<close> library; a
  handler is given its context, its one argument, standard input as the result of
  \<open>io.ReadAll\<close>, and the action that writes to standard output.
\<close>

type_synonym 'w initializer =
  "'w ctx option \<Rightarrow> 'w secure_option option list \<Rightarrow> ('w, go_error + 'w keyringer \<times> info) state"

record 'w application =
  app_initialize :: "'w initializer"
  app_service :: string
  app_keyring :: "'w keyringer option"

text \<open>\<open>secure.Open\<close> as the initializer that \<open>main\<close> passes.\<close>

definition cli_initializer :: "'w secure_world \<Rightarrow> 'w initializer" where
  "cli_initializer sw ctx options = do {
     r \<leftarrow> secure_Open sw ctx options;
     ret (case r of Inl err \<Rightarrow> Inl err | Inr (k, i) \<Rightarrow> Inr (secure_methods sw k, i))
   }"

definition persistentPreRun :: "'w application \<Rightarrow> 'w ctx option \<Rightarrow> ('w, go_error + 'w application) state" where
  "persistentPreRun app ctx = do {
     r \<leftarrow> app_initialize app ctx [Some \<lparr>so_Service = app_service app, so_Keyringer = None, so_Backends = []\<rparr>];
     ret (case r of
        Inl err \<Rightarrow> Inl (Errorf ''initialize keyring: %w'' [err])
      | Inr (storage, _) \<Rightarrow> Inr (app\<lparr>app_keyring := Some storage\<rparr>))
   }"

text \<open>A handler that ran without the hook would call a method of a nil interface.\<close>

definition createCommand ::
  "'w application \<Rightarrow> ('w, bytes \<times> go_error option) state \<Rightarrow> (bytes \<Rightarrow> ('w, go_error option) state)
     \<Rightarrow> 'w ctx option \<Rightarrow> string \<Rightarrow> ('w, go_error option) state" where
  "createCommand app inOrStdin outOrStdout ctx key = do {
     r \<leftarrow> inOrStdin;
     (case r of (contents, err) \<Rightarrow>
        (case err of
           Some e \<Rightarrow> ret (Some (Errorf ''read secret: %w'' [e]))
         | None \<Rightarrow>
             (case app_keyring app of
                None \<Rightarrow> ret (Some nil_dereference)
              | Some keyring \<Rightarrow> do {
                  s \<leftarrow> kr_Set keyring ctx key contents;
                  (case s of
                     Some e \<Rightarrow> ret (Some (Errorf ''create secret: %w'' [e]))
                   | None \<Rightarrow> outOrStdout (''secret created'' @ [CHR 10]))
                })))
   }"

definition getCommand ::
  "'w application \<Rightarrow> (bytes \<Rightarrow> ('w, go_error option) state) \<Rightarrow> 'w ctx option \<Rightarrow> string \<Rightarrow> ('w, go_error option) state" where
  "getCommand app outOrStdout ctx key =
     (case app_keyring app of
        None \<Rightarrow> ret (Some nil_dereference)
      | Some keyring \<Rightarrow> do {
          g \<leftarrow> kr_Get keyring ctx key;
          (case g of
             Inl e \<Rightarrow> ret (Some (Errorf ''get secret: %w'' [e]))
           | Inr contents \<Rightarrow> outOrStdout contents)
        })"

definition deleteCommand ::
  "'w application \<Rightarrow> (bytes \<Rightarrow> ('w, go_error option) state) \<Rightarrow> 'w ctx option \<Rightarrow> string \<Rightarrow> ('w, go_error option) state" where
  "deleteCommand app outOrStdout ctx key =
     (case app_keyring app of
        None \<Rightarrow> ret (Some nil_dereference)
      | Some keyring \<Rightarrow> do {
          d \<leftarrow> kr_Delete keyring ctx key;
          (case d of
             Some e \<Rightarrow> ret (Some (Errorf ''delete secret: %w'' [e]))
           | None \<Rightarrow> outOrStdout (''secret deleted'' @ [CHR 10]))
        })"

section \<open>The program\<close>

text \<open>
  What \<open>cobra\<close> makes of a command line that it accepts: the command with its one argument, and
  the value of \<open>--service\<close> if it was given. It runs the hook, and then the command if the hook
  returned no error.
\<close>

datatype cli_call = Create_call string | Get_call string | Delete_call string

definition newRootCommand :: "'w initializer \<Rightarrow> string option \<Rightarrow> 'w application" where
  "newRootCommand initialize flag =
     \<lparr>app_initialize = initialize,
      app_service = (case flag of None \<Rightarrow> ''keyring-example'' | Some service \<Rightarrow> service),
      app_keyring = None\<rparr>"

definition cli_Execute ::
  "'w application \<Rightarrow> ('w, bytes \<times> go_error option) state \<Rightarrow> (bytes \<Rightarrow> ('w, go_error option) state)
     \<Rightarrow> 'w ctx option \<Rightarrow> cli_call \<Rightarrow> ('w, go_error option) state" where
  "cli_Execute app inOrStdin outOrStdout ctx call = do {
     r \<leftarrow> persistentPreRun app ctx;
     (case r of
        Inl err \<Rightarrow> ret (Some err)
      | Inr app' \<Rightarrow>
          (case call of
             Create_call key \<Rightarrow> createCommand app' inOrStdin outOrStdout ctx key
           | Get_call key \<Rightarrow> getCommand app' outOrStdout ctx key
           | Delete_call key \<Rightarrow> deleteCommand app' outOrStdout ctx key))
   }"

text \<open>\<open>main\<close> prints an error and exits with 1. The result is the exit code.\<close>

definition cli_main ::
  "'w initializer \<Rightarrow> ('w, bytes \<times> go_error option) state \<Rightarrow> (bytes \<Rightarrow> ('w, go_error option) state)
     \<Rightarrow> (go_error \<Rightarrow> ('w, unit) state) \<Rightarrow> string option \<Rightarrow> cli_call \<Rightarrow> ('w, int) state" where
  "cli_main initialize stdin stdout stderr flag call = do {
     err \<leftarrow> cli_Execute (newRootCommand initialize flag) stdin stdout Background call;
     (case err of
        None \<Rightarrow> ret 0
      | Some e \<Rightarrow> do { _ \<leftarrow> stderr e; ret 1 })
   }"

abbreviation cli_option :: "string option \<Rightarrow> 'w secure_option" where
  "cli_option flag \<equiv>
     \<lparr>so_Service = (case flag of None \<Rightarrow> ''keyring-example'' | Some service \<Rightarrow> service), so_Keyringer = None,
      so_Backends = []\<rparr>"

lemma run_Execute:
  assumes "run_state (initialize ctx [Some (cli_option flag)]) w = (Inr (k, i), w')"
  shows "run_state (cli_Execute (newRootCommand initialize flag) stdin stdout ctx call) w =
    run_state (let app = (newRootCommand initialize flag)\<lparr>app_keyring := Some k\<rparr> in
      case call of
        Create_call key \<Rightarrow> createCommand app stdin stdout ctx key
      | Get_call key \<Rightarrow> getCommand app stdout ctx key
      | Delete_call key \<Rightarrow> deleteCommand app stdout ctx key) w'"
  using assms by (simp add: cli_Execute_def persistentPreRun_def newRootCommand_def Let_def)

section \<open>Properties\<close>

text \<open>C30 The life of a secret through four runs of the example, each a process that opens the keyring anew:
  with keyrings that keep the contract, \<open>create\<close> with the secret on standard input exits with 0,
  \<open>get\<close> then writes exactly the bytes that were read and exits with 0, \<open>delete\<close> exits with 0, and a
  \<open>get\<close> after it writes nothing to standard output, prints an error that still matches
  \<open>ErrNotFound\<close> and exits with 1.\<close>

theorem cli_lifecycle:
  fixes initialize :: "'w initializer" and flag and stdin :: "('w, bytes \<times> go_error option) state"
    and out and errs :: "go_error \<Rightarrow> ('w, unit) state"
  defines "run \<equiv> cli_main initialize stdin out errs flag"
  assumes "keyringer_contract (kr_Get k Background) (kr_Set k Background) (kr_Delete k Background)
      view slot good valid accepts"
    and "good w" and "valid key" and "accepts key contents"
    and opens: "\<And>u. good u \<Longrightarrow> \<exists>i u'. run_state (initialize Background [Some (cli_option flag)]) u = (Inr (k, i), u')
      \<and> good u' \<and> view u' = view u"
    and reads: "\<And>u. good u \<Longrightarrow> \<exists>u'. run_state stdin u = ((contents, None), u') \<and> good u' \<and> view u' = view u"
    and out: "\<And>b u. good u \<Longrightarrow> \<exists>u'. run_state (out b) u = (None, u') \<and> good u' \<and> view u' = view u"
  shows "\<exists>w1 u w2 w3 v e w4. run_state (run (Create_call key)) w = (0, w1)
     \<and> run_state (run (Get_call key)) w1 = (0, w2) \<and> run_state (out contents) u = (None, w2)
     \<and> run_state (run (Delete_call key)) w2 = (0, w3)
     \<and> run_state (run (Get_call key)) w3 = (1, w4) \<and> run_state (errs e) v = ((), w4)
     \<and> err_is e (Category ErrNotFound)"
proof -
  note ex = run_Execute [where initialize = initialize and ctx = Background and flag = flag]
  note set = keyringer_contract.set_stores [OF assms(2)] and found = keyringer_contract.get_found [OF assms(2)]
    and del = keyringer_contract.delete_found [OF assms(2)] and missing = keyringer_contract.get_missing [OF assms(2)]
  obtain i0 a0 where p0: "run_state (initialize Background [Some (cli_option flag)]) w = (Inr (k, i0), a0)" "good a0"
    using opens [OF assms(3)] by blast
  obtain b0 where r: "run_state stdin a0 = ((contents, None), b0)" "good b0" using reads [OF p0(2)] by blast
  obtain c0 where s: "run_state (kr_Set k Background key contents) b0 = (None, c0)" "good c0"
    "view c0 = (view b0)(slot key \<mapsto> contents)" using set [OF r(2) assms(4,5)] by blast
  obtain w1 where o0: "run_state (out (''secret created'' @ [CHR 10])) c0 = (None, w1)" "good w1" "view w1 = view c0"
    using out [OF s(2)] by blast
  obtain i1 a1 where p1: "run_state (initialize Background [Some (cli_option flag)]) w1 = (Inr (k, i1), a1)" "good a1"
    "view a1 = view w1" using opens [OF o0(2)] by blast
  have "view a1 (slot key) = Some contents" using s(3) o0(3) p1(3) by simp
  then obtain u where g: "run_state (kr_Get k Background key) a1 = (Inr contents, u)" "good u" "view u = view a1"
    using found [OF p1(2) assms(4)] by blast
  obtain w2 where o1: "run_state (out contents) u = (None, w2)" "good w2" "view w2 = view u" using out [OF g(2)] by blast
  obtain i2 a2 where p2: "run_state (initialize Background [Some (cli_option flag)]) w2 = (Inr (k, i2), a2)" "good a2"
    "view a2 = view w2" using opens [OF o1(2)] by blast
  have "view a2 (slot key) = Some contents" using s(3) o0(3) p1(3) g(3) o1(3) p2(3) by simp
  then obtain b2 where d: "run_state (kr_Delete k Background key) a2 = (None, b2)" "good b2"
    "view b2 = (view a2)(slot key := None)" using del [OF p2(2) assms(4)] by blast
  obtain w3 where o2: "run_state (out (''secret deleted'' @ [CHR 10])) b2 = (None, w3)" "good w3" "view w3 = view b2"
    using out [OF d(2)] by blast
  obtain i3 a3 where p3: "run_state (initialize Background [Some (cli_option flag)]) w3 = (Inr (k, i3), a3)" "good a3"
    "view a3 = view w3" using opens [OF o2(2)] by blast
  have "view a3 (slot key) = None" using d(3) o2(3) p3(3) by simp
  then obtain e v where m: "run_state (kr_Get k Background key) a3 = (Inl e, v)" "err_is e (Category ErrNotFound)"
    using missing [OF p3(2) assms(4)] by blast
  let ?e = "Errorf ''get secret: %w'' [e]"
  obtain w4 where e: "run_state (errs ?e) v = ((), w4)" by (cases "run_state (errs ?e) v") auto
  have "run_state (run (Create_call key)) w = (0, w1)"
    using r(1) s(1) o0(1) by (simp add: run_def cli_main_def ex [OF p0(1)] createCommand_def)
  moreover have "run_state (run (Get_call key)) w1 = (0, w2)"
    using g(1) o1(1) by (simp add: run_def cli_main_def ex [OF p1(1)] getCommand_def)
  moreover have "run_state (run (Delete_call key)) w2 = (0, w3)"
    using d(1) o2(1) by (simp add: run_def cli_main_def ex [OF p2(1)] deleteCommand_def)
  moreover have "run_state (run (Get_call key)) w3 = (1, w4)"
    using m(1) e by (simp add: run_def cli_main_def ex [OF p3(1)] getCommand_def)
  moreover have "err_is ?e (Category ErrNotFound)" using m(2) by simp
  ultimately show ?thesis using o1(1) e by blast
qed

text \<open>The example on the headless system of \<open>Secure_Open\<close>: every run opens the kernel keyring.\<close>

theorem cli_lifecycle_witness:
  "\<exists>w1 w2 w3 w4. let run = cli_main (cli_initializer demo_headless) (ret (''v'', None)) (\<lambda>_. ret None) (\<lambda>_. ret ())
         (Some ''mail'') in
       run_state (run (Create_call ''k'')) demo_keys = (0, w1) \<and> run_state (run (Get_call ''k'')) w1 = (0, w2)
     \<and> run_state (run (Delete_call ''k'')) w2 = (0, w3) \<and> run_state (run (Get_call ''k'')) w3 = (1, w4)"
proof -
  let ?ring = "\<lparr>session = 1, kc_service = ''mail''\<rparr>"
  let ?k = "secure_methods demo_headless (Secure_kernel ?ring)"
  have c: "keyringer_contract (kr_Get ?k Background) (kr_Set ?k Background) (kr_Delete ?k Background)
      mem_payloads (keyctl_key ?ring) mem_good (\<lambda>_. True) (\<lambda>_ v. v \<noteq> [] \<and> length v \<le> userKeyPayloadLimit)"
    using mem_ring.keyring.keyringer_contract_axioms [of 0 ?ring]
    by (simp add: secure_methods_def keyctl_keyringer_def demo_headless_facts)
  have g: "mem_good demo_keys" by (simp add: mem_good_def demo_keys_def)
  have v: "''v'' \<noteq> [] \<and> length ''v'' \<le> userKeyPayloadLimit" by (simp add: userKeyPayloadLimit_def)
  have i: "\<exists>i u'. run_state (cli_initializer demo_headless Background [Some (cli_option (Some ''mail''))]) u = (Inr (?k, i), u')
      \<and> mem_good u' \<and> mem_payloads u' = mem_payloads u" if "mem_good u" for u
    using that by (simp add: cli_initializer_def demo_headless_open)
  have r: "\<exists>u'. run_state (ret (''v'', None)) u = ((''v'', None), u') \<and> mem_good u' \<and> mem_payloads u' = mem_payloads u"
    if "mem_good u" for u using that by simp
  have o: "\<exists>u'. run_state (ret None) u = (None, u') \<and> mem_good u' \<and> mem_payloads u' = mem_payloads u"
    if "mem_good u" for b :: bytes and u using that by simp
  show ?thesis
    using cli_lifecycle [where initialize = "cli_initializer demo_headless" and flag = "Some ''mail''"
        and stdin = "ret (''v'', None)" and out = "\<lambda>_. ret None" and errs = "\<lambda>_. ret ()" and key = "''k''",
        OF c g TrueI v i r o]
    unfolding Let_def by blast
qed

end
