(* ===== verification/Fs_Atomic.thy ===== *)
theory Fs_Atomic
  imports Fs_Storage
begin

text \<open>
  How a credential is replaced, observed from outside. A recorder wraps an arbitrary system
  and notes every call on files with its arguments and its result; the system may answer
  anything, fail at any point and count in any way. What the calls mean for the directory is
  the documented effect of each successful call, replayed over the notes (\<open>replay\<close>), so the
  theorems of this theory assume nothing of the system.
\<close>

section \<open>The recorder\<close>

datatype event =
    Opened int string "open_flag list" "32 word" "go_error + int"
  | Chmodded int "32 word" "go_error option"
  | Was_read int nat "int \<times> bytes \<times> go_error option"
  | Written int bytes int "go_error option"
  | Synced int "go_error option"
  | Closed int "go_error option"
  | Renamed int string int string "go_error option"
  | Unlinked int string int "go_error option"

definition recorded_system :: "'w linux_system \<Rightarrow> ('w \<times> event list) linux_system" where
  "recorded_system sys =
     \<lparr>sys_validateMount = (\<lambda>p. noted (\<lambda>_. []) (sys_validateMount sys p)),
      sys_prepareDirectories = (\<lambda>p l u. noted (\<lambda>_. []) (sys_prepareDirectories sys p l u)),
      sys_openDirectory = (\<lambda>p u. noted (\<lambda>_. []) (sys_openDirectory sys p u)),
      sys_openDirectoryAt = (\<lambda>d n u. noted (\<lambda>_. []) (sys_openDirectoryAt sys d n u)),
      sys_openFileAt = (\<lambda>d n f m. noted (\<lambda>r. [Opened d n f m r]) (sys_openFileAt sys d n f m)),
      sys_fstat = (\<lambda>d. noted (\<lambda>_. []) (sys_fstat sys d)),
      sys_fchmod = (\<lambda>d m. noted (\<lambda>r. [Chmodded d m r]) (sys_fchmod sys d m)),
      sys_read = (\<lambda>d n. noted (\<lambda>r. [Was_read d n r]) (sys_read sys d n)),
      sys_write = (\<lambda>d c. noted (\<lambda>(n, e). [Written d c n e]) (sys_write sys d c)),
      sys_fsync = (\<lambda>d. noted (\<lambda>r. [Synced d r]) (sys_fsync sys d)),
      sys_close = (\<lambda>d. noted (\<lambda>r. [Closed d r]) (sys_close sys d)),
      sys_renameAt = (\<lambda>d n d' n'. noted (\<lambda>r. [Renamed d n d' n' r]) (sys_renameAt sys d n d' n')),
      sys_unlinkAt = (\<lambda>d n f. noted (\<lambda>r. [Unlinked d n f r]) (sys_unlinkAt sys d n f))\<rparr>"

definition recorded :: "'w linuxStorage \<Rightarrow> ('w \<times> event list) linuxStorage" where
  "recorded s =
     \<lparr>rootPath = rootPath s, storage_layout = storage_layout s, effectiveUID = effectiveUID s,
      system = recorded_system (system s), random = (\<lambda>n. noted (\<lambda>_. []) (random s n)),
      room = room s, loop_fuel = loop_fuel s\<rparr>"

lemma recorded_fields [recorder]:
  "rootPath (recorded s) = rootPath s" "storage_layout (recorded s) = storage_layout s"
  "effectiveUID (recorded s) = effectiveUID s" "system (recorded s) = recorded_system (system s)"
  "random (recorded s) n = noted (\<lambda>_. []) (random s n)"
  "room (recorded s) = room s" "loop_fuel (recorded s) = loop_fuel s"
  by (simp_all add: recorded_def)

lemma recorded_calls [recorder]:
  "sys_validateMount (recorded_system sys) p = noted (\<lambda>_. []) (sys_validateMount sys p)"
  "sys_prepareDirectories (recorded_system sys) p l u = noted (\<lambda>_. []) (sys_prepareDirectories sys p l u)"
  "sys_openDirectory (recorded_system sys) p u = noted (\<lambda>_. []) (sys_openDirectory sys p u)"
  "sys_openDirectoryAt (recorded_system sys) d n u = noted (\<lambda>_. []) (sys_openDirectoryAt sys d n u)"
  "sys_openFileAt (recorded_system sys) d n f m =
     noted (\<lambda>r. [Opened d n f m r]) (sys_openFileAt sys d n f m)"
  "sys_fstat (recorded_system sys) d = noted (\<lambda>_. []) (sys_fstat sys d)"
  "sys_fchmod (recorded_system sys) d m = noted (\<lambda>r. [Chmodded d m r]) (sys_fchmod sys d m)"
  "sys_read (recorded_system sys) d k = noted (\<lambda>r. [Was_read d k r]) (sys_read sys d k)"
  "sys_write (recorded_system sys) d c = noted (\<lambda>(n, e). [Written d c n e]) (sys_write sys d c)"
  "sys_fsync (recorded_system sys) d = noted (\<lambda>r. [Synced d r]) (sys_fsync sys d)"
  "sys_close (recorded_system sys) d = noted (\<lambda>r. [Closed d r]) (sys_close sys d)"
  "sys_renameAt (recorded_system sys) d n d' n' =
     noted (\<lambda>r. [Renamed d n d' n' r]) (sys_renameAt sys d n d' n')"
  "sys_unlinkAt (recorded_system sys) d n fl =
     noted (\<lambda>r. [Unlinked d n fl r]) (sys_unlinkAt sys d n fl)"
  by (simp_all add: recorded_system_def)

section \<open>The notes of each part\<close>

text \<open>\<open>written fd ws\<close>: successful writes to \<open>fd\<close>; \<open>payload ws\<close> is what they put into the file.\<close>

definition written :: "int \<Rightarrow> (bytes \<times> int) list \<Rightarrow> event list" where
  "written fd ws = map (\<lambda>(c, n). Written fd c n None) ws"

definition payload :: "(bytes \<times> int) list \<Rightarrow> bytes" where
  "payload ws = concat (map (\<lambda>(c, n). take (nat n) c) ws)"

lemma written_simps [simp]:
  "written fd [] = []" "written fd ((c, n) # ws) = Written fd c n None # written fd ws"
  by (simp_all add: written_def)

lemma payload_simps [simp]:
  "payload [] = []" "payload ((c, n) # ws) = take (nat n) c @ payload ws"
  by (simp_all add: payload_def)

text \<open>
  Whatever the system answers, \<open>writeAll\<close> does nothing but write to its descriptor; when it
  succeeds, the accepted pieces together are the contents, however they were cut.
\<close>

lemma pieces_Cons:
  assumes "\<exists>ws. evs = written fd ws \<and> payload ws = c"
  shows "\<exists>ws. Written fd d n None # evs = written fd ws \<and> payload ws = take (nat n) d @ c"
proof -
  obtain ws where "evs = written fd ws" "payload ws = c" using assms by blast
  then have "Written fd d n None # evs = written fd ((d, n) # ws) \<and>
      payload ((d, n) # ws) = take (nat n) d @ c" by simp
  then show ?thesis by blast
qed

lemma writeAll_notes:
  assumes "run_state (writeAll (recorded_system sys) fuel fd contents) (w, es) = (r, (w', es'))"
  shows "\<exists>evs. es' = es @ evs \<and> (\<forall>x\<in>set evs. \<exists>c n e. x = Written fd c n e) \<and>
     (r = None \<longrightarrow> (\<exists>ws. evs = written fd ws \<and> payload ws = contents))"
  using assms
proof (induction sys fuel fd contents arbitrary: w es rule: writeAll.induct)
  case (1 sys fuel fd contents)
  obtain n e w1 where wr: "run_state (sys_write sys fd contents) w = ((n, e), w1)"
    by (metis surj_pair)
  let ?ev = "Written fd contents n e"
  let ?es = "es @ [?ev]"
  show ?case
  proof (cases "contents = []")
    case True
    with "1.prems" show ?thesis
      by (intro exI [of _ "[]"]) (auto simp: writeAll.simps intro: exI [of _ "[]"])
  next
    case ne: False
    note run = "1.prems" [unfolded writeAll.simps [of "recorded_system sys" fuel fd contents]]
    consider (stop) x where "r = Some x" "es' = ?es"
      | (more) "n \<le> int (length contents)" "e = None" "n \<noteq> 0" "0 < n"
          "run_state (writeAll (recorded_system sys) fuel fd (drop (nat n) contents)) (w1, ?es) = (r, (w', es'))"
      | (again) "n \<le> int (length contents)" "e = None" "n \<noteq> 0" "\<not> 0 < n" "fuel \<noteq> 0"
          "run_state (writeAll (recorded_system sys) (fuel - 1) fd contents) (w1, ?es) = (r, (w', es'))"
      using run ne wr by (auto simp: recorder split: if_splits)
    then show ?thesis
    proof cases
      case stop
      then show ?thesis by (intro exI [of _ "[?ev]"]) simp
    next
      case more
      from "1.IH"(1) [OF ne, of n e w1 ?es] more obtain evs where
        evs: "es' = ?es @ evs" "\<forall>x\<in>set evs. \<exists>c n e. x = Written fd c n e"
          "r = None \<longrightarrow> (\<exists>ws. evs = written fd ws \<and> payload ws = drop (nat n) contents)"
        by auto
      have "r = None \<Longrightarrow> \<exists>ws. ?ev # evs = written fd ws \<and> payload ws = contents"
        using evs(3) more(2) pieces_Cons [of evs fd "drop (nat n) contents" contents n] by auto
      with evs show ?thesis by (intro exI [of _ "?ev # evs"]) auto
    next
      case again
      from "1.IH"(2) [OF ne, of n e w1 ?es] again obtain evs where
        evs: "es' = ?es @ evs" "\<forall>x\<in>set evs. \<exists>c n e. x = Written fd c n e"
          "r = None \<longrightarrow> (\<exists>ws. evs = written fd ws \<and> payload ws = contents)"
        by auto
      have "r = None \<Longrightarrow> \<exists>ws. ?ev # evs = written fd ws \<and> payload ws = contents"
        using evs(3) again(2,4) pieces_Cons [of evs fd contents contents n] by auto
      with evs show ?thesis by (intro exI [of _ "?ev # evs"]) auto
    qed
  qed
qed

text \<open>
  \<open>createTemporary\<close> notes only its attempts, the last of which is the file it returns.
\<close>

lemma createTemporary_notes:
  assumes "run_state (createTemporary_loop (recorded s) dir k) (w, es) = (r, (w', es'))"
  shows "\<exists>ns. es' = es @ map (\<lambda>(n, e). Opened dir n temporary_flags secretMode (Inl e)) ns @
       (case r of Inl e \<Rightarrow> [] | Inr (tmp, fd) \<Rightarrow> [Opened dir tmp temporary_flags secretMode (Inr fd)])
     \<and> (\<forall>(n, e)\<in>set ns. \<exists>b. n = ''.tmp-'' @ hex_EncodeToString b)
     \<and> (\<forall>tmp fd. r = Inr (tmp, fd) \<longrightarrow>
          (\<forall>(n, e)\<in>set ns. err_is e ErrExist) \<and> (\<exists>b. tmp = ''.tmp-'' @ hex_EncodeToString b))"
  using assms
proof (induction k arbitrary: w es)
  case 0
  then show ?case by (intro exI [of _ "[]"]) auto
next
  case (Suc k)
  obtain x w1 where rnd: "run_state (random s temporaryRandomBytes) w = (x, w1)" by fastforce
  show ?case
  proof (cases x)
    case (Inl e)
    with Suc.prems rnd show ?thesis by (intro exI [of _ "[]"]) (auto simp: recorder)
  next
    case (Inr b)
    let ?n = "''.tmp-'' @ hex_EncodeToString b"
    obtain d w2 where op: "run_state (sys_openFileAt (system s) dir ?n temporary_flags secretMode) w1 = (d, w2)"
      by fastforce
    consider (ok) fd where "d = Inr fd" | (again) e where "d = Inl e" "err_is e ErrExist"
      | (stop) e where "d = Inl e" "\<not> err_is e ErrExist"
      by (cases d) auto
    then show ?thesis
    proof cases
      case ok
      with Suc.prems rnd Inr op show ?thesis
        by (intro exI [of _ "[]"]) (auto simp: recorder Let_def)
    next
      case stop
      with Suc.prems rnd Inr op show ?thesis
        by (intro exI [of _ "[(?n, e)]"]) (auto simp: recorder Let_def)
    next
      case again
      let ?ev = "Opened dir ?n temporary_flags secretMode (Inl e)"
      have "run_state (createTemporary_loop (recorded s) dir k) (w2, es @ [?ev]) = (r, (w', es'))"
        using Suc.prems rnd Inr op again by (simp add: recorder Let_def)
      from Suc.IH [OF this] obtain ns where
        "es' = (es @ [?ev]) @ map (\<lambda>(n, e). Opened dir n temporary_flags secretMode (Inl e)) ns @
           (case r of Inl e \<Rightarrow> [] | Inr (tmp, fd) \<Rightarrow> [Opened dir tmp temporary_flags secretMode (Inr fd)])"
        "\<forall>(n, e)\<in>set ns. \<exists>b. n = ''.tmp-'' @ hex_EncodeToString b"
        "\<forall>tmp fd. r = Inr (tmp, fd) \<longrightarrow>
          (\<forall>(n, e)\<in>set ns. err_is e ErrExist) \<and> (\<exists>b. tmp = ''.tmp-'' @ hex_EncodeToString b)"
        by blast
      with again(2) show ?thesis by (intro exI [of _ "(?n, e) # ns"]) auto
    qed
  qed
qed

section \<open>The protocol of a replacement\<close>

text \<open>A complete temporary file: permissions set, contents written, synced.\<close>

definition staged :: "int \<Rightarrow> bytes \<Rightarrow> event list \<Rightarrow> bool" where
  "staged fd contents evs \<longleftrightarrow>
     (\<exists>ws. evs = Chmodded fd secretMode None # written fd ws @ [Synced fd None] \<and> payload ws = contents)"

definition on_file :: "int \<Rightarrow> event list \<Rightarrow> bool" where
  "on_file fd evs \<longleftrightarrow> (\<forall>x\<in>set evs. (\<exists>m e. x = Chmodded fd m e) \<or> (\<exists>c n e. x = Written fd c n e)
     \<or> (\<exists>e. x = Synced fd e))"

definition temporary_name :: "string \<Rightarrow> bool" where
  "temporary_name n \<longleftrightarrow> (\<exists>b. n = ''.tmp-'' @ hex_EncodeToString b)"

definition attempts :: "int \<Rightarrow> event list \<Rightarrow> bool" where
  "attempts dir evs \<longleftrightarrow> (\<forall>x\<in>set evs. \<exists>n e. x = Opened dir n temporary_flags secretMode (Inl e)
     \<and> temporary_name n)"

abbreviation created :: "int \<Rightarrow> string \<Rightarrow> int \<Rightarrow> event" where
  "created dir tmp fd \<equiv> Opened dir tmp temporary_flags secretMode (Inr fd)"

text \<open>
  The runs a replacement may have, with their results: no temporary file; a file that was
  given up before it was complete, on closing it, or on renaming it, and removed; a file
  that took the place of the credential.
\<close>

inductive replacement :: "int \<Rightarrow> string \<Rightarrow> bytes \<Rightarrow> go_error option \<Rightarrow> event list \<Rightarrow> bool"
  for dir name contents where
  no_file: "attempts dir as \<Longrightarrow> replacement dir name contents (Some e) as"
| incomplete: "attempts dir as \<Longrightarrow> temporary_name tmp \<Longrightarrow> on_file fd evs \<Longrightarrow>
    replacement dir name contents (Some e)
      (as @ created dir tmp fd # evs @ [Closed fd c, Unlinked dir tmp 0 u])"
| unclosed: "attempts dir as \<Longrightarrow> temporary_name tmp \<Longrightarrow> staged fd contents evs \<Longrightarrow>
    replacement dir name contents (Some e)
      (as @ created dir tmp fd # evs @ [Closed fd (Some c), Unlinked dir tmp 0 u])"
| not_renamed: "attempts dir as \<Longrightarrow> temporary_name tmp \<Longrightarrow> staged fd contents evs \<Longrightarrow>
    replacement dir name contents (Some e)
      (as @ created dir tmp fd # evs @ [Closed fd None, Renamed dir tmp dir name (Some r), Unlinked dir tmp 0 u])"
| replaced: "attempts dir as \<Longrightarrow> temporary_name tmp \<Longrightarrow> staged fd contents evs \<Longrightarrow>
    replacement dir name contents res
      (as @ created dir tmp fd # evs @ [Closed fd None, Renamed dir tmp dir name None, Synced dir res])"

text \<open>The body, by the values it leaves in \<open>open\<close> and \<open>renamed\<close>.\<close>

lemma writeAtomic_body_notes:
  assumes "run_state (writeAtomic_body (recorded s) dir name tmp fd contents) (w, es) =
     ((res, opened, renamed), (w', es'))"
  shows "\<exists>evs. if opened then \<not> renamed \<and> res \<noteq> None \<and> on_file fd evs \<and> es' = es @ evs
     else staged fd contents evs \<and>
       (if renamed then es' = es @ evs @ [Closed fd None, Renamed dir tmp dir name None, Synced dir res]
        else res \<noteq> None \<and>
          ((\<exists>c. es' = es @ evs @ [Closed fd (Some c)])
           \<or> (\<exists>r. es' = es @ evs @ [Closed fd None, Renamed dir tmp dir name (Some r)])))"
proof -
  let ?sys = "recorded_system (system s)"
  obtain e1 w1 where c1: "run_state (sys_fchmod (system s) fd secretMode) w = (e1, w1)" by fastforce
  obtain e2 w2 es2 where c2: "run_state (writeAll ?sys (loop_fuel s) fd contents)
      (w1, es @ [Chmodded fd secretMode e1]) = (e2, (w2, es2))" by (metis surj_pair)
  obtain evs where evs: "es2 = (es @ [Chmodded fd secretMode e1]) @ evs"
      "\<forall>x\<in>set evs. \<exists>c n e. x = Written fd c n e"
      "e2 = None \<longrightarrow> (\<exists>ws. evs = written fd ws \<and> payload ws = contents)"
    using writeAll_notes [OF c2] by blast
  note run = assms [unfolded writeAtomic_body_def]
  show ?thesis
  proof (cases "e1 = None \<and> e2 = None")
    case False
    show ?thesis
    proof (cases "e1 = None")
      case True
      with False run c1 c2 evs show ?thesis
        by (intro exI [of _ "Chmodded fd secretMode e1 # evs"])
          (auto simp: recorder on_file_def)
    next
      case ne: False
      with run c1 show ?thesis
        by (intro exI [of _ "[Chmodded fd secretMode e1]"]) (auto simp: recorder on_file_def)
    qed
  next
    case True
    obtain e3 w3 where c3: "run_state (sys_fsync (system s) fd) w2 = (e3, w3)" by fastforce
    let ?evs = "Chmodded fd secretMode None # evs @ [Synced fd e3]"
    show ?thesis
    proof (cases e3)
      case (Some x)
      with True run c1 c2 evs c3 show ?thesis
        by (intro exI [of _ ?evs]) (auto simp: recorder on_file_def)
    next
      case None
      then have st: "staged fd contents ?evs" using True evs by (auto simp: staged_def)
      obtain e4 w4 where c4: "run_state (sys_close (system s) fd) w3 = (e4, w4)" by fastforce
      obtain e5 w5 where c5: "run_state (sys_renameAt (system s) dir tmp dir name) w4 = (e5, w5)"
        by fastforce
      obtain e6 w6 where c6: "run_state (sys_fsync (system s) dir) w5 = (e6, w6)" by fastforce
      from run True None c1 c2 evs c3 c4 c5 c6 st show ?thesis
        by (intro exI [of _ ?evs]) (auto simp: recorder split: if_splits)
    qed
  qed
qed

lemma attempts_map:
  "\<forall>(n, e)\<in>set ns. \<exists>b. n = ''.tmp-'' @ hex_EncodeToString b \<Longrightarrow>
     attempts dir (map (\<lambda>(n, e). Opened dir n temporary_flags secretMode (Inl e)) ns)"
  by (force simp: attempts_def temporary_name_def)

text \<open>\<open>writeAtomic\<close> keeps the protocol.\<close>

lemma writeAtomic_replacement:
  assumes "run_state (writeAtomic (recorded s) dir name contents) (w, es) = (res, (w', es'))"
  shows "\<exists>evs. es' = es @ evs \<and> replacement dir name contents res evs"
proof -
  obtain t w1 es1 where
    t: "run_state (createTemporary_loop (recorded s) dir temporaryCreateAttempts) (w, es) = (t, (w1, es1))"
    by (metis surj_pair)
  obtain ns where ns: "es1 = es @ map (\<lambda>(n, e). Opened dir n temporary_flags secretMode (Inl e)) ns @
       (case t of Inl e \<Rightarrow> [] | Inr (tmp, fd) \<Rightarrow> [created dir tmp fd])"
     "\<forall>(n, e)\<in>set ns. \<exists>b. n = ''.tmp-'' @ hex_EncodeToString b"
     "\<forall>tmp fd. t = Inr (tmp, fd) \<longrightarrow> (\<exists>b. tmp = ''.tmp-'' @ hex_EncodeToString b)"
    using createTemporary_notes [OF t] by blast
  let ?as = "map (\<lambda>(n, e). Opened dir n temporary_flags secretMode (Inl e)) ns"
  have as: "attempts dir ?as" using ns(2) by (rule attempts_map)
  note run = assms [unfolded writeAtomic_def createTemporary_def]
  show ?thesis
  proof (cases t)
    case (Inl e)
    with run t ns as show ?thesis by (auto intro: no_file)
  next
    case (Inr x)
    then obtain tmp fd where x: "t = Inr (tmp, fd)" by (cases x) auto
    with ns have tmp: "temporary_name tmp" and es1: "es1 = es @ ?as @ [created dir tmp fd]"
      by (auto simp: temporary_name_def)
    obtain r opened renamed w2 es2 where
      b: "run_state (writeAtomic_body (recorded s) dir name tmp fd contents) (w1, es1) =
        ((r, opened, renamed), (w2, es2))"
      by (metis surj_pair)
    obtain evs where evs: "if opened then \<not> renamed \<and> r \<noteq> None \<and> on_file fd evs \<and> es2 = es1 @ evs
       else staged fd contents evs \<and>
         (if renamed then es2 = es1 @ evs @ [Closed fd None, Renamed dir tmp dir name None, Synced dir r]
          else r \<noteq> None \<and>
            ((\<exists>c. es2 = es1 @ evs @ [Closed fd (Some c)])
             \<or> (\<exists>r. es2 = es1 @ evs @ [Closed fd None, Renamed dir tmp dir name (Some r)])))"
      using writeAtomic_body_notes [OF b] by blast
    have def_run: "run_state (writeAtomic_deferred (recorded s) dir tmp fd r opened renamed) (w2, es2) = (res, (w', es'))"
      using run t x b by simp
    consider (a) "opened" "\<not> renamed" "r \<noteq> None" "on_file fd evs" "es2 = es1 @ evs"
      | (b) c where "\<not> opened" "\<not> renamed" "r \<noteq> None" "staged fd contents evs"
          "es2 = es1 @ evs @ [Closed fd (Some c)]"
      | (c) y where "\<not> opened" "\<not> renamed" "r \<noteq> None" "staged fd contents evs"
          "es2 = es1 @ evs @ [Closed fd None, Renamed dir tmp dir name (Some y)]"
      | (d) "\<not> opened" "renamed" "staged fd contents evs"
          "es2 = es1 @ evs @ [Closed fd None, Renamed dir tmp dir name None, Synced dir r]"
      using evs by (auto split: if_splits)
    then show ?thesis
    proof cases
      case a
      obtain c1 c2 where "es' = es2 @ [Closed fd c1, Unlinked dir tmp 0 c2]" "res \<noteq> None"
        using def_run a by (auto simp: writeAtomic_deferred_def recorder split: if_splits)
      with a as tmp es1 show ?thesis
        by (auto intro!: exI [of _ "?as @ created dir tmp fd # evs @ [Closed fd c1, Unlinked dir tmp 0 c2]"]
            incomplete)
    next
      case b
      obtain c2 where "es' = es2 @ [Unlinked dir tmp 0 c2]" "res \<noteq> None"
        using def_run b by (auto simp: writeAtomic_deferred_def recorder split: if_splits)
      with b as tmp es1 show ?thesis
        by (auto intro!: exI [of _ "?as @ created dir tmp fd # evs @ [Closed fd (Some c), Unlinked dir tmp 0 c2]"]
            unclosed)
    next
      case c
      obtain c2 where "es' = es2 @ [Unlinked dir tmp 0 c2]" "res \<noteq> None"
        using def_run c by (auto simp: writeAtomic_deferred_def recorder split: if_splits)
      with c as tmp es1 show ?thesis
        by (auto intro!: exI [of _ "?as @ created dir tmp fd # evs @
            [Closed fd None, Renamed dir tmp dir name (Some y), Unlinked dir tmp 0 c2]"] not_renamed)
    next
      case d
      have "es' = es2" "res = r"
        using def_run d by (auto simp: writeAtomic_deferred_def)
      with d as tmp es1 show ?thesis
        by (auto intro!: exI [of _ "?as @ created dir tmp fd # evs @
            [Closed fd None, Renamed dir tmp dir name None, Synced dir r]"] replaced)
    qed
  qed
qed

section \<open>What the calls do to a directory\<close>

text \<open>
  A directory seen from outside: names lead to inodes, inodes have contents, descriptors
  refer to inodes. The effect of a call is that of its success; a failed call does nothing
  (a failed write what its count says). A new file is written from its start, so a write to a
  descriptor of it appends. Descriptors of other directories are not tracked.
\<close>

record disk =
  names :: "string \<rightharpoonup> nat"
  inodes :: "nat \<Rightarrow> bytes"
  handles :: "int \<rightharpoonup> nat"
  next_inode :: nat

fun effect :: "int \<Rightarrow> event \<Rightarrow> disk \<Rightarrow> disk" where
  "effect dir (Opened d n fl m (Inr fd)) k =
     (if d \<noteq> dir then k\<lparr>handles := (handles k)(fd := None)\<rparr>
      else if O_EXCL \<in> set fl \<or> O_CREAT \<in> set fl \<and> names k n = None
      then k\<lparr>names := (names k)(n \<mapsto> next_inode k), inodes := (inodes k)(next_inode k := []),
             handles := (handles k)(fd \<mapsto> next_inode k), next_inode := Suc (next_inode k)\<rparr>
      else k\<lparr>handles := (handles k)(fd := names k n)\<rparr>)"
| "effect dir (Written fd c n e) k =
     (case handles k fd of None \<Rightarrow> k
      | Some i \<Rightarrow> k\<lparr>inodes := (inodes k)(i := inodes k i @ take (nat n) c)\<rparr>)"
| "effect dir (Closed fd e) k = k\<lparr>handles := (handles k)(fd := None)\<rparr>"
| "effect dir (Renamed d n d' n' None) k =
     (if d = dir \<and> d' = dir then k\<lparr>names := (names k)(n' := names k n, n := None)\<rparr> else k)"
| "effect dir (Unlinked d n f None) k =
     (if d = dir then k\<lparr>names := (names k)(n := None)\<rparr> else k)"
| "effect dir _ k = k"

definition view :: "disk \<Rightarrow> string \<rightharpoonup> bytes" where
  "view k n = map_option (inodes k) (names k n)"

text \<open>The directory after the noted calls, and every state it goes through.\<close>

definition replay :: "int \<Rightarrow> event list \<Rightarrow> disk \<Rightarrow> disk" where
  "replay dir es k = fold (effect dir) es k"

fun moments :: "int \<Rightarrow> event list \<Rightarrow> disk \<Rightarrow> disk list" where
  "moments dir [] k = [k]"
| "moments dir (e # es) k = k # moments dir es (effect dir e k)"

lemma replay_simps [simp]:
  "replay dir [] k = k" "replay dir (e # es) k = replay dir es (effect dir e k)"
  "replay dir (es @ es') k = replay dir es' (replay dir es k)"
  by (simp_all add: replay_def)

lemma moments_last: "replay dir es k \<in> set (moments dir es k)"
  by (induction es arbitrary: k) auto

lemma moments_append:
  "set (moments dir (es @ es') k) = set (moments dir es k) \<union> set (moments dir es' (replay dir es k))"
proof (induction es arbitrary: k)
  case Nil
  then show ?case by (cases es') auto
qed auto

text \<open>Calls without effect on what names show.\<close>

definition quiet :: "event \<Rightarrow> bool" where
  "quiet x \<longleftrightarrow> (\<exists>fd e. x = Closed fd e) \<or> (\<exists>d n r. x = Opened d n credential_flags 0 r)
     \<or> (\<exists>d n m e. x = Opened d n temporary_flags m (Inl e)) \<or> (\<exists>d n f e. x = Unlinked d n f (Some e))
     \<or> (\<exists>d l r. x = Was_read d l r) \<or> (\<exists>d e. x = Synced d e)"

definition same_files :: "disk \<Rightarrow> disk \<Rightarrow> bool" where
  "same_files k k' \<longleftrightarrow> names k' = names k \<and> inodes k' = inodes k \<and> next_inode k' = next_inode k"

lemma same_files_view: "same_files k k' \<Longrightarrow> view k' = view k"
  by (auto simp: same_files_def view_def)

lemma same_files_trans: "same_files a b \<Longrightarrow> same_files b c \<Longrightarrow> same_files a c"
  by (simp add: same_files_def)

lemma quiet_effect:
  fixes x :: event
  shows "quiet x \<Longrightarrow> same_files k (effect dir x k)"
proof -
  have "O_EXCL \<notin> set credential_flags" "O_CREAT \<notin> set credential_flags"
    by (simp_all add: credential_flags_def)
  moreover assume "quiet x"
  ultimately show ?thesis
    by (cases "(dir, x, k)" rule: effect.cases) (auto simp: quiet_def same_files_def)
qed

definition steady :: "int \<Rightarrow> event \<Rightarrow> bool" where
  "steady dir x \<longleftrightarrow> (\<forall>k. same_files k (effect dir x k))"

lemma quiet_steady: "quiet x \<Longrightarrow> steady dir x"
  by (simp add: steady_def quiet_effect)

lemma steady_elsewhere:
  "d \<noteq> dir \<Longrightarrow> steady dir (Unlinked d n f u)" "d \<noteq> dir \<Longrightarrow> steady dir (Renamed d n d' n' r)"
  "steady dir (Closed fd e)" "steady dir (Synced fd e)"
  by (cases u; simp add: steady_def same_files_def) (cases r; simp add: steady_def same_files_def)+

lemma steady_moments:
  "\<forall>x\<in>set es. steady dir x \<Longrightarrow> k' \<in> set (moments dir es k) \<Longrightarrow> same_files k k'"
proof (induction es arbitrary: k)
  case Nil
  then show ?case by (simp add: same_files_def)
next
  case (Cons e es)
  have "same_files k (effect dir e k)" using Cons.prems(1) by (simp add: steady_def)
  then show ?case
    using Cons.IH [of "effect dir e k"] Cons.prems by (auto intro: same_files_trans simp: same_files_def)
qed

lemma steady_replay: "\<forall>x\<in>set es. steady dir x \<Longrightarrow> same_files k (replay dir es k)"
  using steady_moments moments_last by blast

text \<open>
  While the temporary file is being written the directory differs from the one before by
  that name and a fresh inode.
\<close>

definition pending :: "disk \<Rightarrow> string \<Rightarrow> int \<Rightarrow> disk \<Rightarrow> bool" where
  "pending k tmp fd k' \<longleftrightarrow> names k' = (names k)(tmp \<mapsto> next_inode k)
     \<and> handles k' fd = Some (next_inode k) \<and> (\<forall>j. j \<noteq> next_inode k \<longrightarrow> inodes k' j = inodes k j)"

lemma on_file_Cons: "on_file fd (x # xs) \<Longrightarrow> on_file fd xs"
  by (simp add: on_file_def)

lemma pending_effect:
  assumes "pending k tmp fd k'" and "on_file fd [x]"
  shows "pending k tmp fd (effect dir x k')"
  using assms by (auto simp: on_file_def pending_def)

lemma pending_moments:
  assumes "on_file fd evs" and "pending k tmp fd k'"
  shows "\<forall>m\<in>set (moments dir evs k'). pending k tmp fd m"
  using assms
proof (induction evs arbitrary: k')
  case (Cons x evs)
  then have "pending k tmp fd (effect dir x k')"
    by (intro pending_effect) (simp_all add: on_file_def)
  with Cons show ?case by (auto dest: on_file_Cons)
qed simp

text \<open>In the view of another directory nothing happens at all.\<close>

lemma elsewhere_moments:
  assumes "on_file fd evs" and "handles k fd = None"
  shows "\<forall>m\<in>set (moments dir evs k). m = k"
  using assms
proof (induction evs)
  case (Cons x evs)
  then have "effect dir x k = k" by (auto simp: on_file_def)
  with Cons show ?case by (auto dest: on_file_Cons)
qed simp

lemma written_replay:
  assumes "handles k fd = Some i"
  shows "inodes (replay dir (written fd ws) k) i = inodes k i @ payload ws"
  using assms
proof (induction ws arbitrary: k)
  case (Cons w ws)
  then show ?case by (cases w) simp
qed simp

lemma staged_on_file: "staged fd c evs \<Longrightarrow> on_file fd evs"
  by (auto simp: staged_def on_file_def written_def)

lemma staged_replay:
  assumes "staged fd c evs" "handles k fd = Some i" "inodes k i = []"
  shows "inodes (replay dir evs k) i = c"
  using assms by (auto simp: staged_def written_replay)

definition fresh_disk :: "disk \<Rightarrow> bool" where
  "fresh_disk k \<longleftrightarrow> (\<forall>n i. names k n = Some i \<longrightarrow> i < next_inode k)"

definition shadow :: "disk \<Rightarrow> string \<Rightarrow> disk \<Rightarrow> bool" where
  "shadow k tmp k' \<longleftrightarrow> (\<forall>n. n \<noteq> tmp \<longrightarrow> names k' n = names k n)
     \<and> (\<forall>j. j \<noteq> next_inode k \<longrightarrow> inodes k' j = inodes k j)"

lemma shadow_view:
  "fresh_disk k \<Longrightarrow> shadow k tmp k' \<Longrightarrow> n \<noteq> tmp \<Longrightarrow> view k' n = view k n"
  by (cases "names k n") (auto simp: fresh_disk_def shadow_def view_def less_imp_neq)

lemma pending_shadow: "pending k tmp fd k' \<Longrightarrow> shadow k tmp k'"
  by (simp add: pending_def shadow_def)

lemma shadow_Unlinked: "shadow k tmp k' \<Longrightarrow> shadow k tmp (effect dir (Unlinked d tmp f u) k')"
  by (cases u) (auto simp: shadow_def)

lemma created_pending:
  "pending k tmp fd (effect dir (created dir tmp fd) k)"
  "handles (effect dir (created dir tmp fd) k) fd = Some (next_inode k)"
  "inodes (effect dir (created dir tmp fd) k) (next_inode k) = []"
  by (simp_all add: pending_def temporary_flags_def)

lemma attempts_moments: "attempts d es \<Longrightarrow> k' \<in> set (moments dir es k) \<Longrightarrow> k' = k"
proof (induction es arbitrary: k)
  case (Cons e es)
  then have "effect dir e k = k" by (auto simp: attempts_def)
  with Cons show ?case by (auto simp: attempts_def)
qed simp

lemma attempts_replay: "attempts d es \<Longrightarrow> replay dir es k = k"
  using attempts_moments moments_last by blast

text \<open>
  The states of a directory during a replacement in directory \<open>d\<close>. Seen from another
  directory all show the same files.
\<close>

lemma replacement_elsewhere:
  assumes "replacement d name c res es" and "d \<noteq> dir" and "k' \<in> set (moments dir es k)"
  shows "same_files k k'"
proof -
  have shape: "same_files k k'" if "attempts d as" "on_file fd evs" "\<forall>x\<in>set tail. steady dir x"
      "es = as @ created d tmp fd # evs @ tail" for as fd evs tail tmp
  proof -
    let ?kc = "k\<lparr>handles := (handles k)(fd := None)\<rparr>"
    have "\<forall>m\<in>set (moments dir evs ?kc). m = ?kc"
      using elsewhere_moments [OF that(2), of ?kc dir] by simp
    then have "k' = k \<or> k' = ?kc \<or> k' \<in> set (moments dir tail ?kc)"
      using that assms(2,3) moments_last [of dir evs ?kc]
      by (auto simp: moments_append attempts_replay dest: attempts_moments)
    moreover have "same_files k ?kc" by (simp add: same_files_def)
    ultimately show ?thesis
      using steady_moments [OF that(3)] same_files_trans by (auto simp: same_files_def)
  qed
  from assms(1) show ?thesis
  proof cases
    case no_file
    then show ?thesis using assms(3) attempts_moments by (metis same_files_def)
  next
    case incomplete
    then show ?thesis using shape [OF _ _ _ incomplete(2)] assms(2) by (simp add: steady_elsewhere)
  next
    case unclosed
    then show ?thesis using shape [OF _ staged_on_file _ unclosed(2)] assms(2)
      by (simp add: steady_elsewhere)
  next
    case not_renamed
    then show ?thesis using shape [OF _ staged_on_file _ not_renamed(2)] assms(2)
      by (simp add: steady_elsewhere)
  next
    case replaced
    then show ?thesis using shape [OF _ staged_on_file _ replaced(1)] assms(2)
      by (simp add: steady_elsewhere)
  qed
qed

text \<open>
  Seen from \<open>d\<close> they differ in the temporary name only, until a successful rename, which
  gives the name the whole new contents at once.
\<close>

lemma shadow_refl [simp]: "shadow k tmp k" by (simp add: shadow_def)

lemma pending_shape:
  assumes "attempts dir as" "on_file fd evs"
    and "k' \<in> set (moments dir (as @ created dir tmp fd # evs @ tail) k)"
  shows "shadow k tmp k' \<or> k' \<in> set (moments dir tail (replay dir (as @ created dir tmp fd # evs) k))"
proof -
  have "\<forall>m\<in>set (moments dir evs (effect dir (created dir tmp fd) k)). pending k tmp fd m"
    using assms(2) created_pending(1) by (rule pending_moments)
  then show ?thesis
    using assms pending_shadow by (auto simp: moments_append attempts_replay dest: attempts_moments)
qed

lemma pending_end:
  assumes "attempts dir as" "on_file fd evs"
  shows "pending k tmp fd (replay dir (as @ created dir tmp fd # evs) k)"
  using pending_moments [OF assms(2) created_pending(1)] moments_last assms(1)
  by (fastforce simp: attempts_replay)

lemma staged_end:
  assumes "attempts dir as" "staged fd c evs"
  shows "inodes (replay dir (as @ created dir tmp fd # evs) k) (next_inode k) = c"
  using assms staged_replay [OF assms(2) created_pending(2,3)] by (simp add: attempts_replay)

definition swapped :: "disk \<Rightarrow> string \<Rightarrow> string \<Rightarrow> bytes \<Rightarrow> disk \<Rightarrow> bool" where
  "swapped k tmp name c k' \<longleftrightarrow> names k' = (names k)(name \<mapsto> next_inode k, tmp := None)
     \<and> inodes k' (next_inode k) = c \<and> (\<forall>j. j \<noteq> next_inode k \<longrightarrow> inodes k' j = inodes k j)"

lemma swapped_view:
  "fresh_disk k \<Longrightarrow> swapped k tmp name c k' \<Longrightarrow> n \<noteq> tmp \<Longrightarrow>
     view k' n = ((view k)(name \<mapsto> c)) n"
  by (cases "names k n") (auto simp: fresh_disk_def swapped_def view_def less_imp_neq)

lemma rename_swaps:
  assumes "pending k tmp fd k'" "inodes k' (next_inode k) = c" "tmp \<noteq> name"
  shows "swapped k tmp name c (effect dir (Renamed dir tmp dir name None) (effect dir (Closed fd e) k'))"
  using assms by (auto simp: pending_def swapped_def)

definition shadowing :: "string \<Rightarrow> event \<Rightarrow> bool" where
  "shadowing tmp x \<longleftrightarrow> (\<forall>dir k k'. shadow k tmp k' \<longrightarrow> shadow k tmp (effect dir x k'))"

lemma shadowing_events [simp]:
  "shadowing tmp (Closed fd e)" "shadowing tmp (Synced fd e)" "shadowing tmp (Unlinked d tmp f u)"
  "shadowing tmp (Renamed d n d' n' (Some r))"
  using shadow_Unlinked by (auto simp: shadowing_def shadow_def)

lemma shadowing_moments:
  "\<forall>x\<in>set es. shadowing tmp x \<Longrightarrow> shadow k tmp k0 \<Longrightarrow> k' \<in> set (moments dir es k0) \<Longrightarrow> shadow k tmp k'"
proof (induction es arbitrary: k0)
  case (Cons x es)
  then have "shadow k tmp (effect dir x k0)" by (simp add: shadowing_def)
  with Cons show ?case by auto
qed simp

lemma replacement_moments:
  assumes "replacement dir name c res es" and "k' \<in> set (moments dir es k)"
    and "\<not> temporary_name name"
  shows "\<exists>tmp. temporary_name tmp \<and> (shadow k tmp k' \<or> swapped k tmp name c k')"
proof -
  have shape: "shadow k tmp k'" if "attempts dir as" "on_file fd evs"
      "\<forall>x\<in>set tail. shadowing tmp x" "es = as @ created dir tmp fd # evs @ tail" for as tmp fd evs tail
    using pending_shape [OF that(1,2)] assms(2) [unfolded that(4)]
      shadowing_moments [OF that(3) pending_shadow [OF pending_end [OF that(1,2)]]] by blast
  from assms(1) show ?thesis
  proof cases
    case no_file
    then have "shadow k (''.tmp-'' @ hex_EncodeToString []) k'"
      using assms(2) attempts_moments shadow_refl by metis
    then show ?thesis unfolding temporary_name_def by blast
  next
    case incomplete
    then show ?thesis using shape [OF _ _ _ incomplete(2)] by auto
  next
    case unclosed
    then show ?thesis using shape [OF _ staged_on_file _ unclosed(2)] by auto
  next
    case not_renamed
    then show ?thesis using shape [OF _ staged_on_file _ not_renamed(2)] by auto
  next
    case (replaced as tmp fd evs)
    let ?k = "replay dir (as @ created dir tmp fd # evs) k"
    have "pending k tmp fd ?k" using replaced by (intro pending_end staged_on_file)
    moreover have "inodes ?k (next_inode k) = c" using replaced by (intro staged_end)
    moreover have "tmp \<noteq> name" using replaced(3) assms(3) by auto
    ultimately have sw: "swapped k tmp name c
        (effect dir (Renamed dir tmp dir name None) (effect dir (Closed fd None) ?k))"
      by (rule rename_swaps)
    have sh: "shadow k tmp ?k" "shadow k tmp (effect dir (Closed fd None) ?k)"
      using pending_shadow [OF \<open>pending k tmp fd ?k\<close>] by (simp_all add: shadow_def)
    have "shadow k tmp k' \<or> k' \<in> set (moments dir [Closed fd None, Renamed dir tmp dir name None, Synced dir res] ?k)"
      using pending_shape [OF replaced(2) staged_on_file [OF replaced(4)]] assms(2) [unfolded replaced(1)]
      by blast
    with sw sh have "shadow k tmp k' \<or> swapped k tmp name c k'" by fastforce
    with replaced(3) show ?thesis by blast
  qed
qed

lemma replacement_success:
  assumes "replacement dir name c None es" and "\<not> temporary_name name"
  shows "\<exists>tmp. temporary_name tmp \<and> swapped k tmp name c (replay dir es k)"
  using assms(1)
proof cases
  case (replaced as tmp fd evs)
  have "tmp \<noteq> name" using replaced(3) assms(2) by auto
  with replaced have "swapped k tmp name c (effect dir (Renamed dir tmp dir name None)
      (effect dir (Closed fd None) (replay dir (as @ created dir tmp fd # evs) k)))"
    by (intro rename_swaps pending_end staged_end staged_on_file)
  with replaced(1,3) show ?thesis by (auto simp: attempts_replay)
qed

section \<open>The notes of Set\<close>

lemma run_defer_close:
  "run_state (defer_close close fd m) w =
     (fst (run_state m w), snd (run_state (close fd) (snd (run_state m w))))"
  by (simp add: defer_close_def split: prod.splits)

fun is_close :: "event \<Rightarrow> bool" where
  "is_close (Closed fd e) = True"
| "is_close x = False"

lemma close_quiet: "list_all is_close q \<Longrightarrow> \<forall>x\<in>set q. quiet x"
proof (induction q)
  case (Cons x q)
  then show ?case by (cases x) (simp_all add: quiet_def)
qed simp

lemma openServiceDirectory_closes:
  assumes "run_state (openServiceDirectory (recorded s) create) (w, es) = (r, (w', es'))"
  shows "run_state (openServiceDirectory s create) w = (r, w')
     \<and> (\<exists>q. es' = es @ q \<and> (list_all is_close q))"
proof -
  obtain v w1 where v: "run_state (sys_validateMount (system s) (rootPath s)) w = (v, w1)" by fastforce
  show ?thesis
  proof (cases v)
    case (Some e)
    with v assms show ?thesis by (auto simp: openServiceDirectory_def recorder)
  next
    case None
    obtain p w2 where p: "run_state (if create then sys_prepareDirectories (system s) (rootPath s)
      (storage_layout s) (effectiveUID s) else ret None) w1 = (p, w2)" by (metis surj_pair)
    show ?thesis
    proof (cases p)
      case (Some e)
      with None v p assms show ?thesis
        by (auto simp: openServiceDirectory_def recorder split: if_splits)
    next
      case p_None: None
      obtain r1 w3 where r1: "run_state (sys_openDirectory (system s) (rootPath s) (effectiveUID s)) w2 = (r1, w3)"
        by fastforce
      show ?thesis
      proof (cases r1)
        case (Inl e)
        with None p_None v p r1 assms show ?thesis
          by (auto simp: openServiceDirectory_def recorder split: if_splits)
      next
        case (Inr root)
        obtain r2 w4 where r2: "run_state (sys_openDirectoryAt (system s) root layoutVersion (effectiveUID s)) w3 = (r2, w4)"
          by fastforce
        with None p_None v p r1 Inr assms show ?thesis
          by (cases r2; cases create)
            (auto simp: openServiceDirectory_def recorder run_defer_close)
      qed
    qed
  qed
qed

lemma openServiceDirectory_recorded:
  assumes "run_state (openServiceDirectory (recorded s) create) (w, es) = (r, (w', es'))"
  shows "run_state (openServiceDirectory s create) w = (r, w')
     \<and> (\<exists>q. es' = es @ q \<and> (\<forall>x\<in>set q. quiet x))"
  using openServiceDirectory_closes [OF assms] close_quiet by blast

lemma validateExistingCredential_recorded:
  assumes "run_state (validateExistingCredential (recorded s) dir name) (w, es) = (r, (w', es'))"
  shows "\<exists>q. es' = es @ q \<and> (\<forall>x\<in>set q. quiet x)"
proof -
  obtain d w1 where d: "run_state (sys_openFileAt (system s) dir name credential_flags 0) w = (d, w1)"
    by fastforce
  show ?thesis
  proof (cases d)
    case (Inl e)
    with d assms show ?thesis
      by (auto simp: validateExistingCredential_def openCredential_def recorder quiet_def)
  next
    case (Inr fd)
    obtain st w2 where st: "run_state (sys_fstat (system s) fd) w1 = (st, w2)" by fastforce
    obtain v where v: "run_state (validateCredential (recorded s) fd) (w1, es0) = (v, (w2, es0))" for es0
      using st by (auto simp: validateCredential_def recorder)
    from Inr d st v assms show ?thesis
      by (cases v) (auto simp: validateExistingCredential_def openCredential_def recorder quiet_def)
  qed
qed

lemma linux_set_notes:
  assumes "run_state (linux_set (recorded s) key contents) (w, es) = (res, (w', es'))"
  shows "\<exists>pre mid post. es' = es @ pre @ mid @ post
     \<and> (\<forall>x\<in>set pre. quiet x) \<and> (\<forall>x\<in>set post. quiet x)
     \<and> (mid = [] \<and> res \<noteq> None
        \<or> (\<exists>dir r. fst (run_state (openServiceDirectory s True) w) = Inr dir
             \<and> replacement dir (fs_identifier keyDomain key) contents r mid \<and> (res = None \<longleftrightarrow> r = None)))"
proof -
  let ?name = "fs_identifier keyDomain key"
  obtain d w1 es1 where d: "run_state (openServiceDirectory (recorded s) True) (w, es) = (d, (w1, es1))"
    by (metis surj_pair)
  from openServiceDirectory_recorded [OF d] obtain q1 where
    d': "run_state (openServiceDirectory s True) w = (d, w1)" and
    q1: "es1 = es @ q1" "\<forall>x\<in>set q1. quiet x" by blast
  show ?thesis
  proof (cases d)
    case (Inl e)
    with assms d q1 show ?thesis
      by (intro exI [of _ q1] exI [of _ "[]"]) (auto simp: linux_set_def)
  next
    case (Inr dir)
    obtain v w2 es2 where
      v: "run_state (validateExistingCredential (recorded s) dir ?name) (w1, es1) = (v, (w2, es2))"
      by (metis surj_pair)
    from validateExistingCredential_recorded [OF v] obtain q2 where
      q2: "es2 = es1 @ q2" "\<forall>x\<in>set q2. quiet x" by blast
    let ?pre = "q1 @ q2"
    show ?thesis
    proof (cases v)
      case (Some e)
      have "res \<noteq> None \<and> (\<exists>c. es' = es @ ?pre @ [Closed dir c])"
        using assms by (auto simp: linux_set_def run_defer_close Let_def recorder
            d [unfolded Inr q1(1)] v [unfolded Some q1(1) q2(1)])
      then obtain c where c: "res \<noteq> None" "es' = es @ ?pre @ [] @ [Closed dir c]" by auto
      have "\<forall>x\<in>set ?pre. quiet x" "\<forall>x\<in>set [Closed dir c]. quiet x"
        using q1(2) q2(2) by (auto simp: quiet_def)
      with c show ?thesis by blast
    next
      case None
      obtain r w3 es3 where
        r: "run_state (writeAtomic (recorded s) dir ?name contents) (w2, es2) = (r, (w3, es3))"
        by (metis surj_pair)
      from writeAtomic_replacement [OF r] obtain mid where
        mid: "es3 = es2 @ mid" "replacement dir ?name contents r mid" by blast
      have "res = operationError ''set credential'' False r \<and> (\<exists>c. es' = es @ ?pre @ mid @ [Closed dir c])"
        using assms by (auto simp: linux_set_def run_defer_close Let_def recorder
            d [unfolded Inr q1(1)] v [unfolded None q1(1) q2(1) append_assoc]
            r [unfolded q1(1) q2(1) mid(1) append_assoc])
      then obtain c where c: "res = None \<longleftrightarrow> r = None" "es' = es @ ?pre @ mid @ [Closed dir c]" by auto
      have "\<forall>x\<in>set ?pre. quiet x" "\<forall>x\<in>set [Closed dir c]. quiet x"
        using q1(2) q2(2) by (auto simp: quiet_def)
      moreover have "fst (run_state (openServiceDirectory s True) w) = Inr dir" using d' Inr by simp
      ultimately show ?thesis using c mid(2) by blast
    qed
  qed
qed

lemma identifier_not_temporary: "\<not> temporary_name (fs_identifier d v)"
proof
  assume "temporary_name (fs_identifier d v)"
  then have "CHR 0x2E \<in> set (fs_identifier d v)" by (auto simp: temporary_name_def)
  moreover have "CHR 0x2E \<notin> set (fs_identifier d v)" by (rule identifier_no_char) simp
  ultimately show False by contradiction
qed

lemma view_shadow_or_swap:
  assumes "fresh_disk k" "temporary_name tmp" "shadow k tmp k' \<or> swapped k tmp name c k'" "\<not> temporary_name n"
  shows "view k' n = view k n \<or> n = name \<and> view k' n = Some c"
  using assms shadow_view swapped_view by (metis fun_upd_apply)

text \<open>Unpacking \<open>moments\<close> around a replacement.\<close>

lemma quiet_moments:
  "\<forall>x\<in>set es. quiet x \<Longrightarrow> k' \<in> set (moments dir es k) \<Longrightarrow> same_files k k'"
  using steady_moments quiet_steady by blast

lemma fresh_same: "same_files k k' \<Longrightarrow> fresh_disk k \<Longrightarrow> fresh_disk k'"
  by (simp add: fresh_disk_def same_files_def)

lemma replacement_view:
  assumes "replacement d name c res es" "\<not> temporary_name name" "fresh_disk k"
    "k' \<in> set (moments dir es k)" "\<not> temporary_name n"
  shows "view k' n = view k n \<or> n = name \<and> view k' n = Some c"
proof (cases "d = dir")
  case True
  with replacement_moments [OF _ assms(4,2)] assms(1) view_shadow_or_swap [OF assms(3) _ _ assms(5)]
  show ?thesis by metis
next
  case False
  then show ?thesis using replacement_elsewhere [OF assms(1) _ assms(4)] same_files_view by metis
qed

section \<open>Properties\<close>

text \<open>C3 A credential is replaced atomically, whatever fails: at every moment of \<open>Set\<close>, in every
  directory, every name except temporary ones shows what it showed before, or it is the
  credential's name and shows the whole new value. A concurrent reader or a crash between two
  calls never meets a part of a value, an empty file, or a change to another credential. The
  system may fail anywhere and accept writes in any portions.\<close>

theorem linux_set_atomic:
  assumes "run_state (linux_set (recorded s) key contents) (w, []) = (res, (w', es))"
    and "fresh_disk k" and "k' \<in> set (moments dir es k)" and "\<not> temporary_name n"
  shows "view k' n = view k n \<or> n = fs_identifier keyDomain key \<and> view k' n = Some contents"
proof -
  let ?name = "fs_identifier keyDomain key"
  obtain pre mid post where
    es: "es = pre @ mid @ post" and q: "\<forall>x\<in>set pre. quiet x" "\<forall>x\<in>set post. quiet x"
    and mid: "mid = [] \<or> (\<exists>d r. replacement d ?name contents r mid)"
    using linux_set_notes [OF assms(1)] unfolding append_Nil by blast
  let ?k1 = "replay dir pre k" let ?k2 = "replay dir mid ?k1"
  have k1: "view ?k1 = view k" "fresh_disk ?k1"
    using quiet_moments [OF q(1) moments_last] same_files_view fresh_same assms(2) by blast+
  have m: "view m n = view k n \<or> n = ?name \<and> view m n = Some contents"
    if "m \<in> set (moments dir mid ?k1)" for m
    using mid
  proof
    assume "mid = []"
    then show ?thesis using that k1(1) by simp
  next
    assume "\<exists>d r. replacement d ?name contents r mid"
    then show ?thesis
      using replacement_view [OF _ identifier_not_temporary k1(2) that assms(4)] k1(1) by metis
  qed
  consider "k' \<in> set (moments dir pre k)" | "k' \<in> set (moments dir mid ?k1)"
    | "k' \<in> set (moments dir post ?k2)"
    using assms(3) by (auto simp: es moments_append)
  then show ?thesis
  proof cases
    case 1
    then show ?thesis using quiet_moments [OF q(1)] same_files_view by metis
  next
    case 3
    then have "view k' = view ?k2" using quiet_moments [OF q(2)] same_files_view by blast
    then show ?thesis using m moments_last by metis
  qed (rule m)
qed

text \<open>C4 Success is durable: when \<open>Set\<close> returns no error, the temporary file was created exclusively
  with mode 0600 and chmodded to it, the accepted writes together are the value, the file was
  synced and closed, only then renamed to the credential's name in the same directory, and
  that directory synced; replaying the calls, the directory shows the value under the
  credential's name and is otherwise unchanged.\<close>

theorem linux_set_durable:
  assumes "run_state (linux_set (recorded s) key contents) (w, []) = (None, (w', es))"
    and "fresh_disk k"
  shows "\<exists>dir tmp fd ws pre post.
     fst (run_state (openServiceDirectory s True) w) = Inr dir
     \<and> es = pre @ [Opened dir tmp temporary_flags secretMode (Inr fd), Chmodded fd secretMode None]
          @ written fd ws @ [Synced fd None, Closed fd None,
             Renamed dir tmp dir (fs_identifier keyDomain key) None, Synced dir None] @ post
     \<and> payload ws = contents \<and> {O_CREAT, O_EXCL, O_NOFOLLOW} \<subseteq> set temporary_flags
     \<and> (\<forall>n. \<not> temporary_name n \<longrightarrow>
          view (replay dir es k) n = ((view k)(fs_identifier keyDomain key \<mapsto> contents)) n)"
proof -
  let ?name = "fs_identifier keyDomain key"
  from linux_set_notes [OF assms(1)] obtain pre mid post dir where
    es: "es = pre @ mid @ post" and q: "\<forall>x\<in>set pre. quiet x" "\<forall>x\<in>set post. quiet x"
    and dir: "fst (run_state (openServiceDirectory s True) w) = Inr dir"
    and mid: "replacement dir ?name contents None mid" by auto
  let ?k1 = "replay dir pre k" let ?k2 = "replay dir mid ?k1"
  have k1: "view ?k1 = view k" "fresh_disk ?k1"
    using quiet_moments [OF q(1) moments_last] same_files_view fresh_same assms(2) by blast+
  obtain tmp' where "temporary_name tmp'" "swapped ?k1 tmp' ?name contents ?k2"
    using replacement_success [OF mid identifier_not_temporary] by blast
  moreover have "view (replay dir es k) = view ?k2"
    using quiet_moments [OF q(2) moments_last] same_files_view by (simp add: es)
  ultimately have v: "\<forall>n. \<not> temporary_name n \<longrightarrow> view (replay dir es k) n = ((view k)(?name \<mapsto> contents)) n"
    using swapped_view [OF k1(2)] k1(1) by metis
  from mid show ?thesis
  proof cases
    case (replaced as tmp fd evs)
    then obtain ws where "evs = Chmodded fd secretMode None # written fd ws @ [Synced fd None]"
      "payload ws = contents" by (auto simp: staged_def)
    with replaced(1) v dir es show ?thesis
      by (intro exI [of _ dir] exI [of _ tmp] exI [of _ fd] exI [of _ ws] exI [of _ "pre @ as"] exI [of _ post])
        (simp add: temporary_flags_def)
  qed
qed

text \<open>C12 \<open>Set\<close> cleans up on every path: a temporary file that was created is closed, and either it took
  the credential's place or its removal was asked for; a failed \<open>Set\<close> has renamed nothing
  unless only the final sync of the directory failed.\<close>

theorem linux_set_cleans_up:
  assumes "run_state (linux_set (recorded s) key contents) (w, []) = (res, (w', es))"
    and "Opened d tmp temporary_flags secretMode (Inr fd) \<in> set es"
  shows "(\<exists>e. Closed fd e \<in> set es)
     \<and> (Renamed d tmp d (fs_identifier keyDomain key) None \<in> set es \<and> (\<exists>e. Synced d e \<in> set es \<and> (e = None \<longleftrightarrow> res = None))
        \<or> res \<noteq> None \<and> (\<exists>u. Unlinked d tmp 0 u \<in> set es) \<and> (\<forall>a x b y. Renamed a x b y None \<notin> set es))"
proof -
  let ?name = "fs_identifier keyDomain key"
  have ne: "temporary_flags \<noteq> credential_flags" by (simp add: temporary_flags_def credential_flags_def)
  obtain pre mid post where
    es: "es = pre @ mid @ post" and q: "\<forall>x\<in>set pre. quiet x" "\<forall>x\<in>set post. quiet x"
    and mid: "mid = [] \<or> (\<exists>dir r. replacement dir ?name contents r mid \<and> (res = None \<longleftrightarrow> r = None))"
    using linux_set_notes [OF assms(1)] unfolding append_Nil by blast
  have quiet_not: "quiet x \<Longrightarrow> x \<noteq> Opened d tmp temporary_flags secretMode (Inr fd) \<and> x \<noteq> Renamed a u b y None" for x a u b y
    using ne by (auto simp: quiet_def)
  then have "Opened d tmp temporary_flags secretMode (Inr fd) \<in> set mid"
    using assms(2) q quiet_not unfolding es by (metis Un_iff set_append)
  with mid obtain dir r where rep: "replacement dir ?name contents r mid" and r: "res = None \<longleftrightarrow> r = None"
    and op: "Opened d tmp temporary_flags secretMode (Inr fd) \<in> set mid" by auto
  have others: "Renamed a u b y None \<notin> set pre \<union> set post" for a u b y
    using quiet_not q by blast
  have st: "staged fd' c evs \<Longrightarrow> on_file fd' evs" for fd' c evs by (rule staged_on_file)
  have files: "on_file f evs \<Longrightarrow> Opened d' n fl m x \<notin> set evs \<and> Renamed a u b y z \<notin> set evs"
    for f evs d' n fl m x a u b y z by (auto simp: on_file_def)
  have tries: "attempts dir as \<Longrightarrow> Opened d' n fl m (Inr x) \<notin> set as \<and> Renamed a u b y z \<notin> set as"
    for as d' n fl m x a u b y z by (auto simp: attempts_def)
  from rep show ?thesis
  proof cases
    case no_file
    with op tries show ?thesis by blast
  next
    case (incomplete as tmp' fd' evs e c u)
    then have "tmp' = tmp" "fd' = fd" "d = dir" using op tries files by auto
    moreover have "\<forall>a x b y. Renamed a x b y None \<notin> set es"
      using others tries [OF incomplete(3)] files [OF incomplete(5)] by (auto simp: es incomplete(2))
    ultimately show ?thesis using incomplete(1) r by (auto simp: es incomplete(2))
  next
    case (unclosed as tmp' fd' evs e c u)
    then have "tmp' = tmp" "fd' = fd" "d = dir" using op tries files staged_on_file by fastforce+
    moreover have "\<forall>a x b y. Renamed a x b y None \<notin> set es"
      using others tries [OF unclosed(3)] files [OF staged_on_file [OF unclosed(5)]]
      by (auto simp: es unclosed(2))
    ultimately show ?thesis using unclosed(1) r by (auto simp: es unclosed(2))
  next
    case (not_renamed as tmp' fd' evs e c u)
    then have "tmp' = tmp" "fd' = fd" "d = dir" using op tries files staged_on_file by fastforce+
    moreover have "\<forall>a x b y. Renamed a x b y None \<notin> set es"
      using others tries [OF not_renamed(3)] files [OF staged_on_file [OF not_renamed(5)]]
      by (auto simp: es not_renamed(2))
    ultimately show ?thesis using not_renamed(1) r by (auto simp: es not_renamed(2))
  next
    case (replaced as tmp' fd' evs)
    then have "tmp' = tmp" "fd' = fd" "d = dir" using op tries files staged_on_file by fastforce+
    then show ?thesis using r by (auto simp: es replaced(1))
  qed
qed

section \<open>Witnesses\<close>

text \<open>A system where every call succeeds, credentials are missing and a write accepts one byte.\<close>

definition demo_storage :: "'w linuxStorage" where
  "demo_storage =
     \<lparr>rootPath = ''/r'', storage_layout = newLayout ''svc'', effectiveUID = 1000,
      system =
        \<lparr>sys_validateMount = (\<lambda>_. ret None), sys_prepareDirectories = (\<lambda>_ _ _. ret None),
         sys_openDirectory = (\<lambda>_ _. ret (Inr 3)), sys_openDirectoryAt = (\<lambda>d _ _. ret (Inr (d + 1))),
         sys_openFileAt = (\<lambda>_ _ fl _. ret (if O_CREAT \<in> set fl then Inr 9 else Inl (Errno ENOENT))),
         sys_fstat = (\<lambda>_. ret (Inl (Errno EACCES))), sys_fchmod = (\<lambda>_ _. ret None),
         sys_read = (\<lambda>_ _. ret (-1, [], Some (Errno EISDIR))), sys_write = (\<lambda>_ _. ret (1, None)),
         sys_fsync = (\<lambda>_. ret None), sys_close = (\<lambda>_. ret None),
         sys_renameAt = (\<lambda>_ _ _ _. ret None), sys_unlinkAt = (\<lambda>_ _ _. ret None)\<rparr>,
      random = (\<lambda>n. ret (Inr (replicate n (CHR 0x61)))), room = (\<lambda>_. 511), loop_fuel = 10\<rparr>"

definition demo_name :: string where
  "demo_name = ''.tmp-'' @ hex_EncodeToString (replicate 16 (CHR 0x61))"

definition demo_notes :: "event list" where
  "demo_notes =
     [Closed 4 None, Closed 3 None,
      Opened 5 (fs_identifier keyDomain ''k'') credential_flags 0 (Inl (Errno ENOENT)),
      Opened 5 demo_name temporary_flags secretMode (Inr 9), Chmodded 9 secretMode None,
      Written 9 ''ab'' 1 None, Written 9 ''b'' 1 None, Synced 9 None, Closed 9 None,
      Renamed 5 demo_name 5 (fs_identifier keyDomain ''k'') None, Synced 5 None, Closed 5 None]"

lemma demo_fields:
  "rootPath demo_storage = ''/r''" "storage_layout demo_storage = newLayout ''svc''"
  "effectiveUID demo_storage = 1000" "loop_fuel demo_storage = 10"
  by (simp_all add: demo_storage_def)

lemma demo_calls:
  "run_state (random demo_storage k) w = (Inr (replicate k (CHR 0x61)), w)"
  "run_state (sys_validateMount (system demo_storage) p) w = (None, w)"
  "run_state (sys_prepareDirectories (system demo_storage) p l u) w = (None, w)"
  "run_state (sys_openDirectory (system demo_storage) p u) w = (Inr 3, w)"
  "run_state (sys_openDirectoryAt (system demo_storage) d n u) w = (Inr (d + 1), w)"
  "run_state (sys_openFileAt (system demo_storage) d n temporary_flags m) w = (Inr 9, w)"
  "run_state (sys_openFileAt (system demo_storage) d n credential_flags m) w = (Inl (Errno ENOENT), w)"
  "run_state (sys_fchmod (system demo_storage) d m) w = (None, w)"
  "run_state (sys_write (system demo_storage) d c) w = ((1, None), w)"
  "run_state (sys_fsync (system demo_storage) d) w = (None, w)"
  "run_state (sys_close (system demo_storage) d) w = (None, w)"
  "run_state (sys_renameAt (system demo_storage) d n d' n') w = (None, w)"
  by (simp_all add: demo_storage_def temporary_flags_def credential_flags_def)

lemma demo_run:
  "run_state (linux_set (recorded demo_storage) ''k'' ''ab'') (w, []) = (None, (w, demo_notes))"
proof -
  have "run_state (createTemporary_loop (recorded demo_storage) 5 (Suc k)) (w, es) =
      (Inr (demo_name, 9), (w, es @ [Opened 5 demo_name temporary_flags secretMode (Inr 9)]))" for k es
    by (simp add: Let_def recorder demo_calls demo_name_def temporaryRandomBytes_def)
  from this [of 127]
  have t: "run_state (createTemporary (recorded demo_storage) 5) (w, es) =
      (Inr (demo_name, 9), (w, es @ [Opened 5 demo_name temporary_flags secretMode (Inr 9)]))" for es
    by (simp add: createTemporary_def temporaryCreateAttempts_def)
  have d: "run_state (openServiceDirectory (recorded demo_storage) True) (w, []) =
      (Inr 5, (w, [Closed 4 None, Closed 3 None]))"
    by (simp add: openServiceDirectory_def run_defer_close recorder demo_calls)
  have v: "run_state (validateExistingCredential (recorded demo_storage) 5 n) (w, es) =
      (None, (w, es @ [Opened 5 n credential_flags 0 (Inl (Errno ENOENT))]))" for n es
    by (simp add: validateExistingCredential_def openCredential_def recorder demo_calls)
  have wr: "run_state (writeAll (recorded_system (system demo_storage)) f 9 ''ab'') (w, es) =
      (None, (w, es @ [Written 9 ''ab'' 1 None, Written 9 ''b'' 1 None]))" for f es
    by (simp add: writeAll.simps recorder demo_calls)
  have wa: "run_state (writeAtomic (recorded demo_storage) 5 n ''ab'') (w, es) =
      (None, (w, es @ [Opened 5 demo_name temporary_flags secretMode (Inr 9), Chmodded 9 secretMode None,
        Written 9 ''ab'' 1 None, Written 9 ''b'' 1 None, Synced 9 None, Closed 9 None,
        Renamed 5 demo_name 5 n None, Synced 5 None]))" for n es
    by (simp add: writeAtomic_def t writeAtomic_body_def writeAtomic_deferred_def recorder wr demo_calls)
  show ?thesis
    by (simp add: linux_set_def Let_def run_defer_close d v wa recorder demo_notes_def demo_calls)
qed

definition empty_disk :: disk where
  "empty_disk = \<lparr>names = Map.empty, inodes = (\<lambda>_. []), handles = Map.empty, next_inode = 0\<rparr>"

lemma fresh_empty_disk: "fresh_disk empty_disk"
  by (simp add: fresh_disk_def empty_disk_def)

text \<open>The moment after the seventh call, with one of the two bytes written.\<close>

theorem linux_set_atomic_witness:
  "replay 5 (take 7 demo_notes) empty_disk \<in> set (moments 5 demo_notes empty_disk)
     \<and> view (replay 5 (take 7 demo_notes) empty_disk) (fs_identifier keyDomain ''k'') \<in> {None, Some ''ab''}"
proof -
  have "replay 5 (take 7 demo_notes) empty_disk
      \<in> set (moments 5 (take 7 demo_notes @ drop 7 demo_notes) empty_disk)"
    unfolding moments_append using moments_last by fastforce
  then have m: "replay 5 (take 7 demo_notes) empty_disk \<in> set (moments 5 demo_notes empty_disk)"
    by simp
  from linux_set_atomic [OF demo_run [of "()"] fresh_empty_disk this identifier_not_temporary [of _ "''k''"]] m
  show ?thesis by (auto simp: view_def empty_disk_def)
qed

theorem linux_set_durable_witness:
  "\<exists>dir. view (replay dir demo_notes empty_disk) (fs_identifier keyDomain ''k'') = Some ''ab''"
  using linux_set_durable [OF demo_run [of "()"] fresh_empty_disk]
  by (metis identifier_not_temporary fun_upd_same)

theorem linux_set_cleans_up_witness:
  "Renamed 5 demo_name 5 (fs_identifier keyDomain ''k'') None \<in> set demo_notes
     \<and> (\<exists>e. Closed 9 e \<in> set demo_notes)"
proof -
  have "Opened 5 demo_name temporary_flags secretMode (Inr 9) \<in> set demo_notes"
    by (simp add: demo_notes_def)
  from linux_set_cleans_up [OF demo_run [of "()"] this] show ?thesis by blast
qed

end
