(* ===== verification/Fs_Shared.thy ===== *)
theory Fs_Shared
  imports Fs_Atomic
begin

text \<open>
  One service directory used by many operations at the same time, from any number of processes:
  their calls are interleaved in any order, each may be cut off by a crash, and the answers each
  of them gets are arbitrary but for what the kernel promises of single calls (\<open>lawful\<close>). The
  locks of the keyring play no part here; they order operations within one process only.
\<close>

section \<open>Interleaved operations\<close>

datatype operation = Get_op string | Set_op string bytes | Delete_op string

text \<open>A party is one operation on a storage, started in some state of its outside world.\<close>

record 'w party =
  party_storage :: "'w linuxStorage"
  party_operation :: operation
  party_world :: 'w

definition notes_of :: "'w party \<Rightarrow> event list" where
  "notes_of x =
     (let s = recorded (party_storage x); w = (party_world x, []) in
      case party_operation x of
        Get_op key \<Rightarrow> snd (snd (run_state (linux_get s key) w))
      | Set_op key contents \<Rightarrow> snd (snd (run_state (linux_set s key contents) w))
      | Delete_op key \<Rightarrow> snd (snd (run_state (linux_delete s key) w)))"

text \<open>The descriptor by which a party knows the service directory; only \<open>Set\<close> creates it.\<close>

definition service_fd :: "'w party \<Rightarrow> int" where
  "service_fd x =
     (case fst (run_state (openServiceDirectory (party_storage x)
         (case party_operation x of Set_op _ _ \<Rightarrow> True | _ \<Rightarrow> False)) (party_world x)) of
        Inr d \<Rightarrow> d | Inl _ \<Rightarrow> 0)"

definition calls :: "nat \<Rightarrow> (nat \<times> event) list \<Rightarrow> event list" where
  "calls p tr = map snd (filter (\<lambda>x. fst x = p) tr)"

text \<open>Every party makes the calls of its operation in order, up to some point.\<close>

definition interleaving :: "(nat \<Rightarrow> 'w party) \<Rightarrow> (nat \<times> event) list \<Rightarrow> bool" where
  "interleaving ps tr \<longleftrightarrow> (\<forall>p\<in>fst ` set tr. prefix (calls p tr) (notes_of (ps p)))"

lemma calls_simps [simp]:
  "calls p [] = []" "calls p ((q, e) # tr) = (if q = p then e # calls p tr else calls p tr)"
  "calls p (tr @ tr') = calls p tr @ calls p tr'"
  by (simp_all add: calls_def)

lemma interleaving_all: "interleaving ps tr \<longleftrightarrow> (\<forall>p. prefix (calls p tr) (notes_of (ps p)))"
proof -
  have "calls p tr = []" if "p \<notin> fst ` set tr" for p
    using that by (induction tr) (auto simp: calls_def)
  then show ?thesis unfolding interleaving_def by (metis Nil_prefix)
qed

text \<open>
  The directory they share. A descriptor belongs to its party: the kernel hands out no descriptor
  twice while it is open. The offset of a descriptor counts what was read from it.
\<close>

record shared =
  entries :: "string \<rightharpoonup> nat"
  files :: "nat \<Rightarrow> bytes"
  fresh_inode :: nat
  tables :: "nat \<Rightarrow> int \<rightharpoonup> nat"
  offsets :: "nat \<Rightarrow> int \<Rightarrow> nat"

definition seen_by :: "nat \<Rightarrow> shared \<Rightarrow> disk" where
  "seen_by p w = \<lparr>names = entries w, inodes = files w, handles = tables w p, next_inode = fresh_inode w\<rparr>"

fun advance :: "event \<Rightarrow> (int \<Rightarrow> nat) \<Rightarrow> int \<Rightarrow> nat" where
  "advance (Opened d n fl m (Inr fd)) pos = pos(fd := 0)"
| "advance (Was_read fd l (n, c, None)) pos = pos(fd := pos fd + nat n)"
| "advance e pos = pos"

definition act :: "int \<Rightarrow> nat \<Rightarrow> event \<Rightarrow> shared \<Rightarrow> shared" where
  "act dir p e w =
     (let k = effect dir e (seen_by p w) in
      \<lparr>entries = names k, files = inodes k, fresh_inode = next_inode k,
       tables = (tables w)(p := handles k), offsets = (offsets w)(p := advance e (offsets w p))\<rparr>)"

fun shared_replay :: "(nat \<Rightarrow> 'w party) \<Rightarrow> (nat \<times> event) list \<Rightarrow> shared \<Rightarrow> shared" where
  "shared_replay ps [] w = w"
| "shared_replay ps ((p, e) # tr) w = shared_replay ps tr (act (service_fd (ps p)) p e w)"

definition shared_view :: "shared \<Rightarrow> string \<rightharpoonup> bytes" where
  "shared_view w n = map_option (files w) (entries w n)"

text \<open>
  What the kernel promises of single calls: \<open>O_EXCL\<close> creates a name that was free; an open
  without \<open>O_CREAT\<close> finds a file, and reports a missing one only if there is none; a read returns the bytes at the offset, none only at the end
  of the file, and its error is never \<open>io.EOF\<close>.
\<close>

fun lawful :: "int \<Rightarrow> nat \<Rightarrow> event \<Rightarrow> shared \<Rightarrow> bool" where
  "lawful dir p (Opened d n fl m (Inr fd)) w \<longleftrightarrow>
     d \<noteq> dir \<or> (if O_EXCL \<in> set fl then entries w n = None
                else O_CREAT \<in> set fl \<or> entries w n \<noteq> None)"
| "lawful dir p (Opened d n fl m (Inl e)) w \<longleftrightarrow>
     d \<noteq> dir \<or> O_CREAT \<in> set fl \<or> \<not> err_is e ErrNotExist \<or> entries w n = None"
| "lawful dir p (Was_read fd l (n, c, None)) w \<longleftrightarrow>
     (case tables w p fd of None \<Rightarrow> True
      | Some i \<Rightarrow> let rest = drop (offsets w p fd) (files w i) in
          0 \<le> n \<and> nat n \<le> length rest \<and> take (nat n) c = take (nat n) rest \<and> (n = 0 \<longrightarrow> rest = []))"
| "lawful dir p (Was_read fd l (n, c, Some e)) w \<longleftrightarrow> e \<noteq> EOF"
| "lawful dir p e w \<longleftrightarrow> True"

fun lawful_trace :: "(nat \<Rightarrow> 'w party) \<Rightarrow> (nat \<times> event) list \<Rightarrow> shared \<Rightarrow> bool" where
  "lawful_trace ps [] w \<longleftrightarrow> True"
| "lawful_trace ps ((p, e) # tr) w \<longleftrightarrow> lawful (service_fd (ps p)) p e w
     \<and> lawful_trace ps tr (act (service_fd (ps p)) p e w)"

text \<open>
  The reference: a map that changes only when a \<open>Set\<close> renames its file and when a \<open>Delete\<close>
  unlinks the credential, by the whole operation at once.
\<close>

fun commit :: "operation \<Rightarrow> event \<Rightarrow> (string \<rightharpoonup> bytes) \<Rightarrow> (string \<rightharpoonup> bytes)" where
  "commit (Set_op key contents) (Renamed d n d' n' None) m = m(fs_identifier keyDomain key \<mapsto> contents)"
| "commit (Delete_op key) (Unlinked d n f None) m = m(fs_identifier keyDomain key := None)"
| "commit x e m = m"

fun serial :: "(nat \<Rightarrow> 'w party) \<Rightarrow> (nat \<times> event) list \<Rightarrow> (string \<rightharpoonup> bytes) \<Rightarrow> (string \<rightharpoonup> bytes)" where
  "serial ps [] m = m"
| "serial ps ((p, e) # tr) m = serial ps tr (commit (party_operation (ps p)) e m)"

lemma shared_replay_append [simp]:
  "shared_replay ps (tr @ tr') w = shared_replay ps tr' (shared_replay ps tr w)"
  by (induction tr arbitrary: w) auto

lemma serial_append [simp]: "serial ps (tr @ tr') m = serial ps tr' (serial ps tr m)"
  by (induction tr arbitrary: m) auto

lemma commit_cong: "m n = m' n \<Longrightarrow> commit x e m n = commit x e m' n"
  by (induction x e m rule: commit.induct) (simp_all add: fun_upd_def)

lemma serial_cong: "m n = m' n \<Longrightarrow> serial ps tr m n = serial ps tr m' n"
proof (induction tr arbitrary: m m')
  case (Cons pe tr)
  obtain p e where pe: "pe = (p, e)" by fastforce
  have "commit (party_operation (ps p)) e m n = commit (party_operation (ps p)) e m' n"
    using Cons.prems by (rule commit_cong)
  then show ?case unfolding pe serial.simps by (rule Cons.IH)
qed simp

lemma lawful_trace_append [simp]:
  "lawful_trace ps (tr @ tr') w \<longleftrightarrow> lawful_trace ps tr w \<and> lawful_trace ps tr' (shared_replay ps tr w)"
  by (induction tr arbitrary: w) auto

section \<open>The phases of an operation\<close>

text \<open>
  Idle; writing a temporary file, with what was accepted so far; holding a closed one.
\<close>

datatype phase = Resting | Writing string int bytes | Staged string bytes

inductive phase_step :: "int \<Rightarrow> operation \<Rightarrow> phase \<Rightarrow> event \<Rightarrow> phase \<Rightarrow> bool" for d x where
  rest: "quiet e \<Longrightarrow> phase_step d x Resting e Resting"
| create: "temporary_name t \<Longrightarrow> phase_step d x Resting (created d t fd) (Writing t fd [])"
| chmod: "phase_step d x (Writing t fd acc) (Chmodded fd m r) (Writing t fd acc)"
| accept: "phase_step d x (Writing t fd acc) (Written fd c n r) (Writing t fd (acc @ take (nat n) c))"
| sync: "phase_step d x (Writing t fd acc) (Synced fd r) (Writing t fd acc)"
| close: "phase_step d x (Writing t fd acc) (Closed fd r) (Staged t acc)"
| replace: "x = Set_op key contents \<Longrightarrow>
    phase_step d x (Staged t contents) (Renamed d t d (fs_identifier keyDomain key) None) Resting"
| keep: "phase_step d x (Staged t acc) (Renamed d t d n (Some r)) (Staged t acc)"
| remove: "x = Set_op key contents \<Longrightarrow> phase_step d x (Staged t acc) (Unlinked d t 0 r) Resting"
| delete: "x = Delete_op key \<Longrightarrow>
    phase_step d x Resting (Unlinked d (fs_identifier keyDomain key) 0 None) Resting"

inductive phase_run :: "int \<Rightarrow> operation \<Rightarrow> phase \<Rightarrow> event list \<Rightarrow> phase \<Rightarrow> bool" for d x where
  done_run: "phase_run d x a [] a"
| step_run: "phase_step d x a e b \<Longrightarrow> phase_run d x b es c \<Longrightarrow> phase_run d x a (e # es) c"

inductive_cases phase_run_NilE: "phase_run d x a [] c"
inductive_cases phase_run_ConsE: "phase_run d x a (e # es) c"

lemma phase_run_append:
  "phase_run d x a es b \<Longrightarrow> phase_run d x b es' c \<Longrightarrow> phase_run d x a (es @ es') c"
  by (induction rule: phase_run.induct) (auto intro: phase_run.intros)

lemma phase_run_prefix: "phase_run d x a (es @ es') c \<Longrightarrow> \<exists>b. phase_run d x a es b"
proof (induction es arbitrary: a)
  case Nil
  show ?case by (blast intro: done_run)
next
  case (Cons e es)
  from Cons.prems show ?case by (auto elim!: phase_run_ConsE dest!: Cons.IH intro: step_run)
qed

lemma phase_run_quiet: "\<forall>e\<in>set es. quiet e \<Longrightarrow> phase_run d x Resting es Resting"
  by (induction es) (auto intro: phase_run.intros rest)

lemma attempts_quiet: "attempts d es \<Longrightarrow> \<forall>e\<in>set es. quiet e"
  by (auto simp: attempts_def quiet_def)

lemma phase_run_on_file: "on_file fd es \<Longrightarrow> \<exists>acc'. phase_run d x (Writing t fd acc) es (Writing t fd acc')"
proof (induction es arbitrary: acc)
  case Nil
  show ?case by (blast intro: done_run)
next
  case (Cons e es)
  then have "\<exists>acc'. phase_step d x (Writing t fd acc) e (Writing t fd acc')"
    by (auto simp: on_file_def intro: chmod accept sync)
  with Cons.IH on_file_Cons [OF Cons.prems] show ?case by (blast intro: step_run)
qed

lemma phase_run_written:
  "phase_run d x (Writing t fd acc) (written fd ws) (Writing t fd (acc @ payload ws))"
proof (induction ws arbitrary: acc)
  case Nil
  show ?case by (simp add: done_run)
next
  case (Cons a ws)
  then show ?case by (cases a) (auto intro!: step_run accept simp flip: append_assoc)
qed

lemma phase_run_staged: "staged fd c es \<Longrightarrow> phase_run d x (Writing t fd []) es (Writing t fd c)"
  using phase_run_written [of d x t fd "[]"]
  by (auto simp: staged_def intro!: step_run [OF chmod] phase_run_append intro: step_run [OF sync] done_run)

lemma phase_run_replacement:
  assumes "replacement d (fs_identifier keyDomain key) c r es" and "x = Set_op key c"
  shows "phase_run d x Resting es Resting"
proof -
  have shape: "phase_run d x Resting (as @ created d t fd # evs @ tail) Resting"
    if "attempts d as" "temporary_name t" "phase_run d x (Writing t fd []) evs b" "phase_run d x b tail Resting"
    for as t fd evs tail b
    using that phase_run_quiet [OF attempts_quiet [OF that(1)]]
    by (blast intro: phase_run_append step_run create)
  from assms(1) show ?thesis
  proof cases
    case no_file
    then show ?thesis by (intro phase_run_quiet attempts_quiet)
  next
    case (incomplete as t fd evs e c' u)
    obtain acc where "phase_run d x (Writing t fd []) evs (Writing t fd acc)"
      using phase_run_on_file [OF incomplete(5)] by blast
    then show ?thesis unfolding incomplete(2)
      by (rule shape [OF incomplete(3,4)]) (blast intro: step_run close remove [OF assms(2)] done_run)
  next
    case (unclosed as t fd evs e c' u)
    show ?thesis unfolding unclosed(2)
      by (rule shape [OF unclosed(3,4) phase_run_staged [OF unclosed(5)]])
        (blast intro: step_run close remove [OF assms(2)] done_run)
  next
    case (not_renamed as t fd evs e c' u)
    show ?thesis unfolding not_renamed(2)
      by (rule shape [OF not_renamed(3,4) phase_run_staged [OF not_renamed(5)]])
        (blast intro: step_run close keep remove [OF assms(2)] done_run)
  next
    case (replaced as t fd evs)
    have "quiet (Synced d r)" by (simp add: quiet_def)
    then show ?thesis unfolding replaced(1)
      by (intro shape [OF replaced(2,3) phase_run_staged [OF replaced(4)]])
        (blast intro: step_run close replace [OF assms(2)] rest done_run)
  qed
qed

section \<open>The notes of Get and Delete\<close>

text \<open>
  The buffer of \<open>io.ReadAll\<close> after a list of reads without an error.
\<close>

fun absorbed :: "bytes \<Rightarrow> (nat \<times> int \<times> bytes) list \<Rightarrow> bytes" where
  "absorbed b [] = b"
| "absorbed b ((l, n, c) # rs) = absorbed (take (nat (int (length b) + n)) (b @ c)) rs"

definition reads :: "int \<Rightarrow> (nat \<times> int \<times> bytes) list \<Rightarrow> event list" where
  "reads fd rs = map (\<lambda>(l, n, c). Was_read fd l (n, c, None)) rs"

lemma reads_simps [simp]:
  "reads fd [] = []" "reads fd ((l, n, c) # rs) = Was_read fd l (n, c, None) # reads fd rs"
  by (simp_all add: reads_def)

text \<open>
  What the reads tell of the contents they gave: either the last one met the end of the file, or
  the system answered \<open>io.EOF\<close>, which the code takes for the end.
\<close>

definition read_whole :: "int \<Rightarrow> bytes \<Rightarrow> event list \<Rightarrow> bytes \<Rightarrow> bool" where
  "read_whole fd b q v \<longleftrightarrow>
     (\<exists>rs l c. q = reads fd rs @ [Was_read fd l (0, c, None)] \<and> absorbed b rs = v)
     \<or> (\<exists>l n c. Was_read fd l (n, c, Some EOF) \<in> set q)"

lemma read_whole_one:
  "read_whole fd b [Was_read fd l (0, c, None)] b"
  "read_whole fd b [Was_read fd l (n, c, Some EOF)] v"
proof -
  have "[Was_read fd l (0, c, None)] = reads fd [] @ [Was_read fd l (0, c, None)] \<and> absorbed b [] = b" by simp
  then show "read_whole fd b [Was_read fd l (0, c, None)] b" unfolding read_whole_def by blast
qed (auto simp: read_whole_def)

lemma read_whole_Cons:
  assumes "read_whole fd (take (nat (int (length b) + n)) (b @ c)) q v"
  shows "read_whole fd b (Was_read fd l (n, c, None) # q) v"
proof -
  let ?b = "take (nat (int (length b) + n)) (b @ c)"
  consider (r) rs l' c' where "q = reads fd rs @ [Was_read fd l' (0, c', None)]" "absorbed ?b rs = v"
    | (e) l n c where "Was_read fd l (n, c, Some EOF) \<in> set q"
    using assms unfolding read_whole_def by blast
  then show ?thesis
  proof cases
    case r
    then have "Was_read fd l (n, c, None) # q = reads fd ((l, n, c) # rs) @ [Was_read fd l' (0, c', None)]
        \<and> absorbed b ((l, n, c) # rs) = v" by simp
    then show ?thesis unfolding read_whole_def by blast
  next
    case e
    then show ?thesis unfolding read_whole_def by (metis list.set_intros(2))
  qed
qed

lemma ReadAll_notes:
  assumes "run_state (ReadAll (descriptorReader_Read (recorded_system sys) fd) grow fuel b) (w, es)
     = (a, (w', es'))"
  shows "\<exists>q. es' = es @ q \<and> (\<forall>e\<in>set q. \<exists>l r. e = Was_read fd l r)
     \<and> (\<forall>v. a = AllRead v None \<longrightarrow> read_whole fd b q v)"
  using assms
proof (induction fuel arbitrary: b w es)
  case 0
  then show ?case by auto
next
  case (Suc fuel)
  let ?l = "Suc (grow (length b))"
  obtain n c err w1 where rd: "run_state (sys_read sys fd ?l) w = ((n, c, err), w1)"
    by (metis surj_pair)
  let ?ev = "Was_read fd ?l (n, c, err)"
  let ?b = "take (nat (int (length b) + n)) (b @ c)"
  have one: "run_state (descriptorReader_Read (recorded_system sys) fd ?l) (w, es) =
      ((n, c, if n = 0 \<and> err = None then Some EOF else err), (w1, es @ [?ev]))"
    using rd by (simp add: descriptorReader_Read_def recorder)
  consider (stop) "a = ReadPanic \<or> (\<exists>v x. a = AllRead v (Some x))" "es' = es @ [?ev]"
    | (eof) "err = Some EOF" "es' = es @ [?ev]"
    | (zero) "n = 0" "err = None" "a = AllRead b None" "es' = es @ [?ev]"
    | (more) "err = None" "run_state (ReadAll (descriptorReader_Read (recorded_system sys) fd) grow fuel ?b)
          (w1, es @ [?ev]) = (a, (w', es'))"
    using Suc.prems [unfolded ReadAll.simps]
    by (auto simp: one Let_def split: if_splits option.splits)
  then show ?case
  proof cases
    case more
    from Suc.IH [OF more(2)] obtain q where
      q: "es' = (es @ [?ev]) @ q" "\<forall>e\<in>set q. \<exists>l r. e = Was_read fd l r"
        "\<forall>v. a = AllRead v None \<longrightarrow> read_whole fd ?b q v" by blast
    then show ?thesis using more(1) read_whole_Cons by (intro exI [of _ "?ev # q"]) auto
  qed (use read_whole_one in \<open>auto intro!: exI [of _ "[?ev]"]\<close>)
qed

text \<open>\<open>openCredential\<close> notes the call that opens the file, and closes what it refuses.\<close>

lemma openCredential_recorded:
  assumes "run_state (openCredential (recorded s) dir name) (w, es) = (r, (w', es'))"
  shows "\<exists>y q. es' = es @ Opened dir name credential_flags 0 y # q \<and> (list_all is_close q)
     \<and> (\<forall>fd. r = Inr fd \<longrightarrow> y = Inr fd \<and> q = []) \<and> (\<forall>e. y = Inl e \<longrightarrow> r = Inl e)"
proof -
  obtain d w1 where d: "run_state (sys_openFileAt (system s) dir name credential_flags 0) w = (d, w1)"
    by fastforce
  show ?thesis
  proof (cases d)
    case (Inl e)
    with d assms show ?thesis by (auto simp: openCredential_def recorder)
  next
    case (Inr fd)
    obtain st w2 where st: "run_state (sys_fstat (system s) fd) w1 = (st, w2)" by fastforce
    obtain v where v: "run_state (validateCredential (recorded s) fd) (w1, es0) = (v, (w2, es0))" for es0
      using st by (auto simp: validateCredential_def recorder)
    from Inr d v assms show ?thesis
      by (cases v) (auto simp: openCredential_def recorder)
  qed
qed

text \<open>The only open that can fail in \<open>Get\<close> and \<open>Delete\<close> is that of the credential.\<close>

definition only_open :: "int option \<Rightarrow> string \<Rightarrow> event list \<Rightarrow> (go_error \<Rightarrow> bool) \<Rightarrow> bool" where
  "only_open dir name es P \<longleftrightarrow>
     (\<forall>d n fl m e. Opened d n fl m (Inl e) \<in> set es \<longrightarrow> dir = Some d \<and> n = name \<and> fl = credential_flags \<and> P e)"

lemma only_open_simps [simp]:
  "only_open dir name [] P" "only_open dir name (es @ es') P \<longleftrightarrow> only_open dir name es P \<and> only_open dir name es' P"
  "only_open dir name (Closed fd c # es) P \<longleftrightarrow> only_open dir name es P"
  "only_open dir name (Synced fd c # es) P \<longleftrightarrow> only_open dir name es P"
  "only_open dir name (Unlinked d n fl u # es) P \<longleftrightarrow> only_open dir name es P"
  "only_open (Some d) name (Opened d name credential_flags m y # es) P \<longleftrightarrow>
     (\<forall>e. y = Inl e \<longrightarrow> P e) \<and> only_open (Some d) name es P"
  unfolding only_open_def by (auto; blast)+

lemma only_open_closes: "list_all is_close es \<Longrightarrow> only_open dir name es P"
  "\<forall>x\<in>set es. \<exists>l r. x = Was_read fd l r \<Longrightarrow> only_open dir name es P"
  by (fastforce simp: only_open_def list_all_iff)+

definition opened_by :: "go_error + int \<Rightarrow> int option" where
  "opened_by r = (case r of Inl e \<Rightarrow> None | Inr d \<Rightarrow> Some d)"

lemma quiet_calls [simp]:
  "quiet (Closed fd e)" "quiet (Synced fd e)" "quiet (Was_read fd l r)"
  "quiet (Opened d n credential_flags 0 y)" "quiet (Unlinked d n fl (Some x))"
  by (cases r; simp add: quiet_def)+

lemma linux_get_notes:
  assumes "run_state (linux_get (recorded s) key) (w, es) = (res, (w', es'))"
  shows "\<exists>q. es' = es @ q \<and> (\<forall>x\<in>set q. quiet x)
     \<and> (\<forall>v. res = Inr v \<longrightarrow> (\<exists>dir pre fd rd post. fst (run_state (openServiceDirectory s False) w) = Inr dir
          \<and> q = pre @ Opened dir (fs_identifier keyDomain key) credential_flags 0 (Inr fd) # rd @ post
          \<and> read_whole fd [] rd v \<and> (\<forall>e\<in>set rd. \<exists>l r. e = Was_read fd l r)))
     \<and> only_open (opened_by (fst (run_state (openServiceDirectory s False) w))) (fs_identifier keyDomain key) q
         (\<lambda>e. res = Inl (classify_operation ''get credential'' True e))"
proof -
  let ?name = "fs_identifier keyDomain key"
  obtain d w1 es1 where d: "run_state (openServiceDirectory (recorded s) False) (w, es) = (d, (w1, es1))"
    by (metis surj_pair)
  from openServiceDirectory_closes [OF d] obtain q1 where
    d': "run_state (openServiceDirectory s False) w = (d, w1)" and
    q1: "es1 = es @ q1" "list_all is_close q1" by blast
  note o1 = only_open_closes(1) [OF q1(2)]
  show ?thesis
  proof (cases d)
    case (Inl e)
    with assms d q1(1) close_quiet [OF q1(2)] o1 show ?thesis by (intro exI [of _ q1]) (auto simp: linux_get_def)
  next
    case (Inr dir)
    obtain v w2 es2 where
      v: "run_state (openCredential (recorded s) dir ?name) (w1, es1) = (v, (w2, es2))"
      by (metis surj_pair)
    from openCredential_recorded [OF v] obtain y q2 where
      q2: "es2 = es1 @ Opened dir ?name credential_flags 0 y # q2" "list_all is_close q2"
        "\<forall>fd. v = Inr fd \<longrightarrow> y = Inr fd \<and> q2 = []" "\<forall>e. y = Inl e \<longrightarrow> v = Inl e" by blast
    let ?op = "Opened dir ?name credential_flags 0 y"
    have dir: "opened_by (fst (run_state (openServiceDirectory s False) w)) = Some dir"
      using d' Inr by (simp add: opened_by_def)
    show ?thesis
    proof (cases v)
      case e: (Inl e)
      obtain c where c: "es' = es2 @ [Closed dir c]" "res = Inl (classify_operation ''get credential'' True e)"
        using assms by (auto simp: linux_get_def run_defer_close recorder d [unfolded Inr] v [unfolded e])
      have "es' = es @ (q1 @ ?op # q2 @ [Closed dir c])" using c(1) q1(1) q2(1) by simp
      moreover have "\<forall>x\<in>set (q1 @ ?op # q2 @ [Closed dir c]). quiet x" using close_quiet [OF q1(2)] close_quiet [OF q2(2)] by auto
      moreover have "only_open (Some dir) ?name (q1 @ ?op # q2 @ [Closed dir c])
          (\<lambda>e. res = Inl (classify_operation ''get credential'' True e))"
        using o1 only_open_closes(1) [OF q2(2)] q2(4) e c(2) by auto
      ultimately show ?thesis unfolding dir using c(2) by blast
    next
      case fd: (Inr fd)
      then have q2': "y = Inr fd" "q2 = []" using q2(3) by auto
      obtain a w3 es3 where a: "run_state (ReadAll (descriptorReader_Read (recorded_system (system s)) fd)
          (room s) (loop_fuel s) []) (w2, es2) = (a, (w3, es3))" by (metis surj_pair)
      from ReadAll_notes [OF a] obtain q3 where
        q3: "es3 = es2 @ q3" "\<forall>e\<in>set q3. \<exists>l r. e = Was_read fd l r"
          "\<And>v. a = AllRead v None \<Longrightarrow> read_whole fd [] q3 v" by blast
      have "\<exists>q4. es' = es3 @ q4 \<and> (list_all is_close q4)
          \<and> (\<forall>v. res = Inr v \<longrightarrow> a = AllRead v None)"
      proof (cases a)
        case (AllRead u re)
        with assms show ?thesis
          by (auto simp: linux_get_def run_defer_close recorder d [unfolded Inr] v [unfolded fd] a
              split: option.splits)
      qed (use assms in \<open>auto simp: linux_get_def run_defer_close recorder d [unfolded Inr] v [unfolded fd] a\<close>)
      then obtain q4 where q4: "es' = es3 @ q4" "list_all is_close q4"
          "\<And>v. res = Inr v \<Longrightarrow> a = AllRead v None" by blast
      let ?q = "q1 @ ?op # q3 @ q4"
      have "es' = es @ ?q" using q1(1) q2(1) q2' q3(1) q4(1) by simp
      moreover have "\<forall>x\<in>set ?q. quiet x" using close_quiet [OF q1(2)] q3(2) close_quiet [OF q4(2)] by auto
      moreover have "only_open (Some dir) ?name ?q (\<lambda>e. res = Inl (classify_operation ''get credential'' True e))"
        using o1 only_open_closes(1) [OF q4(2)] only_open_closes(2) [OF q3(2)] q2'(1) by simp
      moreover have "fst (run_state (openServiceDirectory s False) w) = Inr dir" using d' Inr by simp
      moreover have "?q = q1 @ Opened dir ?name credential_flags 0 (Inr fd) # q3 @ q4" using q2'(1) by simp
      ultimately show ?thesis unfolding dir using q3(2) q3(3) [OF q4(3)] by (intro exI [of _ ?q]) blast
    qed
  qed
qed

lemma linux_delete_notes:
  assumes "run_state (linux_delete (recorded s) key) (w, es) = (res, (w', es'))"
  shows "\<exists>pre post. (\<forall>x\<in>set pre. quiet x) \<and> (\<forall>x\<in>set post. quiet x)
     \<and> (res \<noteq> None \<and> es' = es @ pre @ post
        \<or> (\<exists>dir. fst (run_state (openServiceDirectory s False) w) = Inr dir
             \<and> es' = es @ pre @ Unlinked dir (fs_identifier keyDomain key) 0 None # post))
     \<and> only_open (opened_by (fst (run_state (openServiceDirectory s False) w))) (fs_identifier keyDomain key)
         (drop (length es) es')
         (\<lambda>e. post = [] \<and> es' = es @ pre \<and> res = Some (classify_operation ''delete credential'' True e))"
proof -
  let ?name = "fs_identifier keyDomain key"
  obtain d w1 es1 where d: "run_state (openServiceDirectory (recorded s) False) (w, es) = (d, (w1, es1))"
    by (metis surj_pair)
  from openServiceDirectory_closes [OF d] obtain q1 where
    d': "run_state (openServiceDirectory s False) w = (d, w1)" and
    q1: "es1 = es @ q1" "list_all is_close q1" by blast
  note o1 = only_open_closes(1) [OF q1(2)]
  show ?thesis
  proof (cases d)
    case (Inl e)
    with assms d q1(1) close_quiet [OF q1(2)] o1 show ?thesis
      by (intro exI [of _ q1] exI [of _ "[]"]) (auto simp: linux_delete_def)
  next
    case (Inr dir)
    obtain v w2 es2 where
      v: "run_state (openCredential (recorded s) dir ?name) (w1, es1) = (v, (w2, es2))"
      by (metis surj_pair)
    from openCredential_recorded [OF v] obtain y q2 where
      q2: "es2 = es1 @ Opened dir ?name credential_flags 0 y # q2" "list_all is_close q2"
        "\<forall>fd. v = Inr fd \<longrightarrow> y = Inr fd \<and> q2 = []" "\<forall>e. y = Inl e \<longrightarrow> v = Inl e"
      by blast
    let ?pre = "q1 @ Opened dir ?name credential_flags 0 y # q2"
    have es2: "es2 = es @ ?pre" and pre: "\<forall>x\<in>set ?pre. quiet x"
      using q1(1) q2(1) close_quiet [OF q1(2)] close_quiet [OF q2(2)] by auto
    have dir: "opened_by (fst (run_state (openServiceDirectory s False) w)) = Some dir"
      using d' Inr by (simp add: opened_by_def)
    note o2 = only_open_closes(1) [OF q2(2)]
    show ?thesis
    proof (cases v)
      case e: (Inl e)
      obtain c where c: "es' = es2 @ [Closed dir c]"
          "res = Some (classify_operation ''delete credential'' True e)"
        using assms by (auto simp: linux_delete_def Let_def run_defer_close recorder d [unfolded Inr] v [unfolded e])
      then show ?thesis using es2 pre o1 o2 q2(4) e unfolding dir
        by (intro exI [of _ "?pre @ [Closed dir c]"] exI [of _ "[]"]) auto
    next
      case fd: (Inr fd)
      obtain e1 w3 where c1: "run_state (sys_close (system s) fd) w2 = (e1, w3)" by fastforce
      obtain e2 w4 where c2: "run_state (sys_unlinkAt (system s) dir ?name 0) w3 = (e2, w4)" by fastforce
      obtain e3 w5 where c3: "run_state (sys_fsync (system s) dir) w4 = (e3, w5)" by fastforce
      let ?p = "?pre @ [Closed fd e1]"
      have p: "\<forall>x\<in>set ?p. quiet x" using pre by auto
      have y: "y = Inr fd" "q2 = []" using fd q2(3) by auto
      consider (closed) c where "es' = es2 @ [Closed fd e1, Closed dir c]" "res \<noteq> None"
        | (kept) c x where "es' = es2 @ [Closed fd e1, Unlinked dir ?name 0 (Some x), Closed dir c]" "res \<noteq> None"
        | (gone) c where "es' = es2 @ [Closed fd e1, Unlinked dir ?name 0 None, Synced dir e3, Closed dir c]"
        using assms by (auto simp: linux_delete_def Let_def run_defer_close recorder d [unfolded Inr]
            v [unfolded fd] c1 c2 c3 split: if_splits)
      then show ?thesis
      proof cases
        case closed
        with es2 p o1 y show ?thesis unfolding dir
          by (intro exI [of _ ?p] exI [of _ "[Closed dir c]"]) auto
      next
        case kept
        with es2 p o1 y show ?thesis unfolding dir
          by (intro exI [of _ ?p] exI [of _ "[Unlinked dir ?name 0 (Some x), Closed dir c]"]) auto
      next
        case gone
        have "fst (run_state (openServiceDirectory s False) w) = Inr dir" using d' Inr by simp
        with gone es2 p o1 y show ?thesis unfolding dir
          by (intro exI [of _ ?p] exI [of _ "[Synced dir e3, Closed dir c]"]) auto
      qed
    qed
  qed
qed

text \<open>Every operation keeps to the phases.\<close>

lemma notes_phase_run: "phase_run (service_fd x) (party_operation x) Resting (notes_of x) Resting"
proof (cases "party_operation x")
  case (Get_op key)
  obtain res w' es' where run: "run_state (linux_get (recorded (party_storage x)) key) (party_world x, []) =
      (res, (w', es'))" by (metis surj_pair)
  from linux_get_notes [OF run] have "\<forall>e\<in>set es'. quiet e" by auto
  with run Get_op show ?thesis by (simp add: notes_of_def phase_run_quiet)
next
  case (Set_op key c)
  obtain res w' es' where run: "run_state (linux_set (recorded (party_storage x)) key c) (party_world x, []) =
      (res, (w', es'))" by (metis surj_pair)
  obtain pre mid post where
    es: "es' = pre @ mid @ post" and q: "\<forall>x\<in>set pre. quiet x" "\<forall>x\<in>set post. quiet x"
    and "mid = [] \<or> (\<exists>d r. fst (run_state (openServiceDirectory (party_storage x) True) (party_world x)) = Inr d
        \<and> replacement d (fs_identifier keyDomain key) c r mid)"
    using linux_set_notes [OF run] unfolding append_Nil by blast
  then have mid: "mid = [] \<or> (\<exists>r. replacement (service_fd x) (fs_identifier keyDomain key) c r mid)"
    by (auto simp: service_fd_def Set_op)
  have "phase_run (service_fd x) (Set_op key c) Resting mid Resting"
    using mid phase_run_replacement by (blast intro: done_run)
  with q have "phase_run (service_fd x) (Set_op key c) Resting es' Resting"
    unfolding es by (blast intro: phase_run_append phase_run_quiet)
  with run Set_op show ?thesis by (simp add: notes_of_def)
next
  case (Delete_op key)
  obtain res w' es' where run: "run_state (linux_delete (recorded (party_storage x)) key) (party_world x, []) =
      (res, (w', es'))" by (metis surj_pair)
  obtain pre post where
    q: "\<forall>x\<in>set pre. quiet x" "\<forall>x\<in>set post. quiet x"
    and "es' = pre @ post \<or> (\<exists>d. fst (run_state (openServiceDirectory (party_storage x) False) (party_world x)) = Inr d
        \<and> es' = pre @ Unlinked d (fs_identifier keyDomain key) 0 None # post)"
    using linux_delete_notes [OF run] unfolding append_Nil by metis
  then have es: "es' = pre @ post
      \<or> es' = pre @ Unlinked (service_fd x) (fs_identifier keyDomain key) 0 None # post"
    by (auto simp: service_fd_def Delete_op)
  have "phase_run (service_fd x) (Delete_op key) Resting es' Resting"
    using es q phase_run_quiet [of pre] phase_run_quiet [of post]
    by (blast intro: phase_run_append step_run delete)
  with run Delete_op show ?thesis by (simp add: notes_of_def)
qed

section \<open>The invariant\<close>

text \<open>
  A party that is writing owns its temporary name and the inode behind it: no other name leads
  there, its descriptor does, and the file holds what was accepted so far.
\<close>

fun owned :: "phase \<Rightarrow> string option" where
  "owned Resting = None"
| "owned (Writing t fd acc) = Some t"
| "owned (Staged t acc) = Some t"

definition private_file :: "shared \<Rightarrow> string \<Rightarrow> nat \<Rightarrow> bytes \<Rightarrow> bool" where
  "private_file w t i acc \<longleftrightarrow> temporary_name t \<and> entries w t = Some i \<and> files w i = acc
     \<and> (\<forall>n. entries w n = Some i \<longrightarrow> n = t)"

fun holds :: "phase \<Rightarrow> nat \<Rightarrow> shared \<Rightarrow> bool" where
  "holds Resting p w \<longleftrightarrow> True"
| "holds (Writing t fd acc) p w \<longleftrightarrow> (\<exists>i. private_file w t i acc \<and> tables w p fd = Some i)"
| "holds (Staged t acc) p w \<longleftrightarrow> (\<exists>i. private_file w t i acc)"

definition fresh_shared :: "shared \<Rightarrow> bool" where
  "fresh_shared w \<longleftrightarrow> (\<forall>n i. entries w n = Some i \<longrightarrow> i < fresh_inode w)"

definition coherent :: "(nat \<Rightarrow> phase) \<Rightarrow> shared \<Rightarrow> bool" where
  "coherent ph w \<longleftrightarrow> fresh_shared w \<and> (\<forall>p. holds (ph p) p w)
     \<and> (\<forall>p q t. owned (ph p) = Some t \<longrightarrow> owned (ph q) = Some t \<longrightarrow> p = q)"

lemma coherent_fresh: "coherent ph w \<Longrightarrow> entries w n = Some i \<Longrightarrow> i < fresh_inode w"
  by (simp add: coherent_def fresh_shared_def)

lemma coherent_holds: "coherent ph w \<Longrightarrow> holds (ph p) p w"
  by (simp add: coherent_def)

lemma coherent_unique: "coherent ph w \<Longrightarrow> owned (ph p) = Some t \<Longrightarrow> owned (ph q) = Some t \<Longrightarrow> p = q"
  unfolding coherent_def by blast

lemma coherentI:
  assumes "\<And>n i. entries w n = Some i \<Longrightarrow> i < fresh_inode w" "\<And>p. holds (ph p) p w"
    "\<And>p q t. owned (ph p) = Some t \<Longrightarrow> owned (ph q) = Some t \<Longrightarrow> p = q"
  shows "coherent ph w"
  using assms unfolding coherent_def fresh_shared_def by blast

text \<open>An inode that nobody will write to again.\<close>

definition sealed :: "(nat \<Rightarrow> phase) \<Rightarrow> shared \<Rightarrow> nat \<Rightarrow> bool" where
  "sealed ph w i \<longleftrightarrow> i < fresh_inode w \<and> (\<forall>p t. owned (ph p) = Some t \<longrightarrow> entries w t \<noteq> Some i)"

lemma coherent_start: "fresh_shared w \<Longrightarrow> coherent (\<lambda>_. Resting) w"
  by (simp add: coherent_def)

lemma owned_private:
  assumes "coherent ph w" "owned (ph p) = Some t"
  obtains i acc where "private_file w t i acc"
  using assms(2) coherent_holds [OF assms(1), of p] by (cases "ph p") auto

lemma public_sealed:
  assumes "coherent ph w" "entries w n = Some i" "\<not> temporary_name n"
  shows "sealed ph w i"
proof -
  have "entries w t \<noteq> Some i" if t: "owned (ph p) = Some t" for p t
  proof -
    obtain j acc where "private_file w t j acc" using owned_private [OF assms(1) t] .
    then show ?thesis using assms(2,3) by (auto simp: private_file_def)
  qed
  then show ?thesis using assms by (auto simp: sealed_def coherent_def fresh_shared_def)
qed

text \<open>What another party holds is untouched when its name, its inode and its table are.\<close>

lemma holds_same:
  assumes "holds a q w" "tables w' q = tables w q"
    and "\<And>t i. owned a = Some t \<Longrightarrow> entries w t = Some i \<Longrightarrow> entries w' t = Some i \<and> files w' i = files w i
      \<and> (\<forall>n. entries w' n = Some i \<longrightarrow> entries w n = Some i)"
  shows "holds a q w'"
proof -
  have same: "private_file w' t i acc" if "owned a = Some t" "private_file w t i acc" for t i acc
    using assms(3) [OF that(1), of i] that(2) by (simp add: private_file_def)
  show ?thesis
  proof (cases a)
    case (Writing t fd acc)
    then obtain i where "private_file w t i acc" "tables w q fd = Some i" using assms(1) by auto
    then show ?thesis using Writing same [of t i acc] assms(2) by auto
  next
    case (Staged t acc)
    then obtain i where "private_file w t i acc" using assms(1) by auto
    then show ?thesis using Staged same [of t i acc] by auto
  qed simp
qed

lemma act_fields [simp]:
  "entries (act d p e w) = names (effect d e (seen_by p w))"
  "files (act d p e w) = inodes (effect d e (seen_by p w))"
  "fresh_inode (act d p e w) = next_inode (effect d e (seen_by p w))"
  "tables (act d p e w) p = handles (effect d e (seen_by p w))"
  "q \<noteq> p \<Longrightarrow> tables (act d p e w) q = tables w q"
  "offsets (act d p e w) p = advance e (offsets w p)"
  "q \<noteq> p \<Longrightarrow> offsets (act d p e w) q = offsets w q"
  by (simp_all add: act_def Let_def)

lemma seen_by_fields [simp]:
  "names (seen_by p w) = entries w" "inodes (seen_by p w) = files w"
  "handles (seen_by p w) = tables w p" "next_inode (seen_by p w) = fresh_inode w"
  by (simp_all add: seen_by_def)

text \<open>The effect of a step on the shared directory, by the kind of the step.\<close>

definition good_step :: "(nat \<Rightarrow> phase) \<Rightarrow> shared \<Rightarrow> (nat \<Rightarrow> phase) \<Rightarrow> shared \<Rightarrow> bool" where
  "good_step ph w ph' w' \<longleftrightarrow> coherent ph' w'
     \<and> (\<forall>i. sealed ph w i \<longrightarrow> sealed ph' w' i \<and> files w' i = files w i)"

lemma commit_quiet: "quiet e \<Longrightarrow> commit x e m = m"
  by (cases "(x, e, m)" rule: commit.cases) (auto simp: quiet_def)

lemma step_rest:
  assumes "coherent ph w" "holds (ph p) p w'" "entries w' = entries w" "files w' = files w"
    "fresh_inode w' = fresh_inode w" "\<And>q. q \<noteq> p \<Longrightarrow> tables w' q = tables w q"
  shows "good_step ph w ph w'"
proof -
  have "holds (ph q) q w'" for q
  proof (cases "q = p")
    case False
    show ?thesis using assms(3,4)
      by (intro holds_same [OF coherent_holds [OF assms(1)] assms(6) [OF False]]) simp
  qed (simp add: assms(2))
  then have "coherent ph w'"
    using coherent_fresh [OF assms(1)] coherent_unique [OF assms(1)] assms(3,5)
    by (intro coherentI) simp_all
  then show ?thesis using assms(3-5) by (simp add: good_step_def sealed_def)
qed

lemma step_create:
  assumes c: "coherent ph w" and p: "ph p = Resting" and t: "temporary_name t" "entries w t = None"
    and w': "entries w' = (entries w)(t \<mapsto> fresh_inode w)" "files w' = (files w)(fresh_inode w := [])"
      "fresh_inode w' = Suc (fresh_inode w)" "tables w' p fd = Some (fresh_inode w)"
      "\<And>q. q \<noteq> p \<Longrightarrow> tables w' q = tables w q"
  shows "good_step ph w (ph(p := Writing t fd [])) w'"
proof -
  let ?ph = "ph(p := Writing t fd [])"
  note fresh = coherent_fresh [OF c]
  have others: "owned (ph q) \<noteq> Some t" for q
    using t(2) owned_private [OF c] by (metis option.distinct(1) private_file_def)
  have "holds (?ph q) q w'" for q
  proof (cases "q = p")
    case True
    have "private_file w' t (fresh_inode w) []"
      using t w' fresh by (auto simp: private_file_def split: if_splits)
    with True w' show ?thesis by auto
  next
    case False
    have "holds (ph q) q w'"
    proof (rule holds_same [OF coherent_holds [OF c] w'(5) [OF False]])
      fix u i assume u: "owned (ph q) = Some u" "entries w u = Some i"
      have "u \<noteq> t" using u(1) others by auto
      then show "entries w' u = Some i \<and> files w' i = files w i
          \<and> (\<forall>n. entries w' n = Some i \<longrightarrow> entries w n = Some i)"
        using u(2) fresh [OF u(2)] w'(1,2) by simp
    qed
    with False show ?thesis by simp
  qed
  moreover have "i < fresh_inode w'" if "entries w' n = Some i" for n i
    using that fresh [of n i] w'(1,3) by (auto split: if_splits)
  moreover have "a = b" if "owned (?ph a) = Some u" "owned (?ph b) = Some u" for a b u
    using that others coherent_unique [OF c, of a u b] by (auto split: if_splits)
  ultimately have "coherent ?ph w'" by (intro coherentI)
  moreover have "sealed ?ph w' i \<and> files w' i = files w i" if s: "sealed ph w i" for i
  proof -
    have "i \<noteq> fresh_inode w" "\<And>u q. owned (ph q) = Some u \<Longrightarrow> entries w u \<noteq> Some i"
      using s by (auto simp: sealed_def)
    then have "entries w' u \<noteq> Some i" if "owned (?ph q) = Some u" for q u
      using that w'(1) by (auto split: if_splits)
    then show ?thesis using s w'(2,3) by (simp add: sealed_def)
  qed
  ultimately show ?thesis by (simp add: good_step_def)
qed

text \<open>A step that changes only the private file of the party, or nothing.\<close>

lemma step_write:
  assumes c: "coherent ph w" and p: "ph p = Writing t fd acc" and i: "entries w t = Some i"
    and b: "owned b = Some t" "holds b p w'"
    and w': "entries w' = entries w" "\<And>j. j \<noteq> i \<Longrightarrow> files w' j = files w j"
      "fresh_inode w' = fresh_inode w" "\<And>q. q \<noteq> p \<Longrightarrow> tables w' q = tables w q"
  shows "good_step ph w (ph(p := b)) w'"
proof -
  let ?ph = "ph(p := b)"
  have own: "owned (?ph q) = owned (ph q)" for q using p b by simp
  have "holds (?ph q) q w'" for q
  proof (cases "q = p")
    case False
    have "j \<noteq> i" if q: "owned (ph q) = Some u" "entries w u = Some j" for u j
    proof
      assume "j = i"
      moreover obtain k a where "private_file w t k a" using owned_private [OF c, of p t] p by auto
      ultimately have "u = t" using i q(2) by (auto simp: private_file_def)
      then show False using q(1) p False coherent_unique [OF c, of q t p] by simp
    qed
    then have "holds (ph q) q w'" using w'(1,2)
      by (intro holds_same [OF coherent_holds [OF c] w'(4) [OF False]]) simp
    with False show ?thesis by simp
  qed (simp add: b)
  moreover have "j < fresh_inode w'" if "entries w' n = Some j" for n j
    using that coherent_fresh [OF c, of n j] w'(1,3) by simp
  moreover have "q = r" if "owned (?ph q) = Some u" "owned (?ph r) = Some u" for q r u
    using that coherent_unique [OF c] unfolding own by blast
  ultimately have "coherent ?ph w'" by (intro coherentI)
  moreover have "sealed ?ph w' j \<and> files w' j = files w j" if s: "sealed ph w j" for j
  proof -
    have "owned (ph p) = Some t" using p by simp
    then have "j \<noteq> i" using s i unfolding sealed_def by blast
    then show ?thesis using s w' unfolding sealed_def own by simp
  qed
  ultimately show ?thesis by (simp add: good_step_def)
qed

text \<open>
  The end of a temporary name: it is removed, or the inode moves to a credential's name, or it
  stays and belongs to nobody.
\<close>

lemma step_settle:
  assumes c: "coherent ph w" and p: "ph p = Staged t acc" and i: "entries w t = Some i"
    and w': "files w' = files w" "fresh_inode w' = fresh_inode w" "\<And>q. q \<noteq> p \<Longrightarrow> tables w' q = tables w q"
    and e: "entries w' = entries w \<or> entries w' = (entries w)(t := None)
      \<or> (\<exists>n. \<not> temporary_name n \<and> entries w' = (entries w)(n \<mapsto> i, t := None))"
  shows "good_step ph w (ph(p := Resting)) w'"
proof -
  let ?ph = "ph(p := Resting)"
  obtain acc' where priv: "private_file w t i acc'"
    using owned_private [OF c, of p t] p i by (auto simp: private_file_def)
  have other: "u \<noteq> t \<and> temporary_name u \<and> entries w u \<noteq> Some i"
    if q: "q \<noteq> p" "owned (ph q) = Some u" for q u
  proof -
    have "u \<noteq> t" using q p coherent_unique [OF c, of q t p] by auto
    moreover obtain j a where "private_file w u j a" using owned_private [OF c q(2)] .
    ultimately show ?thesis using priv by (auto simp: private_file_def)
  qed
  have keep: "entries w' u = entries w u" if "u \<noteq> t" "temporary_name u" for u
    using e that by auto
  have from_old: "entries w n = Some j" if "entries w' n = Some j" "j \<noteq> i" for n j
    using e that by (auto split: if_splits)
  have "holds (?ph q) q w'" for q
  proof (cases "q = p")
    case False
    have "holds (ph q) q w'"
    proof (rule holds_same [OF coherent_holds [OF c] w'(3) [OF False]])
      fix u j assume u: "owned (ph q) = Some u" "entries w u = Some j"
      have "u \<noteq> t" "temporary_name u" "j \<noteq> i" using other [OF False u(1)] u(2) by auto
      then show "entries w' u = Some j \<and> files w' j = files w j
          \<and> (\<forall>n. entries w' n = Some j \<longrightarrow> entries w n = Some j)"
        using keep [of u] from_old [of _ j] w'(1) u(2) by simp
    qed
    with False show ?thesis by simp
  qed simp
  moreover have "j < fresh_inode w'" if "entries w' n = Some j" for n j
  proof (cases "j = i")
    case True
    then show ?thesis using coherent_fresh [OF c i] w'(2) by simp
  next
    case False
    then show ?thesis using coherent_fresh [OF c from_old [OF that]] w'(2) by simp
  qed
  moreover have "q = r" if "owned (?ph q) = Some u" "owned (?ph r) = Some u" for q r u
    using that coherent_unique [OF c, of q u r] by (auto split: if_splits)
  ultimately have "coherent ?ph w'" by (intro coherentI)
  moreover have "sealed ?ph w' j \<and> files w' j = files w j" if s: "sealed ph w j" for j
  proof -
    have "entries w' u \<noteq> Some j" if "owned (?ph q) = Some u" for q u
    proof -
      have q: "q \<noteq> p" "owned (ph q) = Some u" using that by (auto split: if_splits)
      then have "entries w u \<noteq> Some j" using s unfolding sealed_def by blast
      then show ?thesis using other [OF q] keep [of u] by simp
    qed
    then show ?thesis using s w' by (simp add: sealed_def)
  qed
  ultimately show ?thesis by (simp add: good_step_def)
qed

text \<open>Removing a credential.\<close>

lemma step_delete:
  assumes c: "coherent ph w" and p: "ph p = Resting" and n: "\<not> temporary_name n"
    and w': "entries w' = (entries w)(n := None)" "files w' = files w" "fresh_inode w' = fresh_inode w"
      "\<And>q. q \<noteq> p \<Longrightarrow> tables w' q = tables w q"
  shows "good_step ph w ph w'"
proof -
  have temp: "temporary_name u" if "owned (ph q) = Some u" for q u
    using owned_private [OF c that] by (auto simp: private_file_def)
  have "holds (ph q) q w'" for q
  proof (cases "q = p")
    case False
    show ?thesis
    proof (rule holds_same [OF coherent_holds [OF c] w'(4) [OF False]])
      fix u j assume u: "owned (ph q) = Some u" "entries w u = Some j"
      then have "u \<noteq> n" using temp n by auto
      then show "entries w' u = Some j \<and> files w' j = files w j
          \<and> (\<forall>n. entries w' n = Some j \<longrightarrow> entries w n = Some j)"
        using u(2) w'(1,2) by simp
    qed
  qed (simp add: p)
  moreover have "j < fresh_inode w'" if "entries w' m = Some j" for m j
    using that coherent_fresh [OF c, of m j] w'(1,3) by (auto split: if_splits)
  ultimately have "coherent ph w'" using coherent_unique [OF c] by (intro coherentI)
  moreover have "sealed ph w' i" if "sealed ph w i" for i
    using that w'(1,3) unfolding sealed_def by simp
  ultimately show ?thesis using w' by (simp add: good_step_def)
qed

section \<open>Every call keeps the invariant\<close>

lemma view_same:
  assumes "coherent ph w" "good_step ph w ph' w'" "\<not> temporary_name n" "entries w' n = entries w n"
  shows "shared_view w' n = shared_view w n"
  using assms public_sealed [OF assms(1), of n]
  by (cases "entries w n") (auto simp: shared_view_def good_step_def)

lemma act_quiet:
  assumes "quiet e"
  shows "entries (act d p e w) = entries w" "files (act d p e w) = files w"
    "fresh_inode (act d p e w) = fresh_inode w"
  using quiet_effect [OF assms, of "seen_by p w" d] by (simp_all add: same_files_def)

lemma phase_step_good:
  assumes c: "coherent ph w" and step: "phase_step d x a e b" and p: "ph p = a"
    and law: "lawful d p e w"
  shows "good_step ph w (ph(p := b)) (act d p e w)
     \<and> (\<forall>n. \<not> temporary_name n \<longrightarrow> shared_view (act d p e w) n = commit x e (shared_view w) n)"
proof -
  let ?w = "act d p e w"
  have unchanged: ?thesis if "good_step ph w (ph(p := b)) ?w"
      "\<And>n. \<not> temporary_name n \<Longrightarrow> entries ?w n = entries w n" "commit x e (shared_view w) = shared_view w"
    using that view_same [OF c that(1)] by simp
  have same: "ph(p := Resting) = ph" if "a = Resting" using p that by auto
  have own: ?thesis if a: "a = Writing t fd acc" and b: "owned b = Some t" "commit x e (shared_view w) = shared_view w"
      "\<And>i. private_file w t i acc \<Longrightarrow> tables w p fd = Some i \<Longrightarrow> holds b p ?w \<and> entries ?w = entries w
        \<and> fresh_inode ?w = fresh_inode w \<and> (\<forall>j. j \<noteq> i \<longrightarrow> files ?w j = files w j)" for t fd acc
  proof -
    have "holds (ph p) p w" using c by (rule coherent_holds)
    then obtain i where i: "private_file w t i acc" "tables w p fd = Some i" unfolding p a by auto
    note w = b(3) [OF i]
    have "good_step ph w (ph(p := b)) ?w"
      by (rule step_write [OF c p [unfolded a], of i]) (use w i b(1) in \<open>simp_all add: private_file_def\<close>)
    then show ?thesis by (rule unchanged) (use w b(2) in simp_all)
  qed
  have settled: "\<exists>i. private_file w t i acc" if "a = Staged t acc" for t acc
    using coherent_holds [OF c, of p] unfolding p that by simp
  from step show ?thesis
  proof cases
    case rest
    have "good_step ph w (ph(p := b)) ?w"
      unfolding rest(2) same [OF rest(1)]
      by (rule step_rest [OF c, where p = p]) (simp_all add: p rest(1) act_quiet [OF rest(3)] del: act_fields(1-4))
    then show ?thesis
      by (rule unchanged) (simp_all add: act_quiet [OF rest(3)] commit_quiet [OF rest(3)] del: act_fields(1-4))
  next
    case (create t fd)
    have t: "entries w t = None" using law by (simp add: create(2) temporary_flags_def)
    have "good_step ph w (ph(p := b)) ?w" unfolding create(3)
      by (rule step_create [OF c p [unfolded create(1)] create(4) t])
        (simp_all add: create(2) temporary_flags_def)
    then show ?thesis
      by (rule unchanged) (use create(4) in \<open>auto simp: create(2) temporary_flags_def\<close>)
  next
    case (chmod t fd acc m r)
    show ?thesis by (rule own [OF chmod(1)]) (auto simp: chmod(2,3) private_file_def)
  next
    case (accept t fd acc k n r)
    show ?thesis by (rule own [OF accept(1)]) (auto simp: accept(2,3) private_file_def)
  next
    case (sync t fd acc r)
    show ?thesis by (rule own [OF sync(1)]) (auto simp: sync(2,3) private_file_def)
  next
    case (close t fd acc r)
    show ?thesis by (rule own [OF close(1)]) (auto simp: close(2,3) private_file_def)
  next
    case (replace key k t)
    let ?n = "fs_identifier keyDomain key"
    obtain i where i: "private_file w t i k" using settled [OF replace(1)] by blast
    then have t: "t \<noteq> ?n" "entries w t = Some i" "files w i = k"
      using identifier_not_temporary [of keyDomain key] by (auto simp: private_file_def)
    have good: "good_step ph w (ph(p := b)) ?w" unfolding replace(3)
      by (rule step_settle [OF c p [unfolded replace(1)] t(2)])
        (use t identifier_not_temporary [of keyDomain key] in \<open>auto simp: replace(2)\<close>)
    have "shared_view ?w n = commit x e (shared_view w) n" if n: "\<not> temporary_name n" for n
    proof (cases "n = ?n")
      case True
      then show ?thesis using t by (simp add: replace(2,4) shared_view_def)
    next
      case False
      have "n \<noteq> t" using n i by (auto simp: private_file_def)
      then have "shared_view ?w n = shared_view w n"
        using False by (intro view_same [OF c good n]) (simp add: replace(2))
      then show ?thesis using False by (simp add: replace(2,4))
    qed
    with good show ?thesis by blast
  next
    case (keep t acc n r)
    have "good_step ph w (ph(p := b)) ?w"
      using step_rest [OF c, of p ?w] coherent_holds [OF c, of p] p
      by (simp add: keep(1-3) private_file_def fun_upd_idem)
    then show ?thesis by (rule unchanged) (simp_all add: keep(2))
  next
    case (remove key k t acc r)
    obtain i where i: "private_file w t i acc" using settled [OF remove(1)] by blast
    have good: "good_step ph w (ph(p := b)) ?w" unfolding remove(3)
      by (rule step_settle [OF c p [unfolded remove(1)], of i])
        (use i in \<open>cases r; simp add: remove(2) private_file_def\<close>)+
    then show ?thesis
      by (rule unchanged) (use i in \<open>cases r; auto simp: remove(2,4) private_file_def\<close>)+
  next
    case (delete key)
    let ?n = "fs_identifier keyDomain key"
    have good: "good_step ph w (ph(p := b)) ?w" unfolding delete(3) same [OF delete(1)]
      by (rule step_delete [OF c p [unfolded delete(1)] identifier_not_temporary [of keyDomain key]])
        (simp_all add: delete(2))
    have "shared_view ?w n = commit x e (shared_view w) n" if n: "\<not> temporary_name n" for n
    proof (cases "n = ?n")
      case True
      then show ?thesis by (simp add: delete(2,4) shared_view_def)
    next
      case False
      then have "shared_view ?w n = shared_view w n"
        by (intro view_same [OF c good n]) (simp add: delete(2))
      then show ?thesis using False by (simp add: delete(2,4))
    qed
    with good show ?thesis by blast
  qed
qed

section \<open>Whole runs\<close>

definition following :: "(nat \<Rightarrow> 'w party) \<Rightarrow> (nat \<Rightarrow> phase) \<Rightarrow> (nat \<times> event) list \<Rightarrow> bool" where
  "following ps ph tr \<longleftrightarrow>
     (\<forall>p. \<exists>b. phase_run (service_fd (ps p)) (party_operation (ps p)) (ph p) (calls p tr) b)"

lemma interleaving_following:
  assumes "interleaving ps tr"
  shows "following ps (\<lambda>_. Resting) tr"
  unfolding following_def
proof
  fix p
  obtain rest where "notes_of (ps p) = calls p tr @ rest"
    using assms unfolding interleaving_all prefix_def by metis
  then show "\<exists>b. phase_run (service_fd (ps p)) (party_operation (ps p)) Resting (calls p tr) b"
    using notes_phase_run [of "ps p"] phase_run_prefix by metis
qed

lemma following_Cons:
  assumes "following ps ph ((p, e) # tr)"
  obtains b where "phase_step (service_fd (ps p)) (party_operation (ps p)) (ph p) e b"
    and "following ps (ph(p := b)) tr"
proof -
  obtain c where "phase_run (service_fd (ps p)) (party_operation (ps p)) (ph p) (e # calls p tr) c"
    using assms unfolding following_def by (metis calls_simps(2))
  then obtain b where b: "phase_step (service_fd (ps p)) (party_operation (ps p)) (ph p) e b"
      "phase_run (service_fd (ps p)) (party_operation (ps p)) b (calls p tr) c"
    by (auto elim: phase_run_ConsE)
  have "\<exists>c. phase_run (service_fd (ps q)) (party_operation (ps q)) ((ph(p := b)) q) (calls q tr) c" for q
    using assms [unfolded following_def, rule_format, of q] b(2) by (cases "q = p") auto
  then show ?thesis using that b(1) unfolding following_def by blast
qed

text \<open>
  After any part of a lawful run the directory is coherent, shows what the committed operations
  make of it, and has kept the contents of every file that was complete before.
\<close>

lemma run_coherent:
  assumes "coherent ph w" "following ps ph (tr @ tr')" "lawful_trace ps tr w"
  shows "\<exists>ph'. good_step ph w ph' (shared_replay ps tr w) \<and> following ps ph' tr'
     \<and> (\<forall>n. \<not> temporary_name n \<longrightarrow>
          shared_view (shared_replay ps tr w) n = serial ps tr (shared_view w) n)"
  using assms
proof (induction tr arbitrary: ph w)
  case Nil
  then show ?case by (auto simp: good_step_def)
next
  case (Cons pe tr)
  obtain p e where pe: "pe = (p, e)" by fastforce
  let ?w = "act (service_fd (ps p)) p e w" and ?x = "party_operation (ps p)"
  obtain b where b: "phase_step (service_fd (ps p)) ?x (ph p) e b" "following ps (ph(p := b)) (tr @ tr')"
    using Cons.prems(2) following_Cons unfolding pe append_Cons by blast
  have good: "good_step ph w (ph(p := b)) ?w"
    and view: "\<And>n. \<not> temporary_name n \<Longrightarrow> shared_view ?w n = commit ?x e (shared_view w) n"
    using phase_step_good [OF Cons.prems(1) b(1) refl] Cons.prems(3) by (simp_all add: pe)
  obtain ph' where ph': "good_step (ph(p := b)) ?w ph' (shared_replay ps tr ?w)" "following ps ph' tr'"
      "\<And>n. \<not> temporary_name n \<Longrightarrow> shared_view (shared_replay ps tr ?w) n = serial ps tr (shared_view ?w) n"
    using Cons.IH [OF _ b(2), of ?w] good Cons.prems(3) unfolding pe good_step_def lawful_trace.simps
    by blast
  have "good_step ph w ph' (shared_replay ps tr ?w)"
    using good ph'(1) unfolding good_step_def by metis
  moreover have "serial ps tr (shared_view ?w) n = serial ps tr (commit ?x e (shared_view w)) n"
    if "\<not> temporary_name n" for n
    using view [OF that] by (rule serial_cong)
  ultimately show ?case using ph'(2,3) by (auto simp: pe)
qed

section \<open>A reader among writers\<close>

text \<open>
  A descriptor on a sealed inode reads the contents the inode had, whatever the others do
  between the reads.
\<close>

lemma no_EOF_reads:
  assumes "lawful_trace ps tr w"
  shows "Was_read fd l (n, c, Some EOF) \<notin> set (calls p tr)"
  using assms
proof (induction tr arbitrary: w)
  case (Cons qe tr)
  then show ?case by (cases qe) auto
qed simp

lemma following_rest:
  assumes "following ps ph ((q, e) # tr)" "coherent ph w" "lawful (service_fd (ps q)) q e w"
  obtains ph' where "good_step ph w ph' (act (service_fd (ps q)) q e w)" "following ps ph' tr"
  using following_Cons [OF assms(1)] phase_step_good [OF assms(2) _ refl assms(3)] by metis

lemma reads_whole:
  assumes "coherent ph w" "following ps ph tr" "lawful_trace ps tr w"
    and "sealed ph w i" "files w i = v" "tables w p fd = Some i"
    and "offsets w p fd = length got" "got = take (length got) v"
    and "calls p tr = rd @ later" "read_whole fd got rd u" "\<forall>e\<in>set rd. \<exists>l r. e = Was_read fd l r"
  shows "u = v"
  using assms
proof (induction tr arbitrary: ph w got rd)
  case Nil
  then have "rd = []" by simp
  then show ?case using Nil.prems(10) by (simp add: read_whole_def)
next
  case (Cons qe tr)
  obtain q e where qe: "qe = (q, e)" by fastforce
  let ?w = "act (service_fd (ps q)) q e w"
  have law: "lawful (service_fd (ps q)) q e w" "lawful_trace ps tr ?w"
    using Cons.prems(3) by (simp_all add: qe)
  obtain ph' where ph': "good_step ph w ph' ?w" "following ps ph' tr"
    using following_rest [OF Cons.prems(2) [unfolded qe] Cons.prems(1) law(1)] .
  then have next_state: "coherent ph' ?w" "sealed ph' ?w i" "files ?w i = v"
    using Cons.prems(4,5) unfolding good_step_def by blast+
  show ?case
  proof (cases "q = p")
    case False
    show ?thesis
      by (rule Cons.IH [OF next_state(1) ph'(2) law(2) next_state(2,3)])
        (use Cons.prems(6-11) False in \<open>simp_all add: qe\<close>)
  next
    case True
    have "rd \<noteq> []" using Cons.prems(10) by (auto simp: read_whole_def)
    then obtain rd' where rd: "rd = e # rd'" "calls p tr = rd' @ later"
      using Cons.prems(9) by (cases rd) (auto simp: qe True)
    then obtain l n c err where e: "e = Was_read fd l (n, c, err)"
      using Cons.prems(11) by (metis list.set_intros(1) prod_cases3)
    have no_eof: "Was_read fd l (n, c, Some EOF) \<notin> set rd" for l n c
      using no_EOF_reads [OF Cons.prems(3), where p = p] Cons.prems(9) by auto
    obtain rs l' c' where rs: "rd = reads fd rs @ [Was_read fd l' (0, c', None)]" "absorbed got rs = u"
      using Cons.prems(10) no_eof unfolding read_whole_def by blast
    show ?thesis
    proof (cases rs)
      case Nil
      then have "e = Was_read fd l' (0, c', None)" "u = got" using rs rd(1) by auto
      then have "drop (length got) v = []"
        using law(1) Cons.prems(5-7) by (simp add: True Let_def)
      then show ?thesis using Cons.prems(8) \<open>u = got\<close> by simp
    next
      case (Cons r rs')
      then obtain n' c'' l'' where r: "r = (l'', n', c'')" by (metis prod_cases3)
      then have e': "e = Was_read fd l'' (n', c'', None)" "rd' = reads fd rs' @ [Was_read fd l' (0, c', None)]"
        using rs(1) rd(1) Cons by auto
      have n': "0 \<le> n'" "nat n' \<le> length (drop (length got) v)"
          "take (nat n') c'' = take (nat n') (drop (length got) v)"
        using law(1) Cons.prems(5-7) by (auto simp: e'(1) True Let_def)
      let ?got = "take (nat (int (length got) + n')) (got @ c'')"
      have len0: "length got \<le> length v" using Cons.prems(8) by (metis length_take min.cobounded1)
      have got: "?got = take (length got + nat n') v"
      proof -
        have "nat (int (length got) + n') = length got + nat n'" using n'(1) by simp
        then have "?got = got @ take (nat n') (drop (length got) v)" by (simp add: n'(3))
        also have "\<dots> = take (length got + nat n') v" by (metis Cons.prems(8) take_add)
        finally show ?thesis .
      qed
      then have len: "length ?got = length got + nat n'" using n'(2)
        unfolding got using len0 by simp
      have "read_whole fd ?got rd' u" using rs(2) e'(2) Cons r unfolding read_whole_def by auto
      then show ?thesis
        by (rule Cons.IH [OF next_state(1) ph'(2) law(2) next_state(2,3), of ?got rd', rotated 4])
          (use Cons.prems(6,7,11) rd e'(1) got len n'(1) in \<open>simp_all add: True\<close>)
    qed
  qed
qed

section \<open>Linearization points\<close>

text \<open>
  The result of a party, and what it says of the map before and after its operation: \<open>Get\<close> and
  \<open>Delete\<close> may also report that there is nothing.
\<close>

definition answered :: "'w party \<Rightarrow> (string \<rightharpoonup> bytes) \<Rightarrow> (string \<rightharpoonup> bytes) \<Rightarrow> bool" where
  "answered x m m' =
     (let s = recorded (party_storage x); w = (party_world x, []) in
      case party_operation x of
        Get_op key \<Rightarrow> m' = m \<and>
          (case fst (run_state (linux_get s key) w) of
             Inr v \<Rightarrow> m (fs_identifier keyDomain key) = Some v
           | Inl e \<Rightarrow> err_is e (Category ErrNotFound) \<and> m (fs_identifier keyDomain key) = None)
      | Set_op key contents \<Rightarrow> m' = m(fs_identifier keyDomain key \<mapsto> contents)
      | Delete_op key \<Rightarrow>
          (case fst (run_state (linux_delete s key) w) of
             None \<Rightarrow> m' = m(fs_identifier keyDomain key := None)
           | Some e \<Rightarrow> err_is e (Category ErrNotFound) \<and> m (fs_identifier keyDomain key) = None \<and> m' = m))"

text \<open>
  A party is settled when it succeeded, or found no credential in the directory. Other failures
  say nothing of the map.
\<close>

fun missing_open :: "event \<Rightarrow> bool" where
  "missing_open (Opened d n fl m (Inl e)) \<longleftrightarrow> err_is e ErrNotExist"
| "missing_open x \<longleftrightarrow> False"

definition settled :: "'w party \<Rightarrow> bool" where
  "settled x =
     (let s = recorded (party_storage x); w = (party_world x, []) in
      case party_operation x of
        Get_op key \<Rightarrow> list_ex missing_open (notes_of x)
          \<or> (case fst (run_state (linux_get s key) w) of Inr v \<Rightarrow> True | Inl e \<Rightarrow> False)
      | Set_op key contents \<Rightarrow> fst (run_state (linux_set s key contents) w) = None
      | Delete_op key \<Rightarrow> list_ex missing_open (notes_of x) \<or> fst (run_state (linux_delete s key) w) = None)"

definition silent :: "operation \<Rightarrow> event list \<Rightarrow> bool" where
  "silent x es \<longleftrightarrow> (\<forall>e\<in>set es. \<forall>m. commit x e m = m)"

lemma silent_simps [simp]:
  "silent x []" "silent x (e # es) \<longleftrightarrow> (\<forall>m. commit x e m = m) \<and> silent x es"
  "silent x (es @ es') \<longleftrightarrow> silent x es \<and> silent x es'"
  by (auto simp: silent_def)

lemma silent_quiet: "\<forall>e\<in>set es. quiet e \<Longrightarrow> silent x es"
  by (simp add: silent_def commit_quiet)

lemma silent_on_file: "on_file fd es \<Longrightarrow> silent x es"
  by (cases x) (auto simp: silent_def on_file_def)

lemma calls_split:
  assumes "calls p tr = es @ e # es'"
  shows "\<exists>tr1 tr2. tr = tr1 @ (p, e) # tr2 \<and> calls p tr1 = es \<and> calls p tr2 = es'"
  using assms
proof (induction tr arbitrary: es)
  case (Cons qe tr)
  obtain q f where qe: "qe = (q, f)" by fastforce
  show ?case
  proof (cases "q = p \<and> es = []")
    case True
    with Cons.prems show ?thesis by (intro exI [of _ "[]"] exI [of _ tr]) (simp add: qe)
  next
    case False
    then have "calls p tr = (if q = p then tl es else es) @ e # es'" "q = p \<Longrightarrow> es = f # tl es"
      using Cons.prems by (cases es; auto simp: qe split: if_splits)+
    with Cons.IH [OF this(1)] obtain tr1 tr2 where
      "tr = tr1 @ (p, e) # tr2" "calls p tr1 = (if q = p then tl es else es)" "calls p tr2 = es'" by blast
    with \<open>q = p \<Longrightarrow> es = f # tl es\<close> show ?thesis
      by (intro exI [of _ "qe # tr1"] exI [of _ tr2]) (auto simp: qe)
  qed
qed simp

lemma set_commits_once:
  assumes "run_state (linux_set (recorded s) key c) (w, []) = (None, (w', es))"
  shows "\<exists>es1 d t es2. es = es1 @ Renamed d t d (fs_identifier keyDomain key) None # es2
     \<and> silent x es1 \<and> silent x es2"
proof -
  let ?name = "fs_identifier keyDomain key"
  obtain pre mid post d where
    es: "es = pre @ mid @ post" and q: "\<forall>x\<in>set pre. quiet x" "\<forall>x\<in>set post. quiet x"
    and mid: "replacement d ?name c None mid"
    using linux_set_notes [OF assms] unfolding append_Nil by blast
  from mid show ?thesis
  proof cases
    case (replaced as t fd evs)
    have "silent x (pre @ as @ created d t fd # evs @ [Closed fd None])"
      using q(1) replaced(2) staged_on_file [OF replaced(4)]
      by (cases x) (simp_all add: silent_quiet attempts_quiet silent_on_file)
    moreover have "silent x (Synced d None # post)" using q(2) by (cases x) (simp_all add: silent_quiet)
    moreover have "es = (pre @ as @ created d t fd # evs @ [Closed fd None])
        @ Renamed d t d ?name None # (Synced d None # post)"
      by (simp add: es replaced(1))
    ultimately show ?thesis by blast
  qed
qed

text \<open>A \<open>Get\<close> that succeeds returns what the credential held when it was opened.\<close>

lemma get_reads_whole:
  assumes "interleaving ps tr" and "lawful_trace ps tr w" and "fresh_shared w"
    and Get_op: "party_operation (ps p) = Get_op key" and es: "calls p tr = es"
    and run: "run_state (linux_get (recorded (party_storage (ps p))) key) (party_world (ps p), []) =
      (Inr v, (w', es))"
  shows "\<exists>tr1 e tr2. tr = tr1 @ (p, e) # tr2
     \<and> serial ps tr1 (shared_view w) (fs_identifier keyDomain key) = Some v"
proof -
  let ?name = "fs_identifier keyDomain key"
  from linux_get_notes [OF run] obtain pre fd rd post where
    es': "es = pre @ Opened (service_fd (ps p)) ?name credential_flags 0 (Inr fd) # rd @ post" and
    rd: "read_whole fd [] rd v" "\<forall>e\<in>set rd. \<exists>l r. e = Was_read fd l r"
    by (fastforce simp: service_fd_def Get_op)
  let ?d = "service_fd (ps p)" let ?e = "Opened ?d ?name credential_flags 0 (Inr fd)"
  obtain tr1 tr2 where tr: "tr = tr1 @ (p, ?e) # tr2" "calls p tr1 = pre" "calls p tr2 = rd @ post"
    using calls_split es es' by metis
  let ?w1 = "shared_replay ps tr1 w" let ?w2 = "act ?d p ?e ?w1"
  have law: "lawful_trace ps tr1 w" "lawful ?d p ?e ?w1" "lawful_trace ps tr2 ?w2"
    using assms(2) unfolding tr(1) lawful_trace_append lawful_trace.simps by blast+
  obtain ph where ph: "good_step (\<lambda>_. Resting) w ph ?w1" "following ps ph ((p, ?e) # tr2)"
      "shared_view ?w1 ?name = serial ps tr1 (shared_view w) ?name"
    using run_coherent [OF coherent_start [OF assms(3)] _ law(1)] interleaving_following [OF assms(1)]
      identifier_not_temporary unfolding tr(1) by blast
  have c: "coherent ph ?w1" using ph(1) by (simp add: good_step_def)
  have flags: "O_EXCL \<notin> set credential_flags" "O_CREAT \<notin> set credential_flags"
    by (simp_all add: credential_flags_def)
  then obtain i where i: "entries ?w1 ?name = Some i" using law(2) by auto
  obtain ph' where ph': "good_step ph ?w1 ph' ?w2" "following ps ph' tr2"
    using following_rest [OF ph(2) c law(2)] .
  have sealed: "sealed ph' ?w2 i" "files ?w2 i = files ?w1 i" "coherent ph' ?w2"
    using ph'(1) public_sealed [OF c i identifier_not_temporary] by (auto simp: good_step_def)
  have "v = files ?w1 i"
    by (rule reads_whole [OF sealed(3) ph'(2) law(3) sealed(1,2) _ _ _ tr(3) rd]) (use flags i in simp_all)
  then have "serial ps tr1 (shared_view w) ?name = Some v" using ph(3) i by (simp add: shared_view_def)
  with tr(1) show ?thesis by blast
qed

text \<open>A credential that was reported missing was not in the map when it was looked for.\<close>

lemma missing_point:
  assumes "interleaving ps tr" "lawful_trace ps tr w" "fresh_shared w" "list_ex missing_open (calls p tr)"
    and "only_open (Some (service_fd (ps p))) name (calls p tr) P" "\<not> temporary_name name"
  shows "\<exists>tr1 e tr2 x. tr = tr1 @ (p, e) # tr2 \<and> serial ps tr1 (shared_view w) name = None
     \<and> err_is x ErrNotExist \<and> P x"
proof -
  obtain ev where ev: "ev \<in> set (calls p tr)" "missing_open ev" using assms(4) by (auto simp: list_ex_iff)
  from ev(2) obtain d n fl m x where x: "ev = Opened d n fl m (Inl x)" "err_is x ErrNotExist"
    by (cases ev rule: missing_open.cases) auto
  then have d: "d = service_fd (ps p)" "n = name" "fl = credential_flags" "P x"
    using assms(5) ev(1) unfolding only_open_def by blast+
  obtain es1 es2 where "calls p tr = es1 @ ev # es2" using ev(1) split_list by metis
  then obtain tr1 tr2 where tr: "tr = tr1 @ (p, ev) # tr2" using calls_split by metis
  let ?w1 = "shared_replay ps tr1 w"
  have law: "lawful_trace ps tr1 w" "lawful (service_fd (ps p)) p ev ?w1"
    using assms(2) unfolding tr lawful_trace_append lawful_trace.simps by blast+
  have "entries ?w1 name = None" using law(2) x d by (simp add: credential_flags_def)
  moreover have "shared_view ?w1 name = serial ps tr1 (shared_view w) name"
    using run_coherent [OF coherent_start [OF assms(3)] _ law(1)] interleaving_following [OF assms(1)]
      assms(6) unfolding tr by blast
  ultimately have "serial ps tr1 (shared_view w) name = None" by (simp add: shared_view_def)
  with tr x(2) d(4) show ?thesis by blast
qed

lemma only_open_service:
  assumes "only_open (opened_by (fst (run_state (openServiceDirectory (party_storage x) False) (party_world x)))) name es P"
    and "list_ex missing_open es" and "\<And>key c. party_operation x \<noteq> Set_op key c"
  shows "only_open (Some (service_fd x)) name es P"
proof -
  let ?r = "fst (run_state (openServiceDirectory (party_storage x) False) (party_world x))"
  obtain ev where ev: "ev \<in> set es" "missing_open ev" using assms(2) by (auto simp: list_ex_iff)
  then obtain d n fl m e where "ev = Opened d n fl m (Inl e)" by (cases ev rule: missing_open.cases) auto
  with assms(1) ev(1) have "opened_by ?r = Some d" unfolding only_open_def by blast
  then have "?r = Inr d" by (auto simp: opened_by_def split: sum.splits)
  then have "service_fd x = d"
    using assms(3) by (cases "party_operation x") (auto simp: service_fd_def)
  with assms(1) \<open>opened_by ?r = Some d\<close> show ?thesis by simp
qed

lemma classify_missing:
  "err_is e ErrNotExist \<Longrightarrow> err_is (classify_operation op True e) (Category ErrNotFound)"
  by (simp add: classify_operation_def)

text \<open>The conclusion for one party, and the three operations.\<close>

definition takes_effect :: "(nat \<Rightarrow> 'w party) \<Rightarrow> (nat \<times> event) list \<Rightarrow> shared \<Rightarrow> nat \<Rightarrow> bool" where
  "takes_effect ps tr w p \<longleftrightarrow> (\<exists>tr1 e tr2. tr = tr1 @ (p, e) # tr2
     \<and> answered (ps p) (serial ps tr1 (shared_view w)) (serial ps (tr1 @ [(p, e)]) (shared_view w))
     \<and> silent (party_operation (ps p)) (calls p tr1) \<and> silent (party_operation (ps p)) (calls p tr2))"

lemma takes_effectI:
  assumes "tr = tr1 @ (p, e) # tr2"
    and "answered (ps p) (serial ps tr1 (shared_view w)) (commit (party_operation (ps p)) e (serial ps tr1 (shared_view w)))"
    and "silent (party_operation (ps p)) (calls p tr1)" "silent (party_operation (ps p)) (calls p tr2)"
  shows "takes_effect ps tr w p"
  unfolding takes_effect_def
  using assms by (intro exI [of _ tr1] exI [of _ e] exI [of _ tr2]) simp

lemma takes_effect_silent:
  assumes "tr = tr1 @ (p, e) # tr2" "\<forall>x\<in>set (calls p tr). quiet x"
    and "answered (ps p) (serial ps tr1 (shared_view w)) (serial ps tr1 (shared_view w))"
  shows "takes_effect ps tr w p"
proof -
  have "silent (party_operation (ps p)) (calls p tr)" using assms(2) by (rule silent_quiet)
  with assms(1,3) show ?thesis by (intro takes_effectI [OF assms(1)]) simp_all
qed

lemma get_takes_effect:
  assumes run_ok: "interleaving ps tr" "lawful_trace ps tr w" "fresh_shared w"
    and all_calls: "calls p tr = notes_of (ps p)" and "settled (ps p)" and op: "party_operation (ps p) = Get_op key"
  shows "takes_effect ps tr w p"
proof -
  let ?n = "fs_identifier keyDomain key"
  obtain res w' es where run: "run_state (linux_get (recorded (party_storage (ps p))) key)
      (party_world (ps p), []) = (res, (w', es))" by (metis surj_pair)
  then have es: "calls p tr = es" using all_calls by (simp add: notes_of_def op)
  have q: "\<forall>x\<in>set (calls p tr). quiet x" using linux_get_notes [OF run] es by auto
  show ?thesis
  proof (cases "list_ex missing_open (calls p tr)")
    case False
    then obtain v where v: "res = Inr v"
      using assms(5) run all_calls by (auto simp: settled_def op split: sum.splits)
    from get_reads_whole [OF run_ok op es run [unfolded v]] obtain tr1 e tr2 where
      tr: "tr = tr1 @ (p, e) # tr2" "serial ps tr1 (shared_view w) ?n = Some v" by blast
    show ?thesis by (rule takes_effect_silent [OF tr(1) q]) (simp add: answered_def op run v tr(2))
  next
    case True
    then have "calls p tr \<noteq> []" by auto
    have "only_open (opened_by (fst (run_state (openServiceDirectory (party_storage (ps p)) False) (party_world (ps p)))))
        ?n es (\<lambda>e. res = Inl (classify_operation ''get credential'' True e))"
      using linux_get_notes [OF run] by auto
    from missing_point [OF run_ok True only_open_service [OF this [folded es] True] identifier_not_temporary] op
    obtain tr1 e tr2 x where tr: "tr = tr1 @ (p, e) # tr2" "serial ps tr1 (shared_view w) ?n = None"
        "err_is x ErrNotExist" "res = Inl (classify_operation ''get credential'' True x)"
      by auto
    show ?thesis
      by (rule takes_effect_silent [OF tr(1) q]) (simp add: answered_def op run tr(2-4) classify_missing)
  qed
qed

lemma set_takes_effect:
  assumes all_calls: "calls p tr = notes_of (ps p)" and "settled (ps p)" and op: "party_operation (ps p) = Set_op key c"
  shows "takes_effect ps tr w p"
proof -
  let ?e = "\<lambda>d t. Renamed d t d (fs_identifier keyDomain key) None"
  obtain res w' es where run: "run_state (linux_set (recorded (party_storage (ps p))) key c)
      (party_world (ps p), []) = (res, (w', es))" by (metis surj_pair)
  then have v: "res = None" and es: "calls p tr = es"
    using assms by (auto simp: settled_def notes_of_def op)
  obtain es1 d t es2 where e: "es = es1 @ ?e d t # es2" "silent (Set_op key c) es1" "silent (Set_op key c) es2"
    using set_commits_once [OF run [unfolded v]] by metis
  then obtain tr1 tr2 where tr: "tr = tr1 @ (p, ?e d t) # tr2" "calls p tr1 = es1" "calls p tr2 = es2"
    using calls_split es by metis
  show ?thesis by (rule takes_effectI [OF tr(1)]) (simp_all add: op answered_def tr(2,3) e(2,3))
qed

lemma delete_takes_effect:
  assumes run_ok: "interleaving ps tr" "lawful_trace ps tr w" "fresh_shared w"
    and all_calls: "calls p tr = notes_of (ps p)" and "settled (ps p)" and op: "party_operation (ps p) = Delete_op key"
  shows "takes_effect ps tr w p"
proof -
  let ?n = "fs_identifier keyDomain key" let ?e = "\<lambda>d. Unlinked d (fs_identifier keyDomain key) 0 None"
  let ?dir = "opened_by (fst (run_state (openServiceDirectory (party_storage (ps p)) False) (party_world (ps p))))"
  obtain res w' es where run: "run_state (linux_delete (recorded (party_storage (ps p))) key)
      (party_world (ps p), []) = (res, (w', es))" by (metis surj_pair)
  then have es: "calls p tr = es" using all_calls by (simp add: notes_of_def op)
  obtain pre post where q: "\<forall>x\<in>set pre. quiet x" "\<forall>x\<in>set post. quiet x"
    and e: "res \<noteq> None \<and> es = pre @ post \<or> (\<exists>d. es = pre @ ?e d # post)"
    and oo: "only_open ?dir ?n es
      (\<lambda>e. post = [] \<and> es = pre \<and> res = Some (classify_operation ''delete credential'' True e))"
    using linux_delete_notes [OF run] by auto
  show ?thesis
  proof (cases "list_ex missing_open (calls p tr)")
    case False
    then have "res = None" using assms(5) run all_calls by (auto simp: settled_def op)
    with e obtain d where d: "es = pre @ ?e d # post" by blast
    then obtain tr1 tr2 where tr: "tr = tr1 @ (p, ?e d) # tr2" "calls p tr1 = pre" "calls p tr2 = post"
      using calls_split es by metis
    show ?thesis
      by (rule takes_effectI [OF tr(1)]) (use q \<open>res = None\<close> in \<open>simp_all add: op answered_def run tr(2,3) silent_quiet\<close>)
  next
    case True
    from missing_point [OF run_ok True only_open_service [OF oo [folded es] True] identifier_not_temporary] op
    obtain tr1 e tr2 x where tr: "tr = tr1 @ (p, e) # tr2" "serial ps tr1 (shared_view w) ?n = None"
        "err_is x ErrNotExist" "calls p tr = pre" "res = Some (classify_operation ''delete credential'' True x)"
      by auto
    have "\<forall>x\<in>set (calls p tr). quiet x" using q(1) tr(4) by simp
    then show ?thesis
      by (rule takes_effect_silent [OF tr(1)]) (simp add: answered_def op run tr(2,3,5) classify_missing)
  qed
qed

section \<open>Properties\<close>

text \<open>C1 Any number of operations on one service directory, from any number of processes, interleaved
  in any way and cut off anywhere: at every moment the credentials are the ones that the renames
  of \<open>Set\<close> and the unlinks of \<open>Delete\<close> done so far, each putting or removing a whole value, make
  of the credentials at the start; and a file that a credential's name once led to keeps its
  contents for those who still have it open. The kernel's part is what \<open>lawful\<close> says of single
  calls; without \<open>O_EXCL\<close> the property is false.\<close>

theorem fs_operations_linearizable:
  assumes "interleaving ps (tr @ tr')" and "lawful_trace ps (tr @ tr') w" and "fresh_shared w"
    and "\<not> temporary_name n"
  shows "shared_view (shared_replay ps tr w) n = serial ps tr (shared_view w) n
     \<and> (\<forall>i. entries (shared_replay ps tr w) n = Some i \<longrightarrow>
          files (shared_replay ps (tr @ tr') w) i = files (shared_replay ps tr w) i)"
proof -
  let ?w = "shared_replay ps tr w"
  have law: "lawful_trace ps tr w" "lawful_trace ps tr' ?w" using assms(2) by simp_all
  obtain ph where ph: "good_step (\<lambda>_. Resting) w ph ?w" "following ps ph tr'"
      "shared_view ?w n = serial ps tr (shared_view w) n"
    using run_coherent [OF coherent_start [OF assms(3)] interleaving_following [OF assms(1)] law(1)] assms(4)
    by blast
  have c: "coherent ph ?w" using ph(1) by (simp add: good_step_def)
  obtain ph' where "good_step ph ?w ph' (shared_replay ps tr' ?w)"
    using run_coherent [OF c, of ps tr' "[]"] ph(2) law(2) by auto
  then show ?thesis using ph(3) public_sealed [OF c _ assms(4)] by (simp add: good_step_def)
qed

text \<open>C2 Every operation that succeeds, or finds no credential in the directory, takes effect at one of
  its own calls, among all the others: \<open>Get\<close> returns the whole value the credential had when the
  call opened it, however many times it was replaced while it was read, and reports \<open>ErrNotFound\<close>
  only if there was none; \<open>Set\<close> and \<open>Delete\<close> change the credential at one call and do nothing
  before or after it.\<close>

theorem fs_operations_take_effect:
  assumes "interleaving ps tr" and "lawful_trace ps tr w" and "fresh_shared w"
    and "calls p tr = notes_of (ps p)" and "settled (ps p)"
  shows "\<exists>tr1 e tr2. tr = tr1 @ (p, e) # tr2
     \<and> answered (ps p) (serial ps tr1 (shared_view w)) (serial ps (tr1 @ [(p, e)]) (shared_view w))
     \<and> silent (party_operation (ps p)) (calls p tr1) \<and> silent (party_operation (ps p)) (calls p tr2)"
proof (cases "party_operation (ps p)")
  case (Get_op key)
  have "takes_effect ps tr w p" by (rule get_takes_effect) (fact assms Get_op)+
  then show ?thesis unfolding takes_effect_def .
next
  case (Set_op key c)
  have "takes_effect ps tr w p" by (rule set_takes_effect) (fact assms Set_op)+
  then show ?thesis unfolding takes_effect_def .
next
  case (Delete_op key)
  have "takes_effect ps tr w p" by (rule delete_takes_effect) (fact assms Delete_op)+
  then show ?thesis unfolding takes_effect_def .
qed

section \<open>Witnesses\<close>

text \<open>
  While one process is still in \<open>Set\<close>, between renaming its file and syncing the directory, another
  opens the new credential; it reads it to the end after the first is done. The reader's world
  tells whether it has read before.
\<close>

definition reader_storage :: "bool linuxStorage" where
  "reader_storage = demo_storage
     \<lparr>system := (system demo_storage)
       \<lparr>sys_openFileAt := (\<lambda>_ _ _ _. ret (Inr 9)),
        sys_fstat := (\<lambda>_. ret (Inr \<lparr>st_mode = 0x8180, st_uid = 1000\<rparr>)),
        sys_read := (\<lambda>_ _. State (\<lambda>b. if b then ((0, [], None), b) else ((2, ''ab'', None), True)))\<rparr>\<rparr>"

definition reader_notes :: "event list" where
  "reader_notes =
     [Closed 4 None, Closed 3 None, Opened 5 (fs_identifier keyDomain ''k'') credential_flags 0 (Inr 9),
      Was_read 9 512 (2, ''ab'', None), Was_read 9 512 (0, [], None), Closed 9 None, Closed 5 None]"

lemma reader_run:
  "run_state (linux_get (recorded reader_storage) ''k'') (False, []) = (Inr ''ab'', (True, reader_notes))"
proof -
  have sys: "run_state (sys_openFileAt (system reader_storage) d n fl m) w = (Inr 9, w)"
      "run_state (sys_fstat (system reader_storage) d) w = (Inr \<lparr>st_mode = 0x8180, st_uid = 1000\<rparr>, w)"
      "run_state (sys_read (system reader_storage) d l) w =
        (if w then ((0, [], None), w) else ((2, ''ab'', None), True))"
      "run_state (sys_close (system reader_storage) d) w = (None, w)"
      "effectiveUID reader_storage = 1000" "loop_fuel reader_storage = Suc 9" "room reader_storage j = 511"
      for d n fl m l w j
    by (simp_all add: reader_storage_def demo_storage_def)
  have d: "run_state (openServiceDirectory (recorded reader_storage) False) (False, []) =
      (Inr 5, (False, [Closed 4 None, Closed 3 None]))"
    by (simp add: openServiceDirectory_def run_defer_close recorder reader_storage_def demo_calls)
  have c: "run_state (openCredential (recorded reader_storage) 5 n) (w, es) =
      (Inr 9, (w, es @ [Opened 5 n credential_flags 0 (Inr 9)]))" for n w es
    by (simp add: openCredential_def validateCredential_def recorder sys S_IFMT_def S_IFREG_def
        group_other_bits_def)
  have r: "run_state (ReadAll (descriptorReader_Read (recorded_system (system reader_storage)) 9)
      (room reader_storage) (Suc (Suc f)) []) (False, es) =
      (AllRead ''ab'' None, (True, es @ [Was_read 9 512 (2, ''ab'', None), Was_read 9 512 (0, [], None)]))" for f es
    by (simp add: descriptorReader_Read_def recorder sys Let_def)
  show ?thesis
    by (simp add: linux_get_def run_defer_close d c recorder sys)
      (simp add: r [of 8, simplified recorder, simplified] reader_notes_def recorder sys errors_Join_def)
qed

definition demo_parties :: "nat \<Rightarrow> bool party" where
  "demo_parties p =
     (if p = 0 then \<lparr>party_storage = demo_storage, party_operation = Set_op ''k'' ''ab'', party_world = False\<rparr>
      else \<lparr>party_storage = reader_storage, party_operation = Get_op ''k'', party_world = False\<rparr>)"

definition demo_trace :: "(nat \<times> event) list" where
  "demo_trace = map (Pair 1) (take 2 reader_notes) @ map (Pair 0) (take 10 demo_notes)
     @ map (Pair 1) (take 2 (drop 2 reader_notes)) @ map (Pair 0) (drop 10 demo_notes)
     @ map (Pair 1) (drop 4 reader_notes)"

definition demo_shared :: shared where
  "demo_shared = \<lparr>entries = Map.empty, files = (\<lambda>_. []), fresh_inode = 0,
     tables = (\<lambda>_. Map.empty), offsets = (\<lambda>_ _. 0)\<rparr>"

lemma demo_parties_notes:
  "notes_of (demo_parties 0) = demo_notes" "notes_of (demo_parties 1) = reader_notes"
  "service_fd (demo_parties 0) = 5" "service_fd (demo_parties 1) = 5"
  by (simp_all add: notes_of_def demo_parties_def demo_run reader_run service_fd_def)
    (simp_all add: openServiceDirectory_def run_defer_close demo_calls reader_storage_def)

lemma calls_pair [simp]: "calls p (map (Pair q) es) = (if p = q then es else [])"
  by (simp add: calls_def filter_map o_def)

lemma demo_calls_of: "calls 0 demo_trace = demo_notes" "calls 1 demo_trace = reader_notes"
  by (simp_all add: demo_trace_def demo_notes_def reader_notes_def)

lemma demo_interleaving: "interleaving demo_parties demo_trace"
proof -
  have "fst ` set demo_trace \<subseteq> {0, 1}" by (auto simp: demo_trace_def)
  then show ?thesis unfolding interleaving_def
    using demo_calls_of demo_parties_notes by auto
qed

lemma demo_fresh: "fresh_shared demo_shared"
  by (simp add: fresh_shared_def demo_shared_def)

lemma demo_name_differs: "demo_name \<noteq> fs_identifier d v"
  using identifier_not_temporary [of d v] unfolding demo_name_def temporary_name_def by metis

lemma demo_lawful: "lawful_trace demo_parties demo_trace demo_shared"
  using demo_name_differs [of keyDomain "''k''"]
  by (simp add: demo_trace_def reader_notes_def demo_notes_def demo_parties_notes
      demo_parties_notes [simplified] demo_shared_def Let_def credential_flags_def temporary_flags_def
      act_def seen_by_def del: act_fields seen_by_fields)

theorem fs_operations_linearizable_witness:
  "shared_view (shared_replay demo_parties demo_trace demo_shared) (fs_identifier keyDomain ''k'') = Some ''ab''
     \<and> files (shared_replay demo_parties demo_trace demo_shared) 0 = ''ab''"
proof -
  let ?n = "fs_identifier keyDomain ''k''" let ?t = "take 13 demo_trace"
  have split: "demo_trace = ?t @ drop 13 demo_trace" by simp
  have start: "entries (shared_replay demo_parties ?t demo_shared) ?n = Some 0"
      "files (shared_replay demo_parties ?t demo_shared) 0 = ''ab''"
    using demo_name_differs [of keyDomain "''k''"]
    by (simp_all add: demo_trace_def reader_notes_def demo_notes_def demo_parties_notes [simplified]
        demo_shared_def Let_def credential_flags_def temporary_flags_def act_def seen_by_def
        del: act_fields seen_by_fields)
  have "files (shared_replay demo_parties demo_trace demo_shared) 0 = ''ab''"
    using fs_operations_linearizable [of demo_parties ?t "drop 13 demo_trace" demo_shared ?n]
      demo_interleaving demo_lawful demo_fresh identifier_not_temporary start by simp
  moreover have "serial demo_parties demo_trace m ?n = Some ''ab''" for m
    by (simp add: demo_trace_def reader_notes_def demo_notes_def demo_parties_def)
  ultimately show ?thesis
    using fs_operations_linearizable [of demo_parties demo_trace "[]" demo_shared ?n]
      demo_interleaving demo_lawful demo_fresh identifier_not_temporary by simp
qed

theorem fs_operations_take_effect_witness:
  "\<exists>tr1 e tr2. demo_trace = tr1 @ (1, e) # tr2
     \<and> serial demo_parties tr1 (shared_view demo_shared) (fs_identifier keyDomain ''k'') = Some ''ab''"
proof -
  have "settled (demo_parties 1)" by (simp add: settled_def demo_parties_def reader_run)
  moreover have "calls 1 demo_trace = notes_of (demo_parties 1)"
    using demo_calls_of(2) demo_parties_notes(2) by metis
  ultimately obtain tr1 e tr2 where "demo_trace = tr1 @ (1, e) # tr2"
      "answered (demo_parties 1) (serial demo_parties tr1 (shared_view demo_shared))
         (serial demo_parties (tr1 @ [(1, e)]) (shared_view demo_shared))"
    using fs_operations_take_effect [OF demo_interleaving demo_lawful demo_fresh] by metis
  moreover have "answered (demo_parties 1) m m' \<Longrightarrow> m (fs_identifier keyDomain ''k'') = Some ''ab''" for m m'
    by (auto simp: answered_def demo_parties_def reader_run)
  ultimately show ?thesis by metis
qed

end
