(* ===== verification/Fake.thy ===== *)
theory Fake
  imports Keyringer
begin

text \<open>
  \<open>secure/fake\<close>: the in-memory keyring for tests. The struct is the world of its actions;
  its storage map may be nil and its service empty until the first operation calls \<open>init\<close>.
  The operations hold the keyring's mutex from after \<open>init\<close> to their end, so one operation
  is one step.
\<close>

record entry =
  entry_service :: string
  entry_username :: string

record fake =
  Err :: "go_error option"
  Service :: string
  storage :: "(entry \<rightharpoonup> bytes) option"

definition fake_init :: "fake \<Rightarrow> fake" where
  "fake_init k =
     (let k = (case storage k of None \<Rightarrow> k\<lparr>storage := Some Map.empty\<rparr> | Some _ \<Rightarrow> k)
      in if Service k = '''' then k\<lparr>Service := ''fake''\<rparr> else k)"

definition fake_key :: "fake \<Rightarrow> string \<Rightarrow> entry" where
  "fake_key k username = \<lparr>entry_service = Service k, entry_username = username\<rparr>"

text \<open>Reading a nil map finds nothing; writing one would panic, but \<open>init\<close> ran before.\<close>

definition storage_get :: "fake \<Rightarrow> entry \<Rightarrow> bytes option" where
  "storage_get k e = (case storage k of None \<Rightarrow> None | Some m \<Rightarrow> m e)"

definition fake_Get :: "fake ctx option \<Rightarrow> string \<Rightarrow> (fake, go_error + bytes) state" where
  "fake_Get ctx username = do {
     cerr \<leftarrow> ContextError ctx;
     (case cerr of
        Some err \<Rightarrow> ret (Inl err)
      | None \<Rightarrow> do {
          k0 \<leftarrow> State_Monad.get;
          let k = fake_init k0;
          State_Monad.set k;
          (case Err k of
             Some err \<Rightarrow> ret (Inl err)
           | None \<Rightarrow>
              (case storage_get k (fake_key k username) of
                 None \<Rightarrow> ret (Inl (Category ErrNotFound))
               | Some password \<Rightarrow> ret (Inr password)))
        })
   }"

definition fake_Set :: "fake ctx option \<Rightarrow> string \<Rightarrow> bytes \<Rightarrow> (fake, go_error option) state" where
  "fake_Set ctx username password = do {
     cerr \<leftarrow> ContextError ctx;
     (case cerr of
        Some err \<Rightarrow> ret (Some err)
      | None \<Rightarrow> do {
          k0 \<leftarrow> State_Monad.get;
          let k = fake_init k0;
          State_Monad.set k;
          (case Err k of
             Some err \<Rightarrow> ret (Some err)
           | None \<Rightarrow>
              (case storage k of
                 None \<Rightarrow> ret (Some (GoPanic ''assignment to entry in nil map''))
               | Some m \<Rightarrow> do {
                   State_Monad.set (k\<lparr>storage := Some (m(fake_key k username \<mapsto> password))\<rparr>);
                   ret None
                 }))
        })
   }"

definition fake_Delete :: "fake ctx option \<Rightarrow> string \<Rightarrow> (fake, go_error option) state" where
  "fake_Delete ctx username = do {
     cerr \<leftarrow> ContextError ctx;
     (case cerr of
        Some err \<Rightarrow> ret (Some err)
      | None \<Rightarrow> do {
          k0 \<leftarrow> State_Monad.get;
          let k = fake_init k0;
          State_Monad.set k;
          (case Err k of
             Some err \<Rightarrow> ret (Some err)
           | None \<Rightarrow>
              (case storage_get k (fake_key k username) of
                 None \<Rightarrow> ret (Some (Category ErrNotFound))
               | Some _ \<Rightarrow> do {
                   State_Monad.set
                     (k\<lparr>storage := map_option (\<lambda>m. m(fake_key k username := None)) (storage k)\<rparr>);
                   ret None
                 }))
        })
   }"

definition fake_keyringer :: "fake keyringer" where
  "fake_keyringer = \<lparr>kr_Get = fake_Get, kr_Set = fake_Set, kr_Delete = fake_Delete\<rparr>"

section \<open>The contract\<close>

text \<open>
  The view of the fake is the part of its map under its own service, by user name. The
  default service counts from the start, so \<open>init\<close> does not change the view.
\<close>

definition fake_service :: "fake \<Rightarrow> string" where
  "fake_service k = (if Service k = '''' then ''fake'' else Service k)"

definition fake_view :: "fake \<Rightarrow> string \<rightharpoonup> bytes" where
  "fake_view k username =
     storage_get k \<lparr>entry_service = fake_service k, entry_username = username\<rparr>"

definition fake_good :: "fake \<Rightarrow> bool" where
  "fake_good k \<longleftrightarrow> Err k = None"

lemma fake_init_simps [simp]:
  "Service (fake_init k) = fake_service k"
  "Err (fake_init k) = Err k"
  "storage_get (fake_init k) = storage_get k"
  "\<exists>m. storage (fake_init k) = Some m"
  "storage (fake_init k) \<noteq> None"
  by (auto simp: fake_init_def fake_service_def storage_get_def Let_def fun_eq_iff split: option.splits)

lemma fake_view_init [simp]: "fake_view (fake_init k) = fake_view k"
  by (auto simp: fake_view_def fun_eq_iff fake_service_def)

lemma fake_view_get: "fake_view k u = storage_get k (fake_key (fake_init k) u)"
  by (simp add: fake_view_def fake_key_def)

lemma fake_view_set:
  assumes "storage (fake_init k) = Some m"
  shows "fake_view ((fake_init k)\<lparr>storage := Some (m(fake_key (fake_init k) u := x))\<rparr>) =
     (fake_view k)(u := x)"
proof -
  have "storage_get (fake_init k) = m"
    unfolding storage_get_def using assms by (simp add: fun_eq_iff)
  then have "storage_get k = m" by simp
  then show ?thesis
    by (auto simp: fake_view_def fun_eq_iff fake_key_def fake_service_def storage_get_def)
qed

interpretation fake_store: keyringer_contract
  "fake_Get Background" "fake_Set Background" "fake_Delete Background"
  fake_view "\<lambda>u. u" fake_good "\<lambda>_. True" "\<lambda>_ _. True"
proof unfold_locales
  fix w :: fake and k :: string and v :: bytes
  obtain m where m: "storage (fake_init w) = Some m" using fake_init_simps(4) by blast
  assume g: "fake_good w"
  then have e: "Err w = None" by (simp add: fake_good_def)
  {
    assume "fake_view w k = Some v"
    with g e show "\<exists>w'. run_state (fake_Get Background k) w = (Inr v, w')
        \<and> fake_good w' \<and> fake_view w' = fake_view w"
      by (simp add: fake_Get_def fake_view_get fake_good_def)
  next
    assume "fake_view w k = None"
    with g e show "\<exists>e w'. run_state (fake_Get Background k) w = (Inl e, w')
        \<and> err_is e (Category ErrNotFound) \<and> fake_good w' \<and> fake_view w' = fake_view w"
      by (simp add: fake_Get_def fake_view_get fake_good_def)
  next
    from g e m show "\<exists>w'. run_state (fake_Set Background k v) w = (None, w')
        \<and> fake_good w' \<and> fake_view w' = (fake_view w)(k \<mapsto> v)"
      by (simp add: fake_Set_def Let_def fake_good_def fake_view_set)
  next
    assume "fake_view w k = Some v"
    with g e m show "\<exists>w'. run_state (fake_Delete Background k) w = (None, w')
        \<and> fake_good w' \<and> fake_view w' = (fake_view w)(k := None)"
      by (simp add: fake_Delete_def Let_def fake_view_get fake_good_def fake_view_set)
  next
    assume "fake_view w k = None"
    with g e show "\<exists>e w'. run_state (fake_Delete Background k) w = (Some e, w')
        \<and> err_is e (Category ErrNotFound) \<and> fake_good w' \<and> fake_view w' = fake_view w"
      by (simp add: fake_Delete_def fake_view_get fake_good_def)
  }
qed

section \<open>Properties\<close>

text \<open>Forced errors and a done context: the operation reports them and stores nothing.\<close>

lemma fake_forced_error:
  assumes "Err k = Some e"
  shows "run_state (fake_Get Background u) k = (Inl e, fake_init k)"
    and "run_state (fake_Set Background u v) k = (Some e, fake_init k)"
    and "run_state (fake_Delete Background u) k = (Some e, fake_init k)"
  using assms by (simp_all add: fake_Get_def fake_Set_def fake_Delete_def Let_def)

lemma fake_context_error:
  assumes "run_state (ContextError ctx) k = (Some e, k')"
  shows "run_state (fake_Get ctx u) k = (Inl e, k')"
    and "run_state (fake_Set ctx u v) k = (Some e, k')"
    and "run_state (fake_Delete ctx u) k = (Some e, k')"
  using assms by (simp_all add: fake_Get_def fake_Set_def fake_Delete_def)

text \<open>C29 The in-memory keyring implements the \<open>Keyringer\<close> contract: with no forced error, every
  sequence of \<open>Get\<close>, \<open>Set\<close> and \<open>Delete\<close> requests gives exactly the answers of a map from user
  names to values, starting from the keyring's own entries, and leaves the map's final state,
  also when the storage map and the service default are only created by the first request.\<close>

theorem fake_refines_map:
  assumes "Err k = None"
  shows "\<exists>k'. run_state
       (impl_run (fake_Get Background) (fake_Set Background) (fake_Delete Background) rs) k
         = (fst (spec_run (\<lambda>u. u) rs (fake_view k)), k')
     \<and> Err k' = None \<and> fake_view k' = snd (spec_run (\<lambda>u. u) rs (fake_view k))"
proof -
  have "acceptable (\<lambda>_. True) (\<lambda>_ _. True) r" for r :: "string request"
    by (cases r) simp_all
  then show ?thesis
    using fake_store.run_refines [of k rs "fst (spec_run (\<lambda>u. u) rs (fake_view k))"
        "snd (spec_run (\<lambda>u. u) rs (fake_view k))"] assms
    by (simp add: fake_good_def)
qed

theorem fake_refines_map_witness:
  "\<exists>k'. run_state
       (impl_run (fake_Get Background) (fake_Set Background) (fake_Delete Background)
          [Set_req ''u'' ''x'', Get_req ''u'', Delete_req ''u'', Get_req ''u''])
          \<lparr>Err = None, Service = [], storage = None\<rparr>
         = ([Done_ok, Value ''x'', Done_ok, Missing], k') \<and> fake_view k' ''u'' = None"
proof -
  have "fake_view \<lparr>Err = None, Service = [], storage = None\<rparr> = (\<lambda>_. None)"
    by (simp add: fun_eq_iff fake_view_def storage_get_def)
  then show ?thesis
    using fake_refines_map [of "\<lparr>Err = None, Service = [], storage = None\<rparr>"
        "[Set_req ''u'' ''x'', Get_req ''u'', Delete_req ''u'', Get_req ''u'']"]
    by (auto simp del: impl_run.simps)
qed

end
