(* ===== verification/Keychain.thy ===== *)
theory Keychain
  imports Darwin Keyringer
begin

text \<open>
  The Keychain adapter as an implementation of the \<open>Keyringer\<close> contract. What the \<open>security\<close>
  tool does with generic passwords is a locale: \<open>find-generic-password\<close> prints the password and
  a newline, a command on standard input is one line of quoted words, a missing item is
  reported in the output. Names are non-empty, without NUL, which no argument can carry, and
  without newline, which ends the command.
\<close>

definition keychain_name :: "string \<Rightarrow> bool" where
  "keychain_name s \<longleftrightarrow> s \<noteq> '''' \<and> CHR 0x00 \<notin> set s \<and> CHR 10 \<notin> set s"

section \<open>The tool\<close>

locale security_tool =
  fixes Quote :: "string \<Rightarrow> string"
    and run :: "'w commandFunc"
    and texts :: "'w \<Rightarrow> string \<times> string \<rightharpoonup> string"
  assumes finds: "\<And>w s a t. keychain_name s \<Longrightarrow> keychain_name a \<Longrightarrow> texts w (s, a) = Some t \<Longrightarrow> space_free t \<Longrightarrow>
      \<exists>w'. run_state (run Background None [''find-generic-password'', ''-s'', s, ''-wa'', a]) w =
          ((t @ [CHR 10], None), w') \<and> texts w' = texts w"
    and finds_nothing: "\<And>w s a. keychain_name s \<Longrightarrow> keychain_name a \<Longrightarrow> texts w (s, a) = None \<Longrightarrow>
      \<exists>out e w'. run_state (run Background None [''find-generic-password'', ''-s'', s, ''-wa'', a]) w =
          ((out, Some e), w') \<and> sublist ''could not be found'' out
        \<and> \<not> err_is e ExecErrNotFound \<and> \<not> err_is e ErrNotExist \<and> texts w' = texts w"
    and adds: "\<And>w s a t line. keychain_name s \<Longrightarrow> keychain_name a \<Longrightarrow> space_free t \<Longrightarrow>
      line = ''add-generic-password -U -s '' @ Quote s @ '' -a '' @ Quote a @ '' -w '' @ Quote t @ [CHR 10] \<Longrightarrow>
      length line \<le> 4096 \<Longrightarrow>
      \<exists>out w'. run_state (run Background (Some line) [''-i'']) w = ((out, None), w')
        \<and> texts w' = (texts w)((s, a) \<mapsto> t)"
    and removes: "\<And>w s a t. keychain_name s \<Longrightarrow> keychain_name a \<Longrightarrow> texts w (s, a) = Some t \<Longrightarrow>
      \<exists>out w'. run_state (run Background None [''delete-generic-password'', ''-s'', s, ''-a'', a]) w =
          ((out, None), w') \<and> texts w' = (texts w)((s, a) := None)"
    and removes_nothing: "\<And>w s a. keychain_name s \<Longrightarrow> keychain_name a \<Longrightarrow> texts w (s, a) = None \<Longrightarrow>
      \<exists>out e w'. run_state (run Background None [''delete-generic-password'', ''-s'', s, ''-a'', a]) w =
          ((out, Some e), w') \<and> sublist ''could not be found'' out
        \<and> \<not> err_is e ExecErrNotFound \<and> \<not> err_is e ErrNotExist \<and> texts w' = texts w"

text \<open>
  The values behind the texts. Those of the service can be read: they were written by this
  adapter, by an older version in hexadecimal, or as plain text without spaces.
\<close>

definition keychain_view :: "('w \<Rightarrow> string \<times> string \<rightharpoonup> string) \<Rightarrow> 'w \<Rightarrow> string \<times> string \<rightharpoonup> bytes" where
  "keychain_view texts w slot =
     (case texts w slot of None \<Rightarrow> None
      | Some t \<Rightarrow> (case decodeValue t of Inl e \<Rightarrow> None | Inr v \<Rightarrow> Some v))"

definition keychain_good :: "('w \<Rightarrow> string \<times> string \<rightharpoonup> string) \<Rightarrow> string \<Rightarrow> 'w \<Rightarrow> bool" where
  "keychain_good texts service w \<longleftrightarrow>
     (\<forall>a t. texts w (service, a) = Some t \<longrightarrow> space_free t \<and> (\<exists>v. decodeValue t = Inr v))"

definition keychain_accepts :: "(string \<Rightarrow> string) \<Rightarrow> string \<Rightarrow> string \<Rightarrow> bytes \<Rightarrow> bool" where
  "keychain_accepts Quote service key v \<longleftrightarrow> length (add_command Quote service key v) \<le> commandLimit"

lemma stored_text:
  "space_free (base64Prefix @ base64_encode v)" "decodeValue (base64Prefix @ base64_encode v) = Inr v"
proof -
  show "space_free (base64Prefix @ base64_encode v)"
    by (simp add: base64_space_free) (simp add: base64Prefix_def)
  show "decodeValue (base64Prefix @ base64_encode v) = Inr v"
    by (simp add: decodeValue_def prefix_decode base64_roundtrip)
qed

lemma keychain_view_same:
  "texts w' = texts w \<Longrightarrow> keychain_view texts w' = keychain_view texts w"
  "texts w' = texts w \<Longrightarrow> keychain_good texts s w' = keychain_good texts s w"
  by (auto simp: keychain_view_def keychain_good_def fun_eq_iff)

lemma keychain_view_upd:
  assumes "texts w' = (texts w)(slot \<mapsto> base64Prefix @ base64_encode v)"
  shows "keychain_view texts w' = (keychain_view texts w)(slot \<mapsto> v)"
    and "keychain_good texts s w \<Longrightarrow> keychain_good texts s w'"
  using assms stored_text [of v] by (auto simp: keychain_view_def keychain_good_def fun_eq_iff)

lemma keychain_view_del:
  assumes "texts w' = (texts w)(slot := None)"
  shows "keychain_view texts w' = (keychain_view texts w)(slot := None)"
    and "keychain_good texts s w \<Longrightarrow> keychain_good texts s w'"
  using assms by (auto simp: keychain_view_def keychain_good_def fun_eq_iff)

lemma keychain_view_Some:
  "keychain_view texts w slot = Some v \<longleftrightarrow> (\<exists>t. texts w slot = Some t \<and> decodeValue t = Inr v)"
  by (auto simp: keychain_view_def split: option.splits sum.splits)

lemma keychain_view_None:
  "keychain_good texts s w \<Longrightarrow> keychain_view texts w (s, a) = None \<longleftrightarrow> texts w (s, a) = None"
  by (force simp: keychain_view_def keychain_good_def split: option.splits sum.splits)

lemma keychain_missing:
  "sublist ''could not be found'' out \<Longrightarrow> \<not> err_is e ExecErrNotFound \<Longrightarrow> \<not> err_is e ErrNotExist \<Longrightarrow>
     keychain_category out e = ErrNotFound"
  by (simp add: keychain_category_def)

section \<open>The contract\<close>

sublocale security_tool \<subseteq> keyring: keyringer_contract
  "darwin_Get run Background service" "darwin_Set Quote run Background service"
  "darwin_Delete run Background service" "keychain_view texts" "\<lambda>key. (service, key)"
  "keychain_good texts service" "\<lambda>key. keychain_name service \<and> keychain_name key"
  "keychain_accepts Quote service" for service
proof (unfold_locales, goal_cases)
  case (1 w k v)
  then obtain t where t: "texts w (service, k) = Some t" "decodeValue t = Inr v" "space_free t"
    by (auto simp: keychain_view_Some keychain_good_def)
  from finds [OF _ _ t(1,3)] 1 obtain w' where w':
    "run_state (run Background None [''find-generic-password'', ''-s'', service, ''-wa'', k]) w =
       ((t @ [CHR 10], None), w')" "texts w' = texts w" by blast
  with 1 t(2) TrimSpace_newline [OF t(3)] keychain_view_same [OF w'(2)] show ?case
    by (simp add: darwin_Get_def darwin_contextError_eq)
next
  case (2 w k)
  then have "texts w (service, k) = None" by (simp add: keychain_view_None)
  from finds_nothing [OF _ _ this] 2 obtain out e w' where w':
    "run_state (run Background None [''find-generic-password'', ''-s'', service, ''-wa'', k]) w =
       ((out, Some e), w')" "keychain_category out e = ErrNotFound" "texts w' = texts w"
    by (metis keychain_missing)
  with 2 keychain_view_same [OF w'(3)] show ?case
    by (simp add: darwin_Get_def darwin_contextError_eq keychainError_Background)
next
  case (3 w k v)
  let ?t = "base64Prefix @ base64_encode v"
  from adds [OF _ _ stored_text(1) [of v] refl, of service k w] 3 obtain out w' where w':
    "run_state (run Background (Some (add_command Quote service k v)) [''-i'']) w = ((out, None), w')"
    "texts w' = (texts w)((service, k) \<mapsto> ?t)"
    by (auto simp: add_command_def keychain_accepts_def commandLimit_def)
  with 3 keychain_view_upd [OF w'(2)] show ?case
    by (simp add: darwin_Set_def darwin_contextError_eq Let_def keychain_accepts_def keychainError_Background)
next
  case (4 w k v)
  then obtain t where t: "texts w (service, k) = Some t" by (auto simp: keychain_view_Some)
  from removes [OF _ _ t] 4 obtain out w' where w':
    "run_state (run Background None [''delete-generic-password'', ''-s'', service, ''-a'', k]) w =
       ((out, None), w')" "texts w' = (texts w)((service, k) := None)" by blast
  with 4 keychain_view_del [OF w'(2)] show ?case
    by (simp add: darwin_Delete_def darwin_contextError_eq keychainError_Background)
next
  case (5 w k)
  then have "texts w (service, k) = None" by (simp add: keychain_view_None)
  from removes_nothing [OF _ _ this] 5 obtain out e w' where w':
    "run_state (run Background None [''delete-generic-password'', ''-s'', service, ''-a'', k]) w =
       ((out, Some e), w')" "keychain_category out e = ErrNotFound" "texts w' = texts w"
    by (metis keychain_missing)
  with 5 keychain_view_same [OF w'(3)] show ?case
    by (simp add: darwin_Delete_def darwin_contextError_eq keychainError_Background)
qed

context security_tool
begin

lemma requests_refine:
  assumes "keychain_name service" and "keychain_good texts service w"
    and "\<forall>r\<in>set rs. acceptable keychain_name (keychain_accepts Quote service) r"
    and "spec_run (\<lambda>key. (service, key)) rs (keychain_view texts w) = (as, m)"
  shows "\<exists>w'. run_state (impl_run (darwin_Get run Background service) (darwin_Set Quote run Background service)
       (darwin_Delete run Background service) rs) w = (as, w') \<and> keychain_view texts w' = m"
proof -
  have "acceptable (\<lambda>key. keychain_name service \<and> keychain_name key) (keychain_accepts Quote service) r"
    if "r \<in> set rs" for r
    using assms(1) assms(3) [rule_format, OF that] by (cases r) auto
  with keyring.run_refines [OF assms(2) _ assms(4)] show ?thesis by blast
qed

end

section \<open>A tool in memory\<close>

text \<open>Quoting as in a shell: everything in single quotes, which are themselves in double quotes.\<close>

definition shell_quote :: "string \<Rightarrow> string" where
  "shell_quote s = CHR 0x27 # concat (map (\<lambda>c. if c = CHR 0x27
     then [CHR 0x27, CHR 0x22, CHR 0x27, CHR 0x22, CHR 0x27] else [c]) s) @ [CHR 0x27]"

text \<open>The next word of a line, by the open quotation mark, and the rest.\<close>

fun shell_word :: "char option \<Rightarrow> string \<Rightarrow> string \<times> string" where
  "shell_word q [] = ([], [])"
| "shell_word None (c # cs) =
     (if c = CHR 32 \<or> c = CHR 10 then ([], c # cs)
      else if c = CHR 0x27 \<or> c = CHR 0x22 then shell_word (Some c) cs
      else (case shell_word None cs of (w, r) \<Rightarrow> (c # w, r)))"
| "shell_word (Some q) (c # cs) =
     (if c = q then shell_word None cs else (case shell_word (Some q) cs of (w, r) \<Rightarrow> (c # w, r)))"

lemma shell_word_quoted:
  "shell_word (Some (CHR 0x27)) (concat (map (\<lambda>c. if c = CHR 0x27
       then [CHR 0x27, CHR 0x22, CHR 0x27, CHR 0x22, CHR 0x27] else [c]) s) @ CHR 0x27 # rest) =
     (s @ fst (shell_word None rest), snd (shell_word None rest))"
  by (induction s) (auto simp: case_prod_beta)

lemma shell_word_quote:
  "c = CHR 32 \<or> c = CHR 10 \<Longrightarrow> shell_word None (shell_quote s @ c # rest) = (s, c # rest)"
  using shell_word_quoted [of s "c # rest"] by (auto simp: shell_quote_def)

definition parse_add :: "string \<Rightarrow> (string \<times> string \<times> string) option" where
  "parse_add line =
     (let (s, r1) = shell_word None (drop 27 line);
          (a, r2) = shell_word None (drop 4 r1);
          (t, r3) = shell_word None (drop 4 r2)
      in if take 27 line = ''add-generic-password -U -s '' \<and> take 4 r1 = '' -a '' \<and> take 4 r2 = '' -w '' \<and> r3 = [CHR 10]
         then Some (s, a, t) else None)"

definition mem_security :: "(string \<times> string \<rightharpoonup> string) commandFunc" where
  "mem_security ctx input arguments = State (\<lambda>m.
     (case (input, arguments) of
        (Some line, [i]) \<Rightarrow>
          (case parse_add line of
             Some (s, a, t) \<Rightarrow> (([], None), m((s, a) \<mapsto> t))
           | None \<Rightarrow> ((''usage'', Some (ExitError 2)), m))
      | (None, [verb, opt1, s, opt2, a]) \<Rightarrow>
          (case m (s, a) of
             None \<Rightarrow> ((''The specified item could not be found in the keychain.'', Some (ExitError 44)), m)
           | Some t \<Rightarrow> (if verb = ''find-generic-password'' then ((t @ [CHR 10], None), m)
                        else (([], None), m((s, a) := None))))
      | _ \<Rightarrow> ((''usage'', Some (ExitError 2)), m)))"

lemma not_found_text: "sublist ''could not be found'' ''The specified item could not be found in the keychain.''"
  by (simp add: sublist_def) (rule exI [of _ "''The specified item ''"], simp)

lemma parse_add_line:
  "parse_add (''add-generic-password -U -s '' @ shell_quote s @ '' -a '' @ shell_quote a @ '' -w '' @ shell_quote t @ [CHR 10])
     = Some (s, a, t)"
  using shell_word_quote [of "CHR 32" s] shell_word_quote [of "CHR 32" a] shell_word_quote [of "CHR 10" t "[]"]
  by (simp add: parse_add_def)

interpretation mem_tool: security_tool shell_quote mem_security "\<lambda>m. m"
  by unfold_locales (simp_all add: mem_security_def parse_add_line [simplified] not_found_text [simplified])

section \<open>Properties\<close>

text \<open>C26 Over any \<open>security\<close> tool with the documented behaviour, the macOS adapter answers every
  sequence of requests on acceptable names and values as a map does: quoting, the command line,
  the encoding of the value and the text of a missing item fit together, and values that older
  versions wrote can be read.\<close>

theorem keychain_refines_map:
  assumes "security_tool Quote run texts"
    and "keychain_name service" and "keychain_good texts service w"
    and "\<forall>r\<in>set rs. acceptable keychain_name (keychain_accepts Quote service) r"
    and "spec_run (\<lambda>key. (service, key)) rs (keychain_view texts w) = (as, m)"
  shows "\<exists>w'. run_state (impl_run (darwin_Get run Background service) (darwin_Set Quote run Background service)
       (darwin_Delete run Background service) rs) w = (as, w') \<and> keychain_view texts w' = m"
  using assms by (rule security_tool.requests_refine)

theorem keychain_refines_map_witness:
  "\<exists>w'. run_state (impl_run (darwin_Get mem_security Background ''mail'')
       (darwin_Set shell_quote mem_security Background ''mail'') (darwin_Delete mem_security Background ''mail'')
       [Get_req ''it's'', Set_req ''it's'' ''v w'', Get_req ''it's'', Delete_req ''it's''])
       [(''mail'', ''old'') \<mapsto> ''plain'']
     = ([Missing, Done_ok, Value ''v w'', Done_ok], w')"
proof -
  let ?w = "[(''mail'', ''old'') \<mapsto> ''plain'']"
  let ?rs = "[Get_req ''it's'', Set_req ''it's'' ''v w'', Get_req ''it's'', Delete_req ''it's'']"
  have n: "keychain_name ''mail''" "keychain_name ''it's''" by (simp_all add: keychain_name_def)
  have g: "keychain_good (\<lambda>m. m) ''mail'' ?w"
    by (simp add: keychain_good_def decodeValue_def legacyEncodingPrefix_def base64Prefix_def)
  have a: "\<forall>r\<in>set ?rs. acceptable keychain_name (keychain_accepts shell_quote ''mail'') r"
    using n(2) by (simp add: keychain_accepts_def add_command_def commandLimit_def shell_quote_def base64Prefix_def)
  have s: "spec_run (\<lambda>key. (''mail'', key)) ?rs (keychain_view (\<lambda>m. m) ?w) =
      ([Missing, Done_ok, Value ''v w'', Done_ok], (keychain_view (\<lambda>m. m) ?w)((''mail'', ''it's'') := None))"
    by (simp add: keychain_view_def)
  show ?thesis using keychain_refines_map [OF mem_tool.security_tool_axioms n(1) g a s] by auto
qed

section \<open>Names with a newline\<close>

lemma Split_line: "sep \<notin> set c \<Longrightarrow> c \<in> set (tl (Split sep (p @ sep # c @ sep # q)))"
  by (induction p) (auto simp: Split_append dest: list.set_sel(2) [rotated] split: list.split)

text \<open>C36 \<open>Set\<close> does not keep to one command: \<open>security -i\<close> reads commands line by line, and nothing in \<open>Set\<close>
  refuses a newline. When quoting leaves a key in one piece, as shell quoting does with a key
  that has no quotation mark, then with any tool \<open>Set\<close> is one call of it, with the argument \<open>-i\<close>
  and a standard input on which every line inside the key is a line of its own, and what \<open>Set\<close>
  returns is what it makes of the outcome of that call: success when the tool reports none.\<close>

theorem darwin_Set_extra_line:
  assumes "Quote key = q @ key @ r" and "key = x @ CHR 10 # cmd @ CHR 10 # y" and "CHR 10 \<notin> set cmd"
    and "length (add_command Quote service key v) \<le> commandLimit"
  shows "\<exists>input. cmd \<in> set (Split (CHR 10) input)
     \<and> darwin_Set Quote tool Background service key v =
         do {
           (out, err) \<leftarrow> tool Background (Some input) [''-i''];
           keychainError Background ''set credential'' out err
         }
     \<and> run_state (keychainError Background ''set credential'' out None) w = (None, w)"
proof -
  let ?a = "''add-generic-password -U -s '' @ Quote service @ '' -a '' @ q @ x"
  let ?b = "y @ r @ '' -w '' @ Quote (base64Prefix @ base64_encode v) @ [CHR 10]"
  have "add_command Quote service key v = ?a @ CHR 10 # cmd @ CHR 10 # ?b"
    using assms(1,2) by (simp add: add_command_def)
  then have "cmd \<in> set (Split (CHR 10) (add_command Quote service key v))"
    using Split_line [OF assms(3), of ?a ?b] by (metis list.set_sel(2) Split_nonempty)
  moreover have "darwin_Set Quote tool Background service key v =
      do {
        (out, err) \<leftarrow> tool Background (Some (add_command Quote service key v)) [''-i''];
        keychainError Background ''set credential'' out err
      }"
    using assms(4) by (intro state.expand ext) (simp add: darwin_Set_def darwin_contextError_eq split: prod.split)
  ultimately show ?thesis by (auto simp: keychainError_Background)
qed

theorem darwin_Set_extra_line_witness:
  "\<exists>input. ''delete-keychain'' \<in> set (Split (CHR 10) input)
     \<and> darwin_Set shell_quote mem_security Background ''mail'' (''a'' @ CHR 10 # ''delete-keychain'' @ [CHR 10]) ''v'' =
         do {
           (out, err) \<leftarrow> mem_security Background (Some input) [''-i''];
           keychainError Background ''set credential'' out err
         }"
proof -
  have "shell_quote (''a'' @ CHR 10 # ''delete-keychain'' @ [CHR 10])
      = [CHR 0x27] @ (''a'' @ CHR 10 # ''delete-keychain'' @ [CHR 10]) @ [CHR 0x27]"
    by (simp add: shell_quote_def)
  moreover have "length (add_command shell_quote ''mail'' (''a'' @ CHR 10 # ''delete-keychain'' @ [CHR 10]) ''v'')
      \<le> commandLimit"
    by (simp add: shell_quote_def add_command_def commandLimit_def base64Prefix_def)
  ultimately show ?thesis
    using darwin_Set_extra_line [where Quote = shell_quote and tool = mem_security and q = "[CHR 0x27]" and r = "[CHR 0x27]"
        and key = "''a'' @ CHR 10 # ''delete-keychain'' @ [CHR 10]" and x = "''a''" and y = "''''"
        and cmd = "''delete-keychain''" and service = "''mail''" and v = "''v''" and out = "''''" and w = Map.empty]
    by simp blast
qed

end
