(* ===== verification/Fs_Contract.thy ===== *)
theory Fs_Contract
  imports Fs_Atomic Fs_Keyring
begin

text \<open>
  The filesystem keyring as an implementation of the \<open>Keyringer\<close> contract. The kernel is seen
  through the files of the service directory and the open descriptors; its documented
  behaviour on the calls the code makes is a locale, stated as weakest preconditions over
  that view. From it \<open>Get\<close>, \<open>Set\<close> and \<open>Delete\<close> behave as a map from credential names to
  values, leave no descriptor open and no temporary file behind.
\<close>

section \<open>Weakest preconditions over a view\<close>

definition wp ::
  "('w \<Rightarrow> bool) \<Rightarrow> ('w \<Rightarrow> 'v) \<Rightarrow> ('w, 'a) state \<Rightarrow> 'v \<Rightarrow> ('a \<Rightarrow> 'v \<Rightarrow> bool) \<Rightarrow> bool" where
  "wp good see m v P \<longleftrightarrow>
     (\<forall>w. good w \<longrightarrow> see w = v \<longrightarrow>
       good (snd (run_state m w)) \<and> P (fst (run_state m w)) (see (snd (run_state m w))))"

lemma wp_ret: "P x v \<Longrightarrow> wp good see (ret x) v P"
  by (simp add: wp_def)

lemma wp_bind:
  assumes "wp good see m v Q" and "\<And>r v'. Q r v' \<Longrightarrow> wp good see (f r) v' P"
  shows "wp good see (m \<bind> f) v P"
  using assms by (simp add: wp_def split: prod.splits) fastforce

lemma wp_then:
  assumes "wp good see m v (\<lambda>r v'. r = x \<and> v' = v1)" and "wp good see (f x) v1 P"
  shows "wp good see (m \<bind> f) v P"
  by (rule wp_bind [OF assms(1)]) (use assms(2) in simp)

lemma wp_conseq:
  "wp good see m v Q \<Longrightarrow> (\<And>r v'. Q r v' \<Longrightarrow> P r v') \<Longrightarrow> wp good see m v P"
  by (simp add: wp_def)

lemma wp_run:
  assumes "wp good see m (see w) P" and "good w"
  obtains r w' where "run_state m w = (r, w')" "good w'" "P r (see w')"
  using assms by (cases "run_state m w") (auto simp: wp_def)

section \<open>The kernel's view\<close>

datatype handle = Directory "string list" | Reading bytes | Writing string

record kernel_view =
  kv_files :: "string \<rightharpoonup> bytes"
  kv_handles :: "int \<rightharpoonup> handle"

definition put :: "int \<Rightarrow> handle \<Rightarrow> kernel_view \<Rightarrow> kernel_view" where
  "put fd h v = v\<lparr>kv_handles := (kv_handles v)(fd \<mapsto> h)\<rparr>"

definition shut :: "int \<Rightarrow> kernel_view \<Rightarrow> kernel_view" where
  "shut fd v = v\<lparr>kv_handles := (kv_handles v)(fd := None)\<rparr>"

definition with_files :: "(string \<rightharpoonup> bytes) \<Rightarrow> kernel_view \<Rightarrow> kernel_view" where
  "with_files fs v = v\<lparr>kv_files := fs\<rparr>"

lemma view_simps [simp]:
  "kv_files (put fd h v) = kv_files v" "kv_handles (put fd h v) = (kv_handles v)(fd \<mapsto> h)"
  "kv_files (shut fd v) = kv_files v" "kv_handles (shut fd v) = (kv_handles v)(fd := None)"
  "kv_files (with_files fs v) = fs" "kv_handles (with_files fs v) = kv_handles v"
  "with_files fs (with_files fs' v) = with_files fs v"
  "with_files fs (put fd h v) = put fd h (with_files fs v)"
  "with_files fs (shut fd v) = shut fd (with_files fs v)"
  "with_files (kv_files v) v = v"
  by (simp_all add: put_def shut_def with_files_def)

lemma shut_simps [simp]:
  "shut fd (put fd h v) = shut fd v"
  "fd \<noteq> fd' \<Longrightarrow> shut fd (put fd' h v) = put fd' h (shut fd v)"
  "kv_handles v fd = None \<Longrightarrow> shut fd v = v"
  by (simp_all add: put_def shut_def fun_upd_twist fun_upd_idem)

lemma put_put [simp]: "put fd h (put fd h' v) = put fd h v"
  by (simp add: put_def)

lemma put_swap: "fd \<noteq> fd' \<Longrightarrow> put fd h (put fd' h' v) = put fd' h' (put fd h v)"
  by (simp add: put_def fun_upd_twist)

definition service_directory :: "'w linuxStorage \<Rightarrow> string list" where
  "service_directory s = [layoutVersion, serviceID (storage_layout s)]"

text \<open>Between two operations: no open descriptor, no temporary file, and nothing that the fuel
  of the read loop cannot read.\<close>

definition at_rest :: "nat \<Rightarrow> kernel_view \<Rightarrow> bool" where
  "at_rest limit v \<longleftrightarrow> kv_handles v = Map.empty
     \<and> (\<forall>n. temporary_name n \<longrightarrow> kv_files v n = None)
     \<and> (\<forall>n c. kv_files v n = Some c \<longrightarrow> length c < limit)"

lemma at_rest_files:
  "at_rest limit v \<Longrightarrow> kv_files v n = Some c \<Longrightarrow> length c < limit"
  "at_rest limit v \<Longrightarrow> temporary_name n \<Longrightarrow> kv_files v n = None"
  by (simp_all add: at_rest_def)

lemma at_rest_update:
  assumes "at_rest limit v"
  shows "length c < limit \<Longrightarrow> \<not> temporary_name n \<Longrightarrow> at_rest limit (with_files ((kv_files v)(n \<mapsto> c)) v)"
    and "at_rest limit (with_files ((kv_files v)(n := None)) v)"
  using assms by (auto simp: at_rest_def)

section \<open>What the kernel promises\<close>

text \<open>
  Every call succeeds that can: the mount is acceptable, the managed directories exist, a
  read or write transfers at least one byte when there is one, in portions of any size. New
  descriptors are free ones. A credential is opened by name for reading; a new file is
  created only if there is none of that name.
\<close>

locale linux_kernel =
  fixes s :: "'w linuxStorage" and see :: "'w \<Rightarrow> kernel_view" and good :: "'w \<Rightarrow> bool"
  assumes validates: "wp good see (sys_validateMount (system s) (rootPath s)) v (\<lambda>r v'. r = None \<and> v' = v)"
    and prepares: "wp good see (sys_prepareDirectories (system s) (rootPath s) (storage_layout s) (effectiveUID s)) v
      (\<lambda>r v'. r = None \<and> v' = v)"
    and opens_root: "wp good see (sys_openDirectory (system s) (rootPath s) (effectiveUID s)) v
      (\<lambda>r v'. \<exists>fd. r = Inr fd \<and> kv_handles v fd = None \<and> v' = put fd (Directory []) v)"
    and opens_at: "kv_handles v d = Some (Directory p) \<Longrightarrow> prefix (p @ [n]) (service_directory s) \<Longrightarrow>
      wp good see (sys_openDirectoryAt (system s) d n (effectiveUID s)) v
      (\<lambda>r v'. \<exists>fd. r = Inr fd \<and> kv_handles v fd = None \<and> v' = put fd (Directory (p @ [n])) v)"
    and closes: "kv_handles v fd \<noteq> None \<Longrightarrow> wp good see (sys_close (system s) fd) v (\<lambda>r v'. r = None \<and> v' = shut fd v)"
    and opens_file: "kv_handles v d = Some (Directory (service_directory s)) \<Longrightarrow> kv_files v n = Some c \<Longrightarrow>
      wp good see (sys_openFileAt (system s) d n credential_flags 0) v
      (\<lambda>r v'. \<exists>fd. r = Inr fd \<and> kv_handles v fd = None \<and> v' = put fd (Reading c) v)"
    and opens_missing: "kv_handles v d = Some (Directory (service_directory s)) \<Longrightarrow> kv_files v n = None \<Longrightarrow>
      wp good see (sys_openFileAt (system s) d n credential_flags 0) v
      (\<lambda>r v'. \<exists>e. r = Inl e \<and> err_is e ErrNotExist \<and> v' = v)"
    and creates: "kv_handles v d = Some (Directory (service_directory s)) \<Longrightarrow> kv_files v n = None \<Longrightarrow>
      wp good see (sys_openFileAt (system s) d n temporary_flags secretMode) v
      (\<lambda>r v'. \<exists>fd. r = Inr fd \<and> kv_handles v fd = None
         \<and> v' = put fd (Writing n) (with_files ((kv_files v)(n \<mapsto> [])) v))"
    and stats: "kv_handles v fd = Some (Reading c) \<Longrightarrow> wp good see (sys_fstat (system s) fd) v
      (\<lambda>r v'. v' = v \<and> (\<exists>st. r = Inr st \<and> st_mode st AND S_IFMT = S_IFREG \<and> st_uid st = effectiveUID s
         \<and> st_mode st AND group_other_bits = 0))"
    and chmods: "kv_handles v fd = Some (Writing n) \<Longrightarrow> wp good see (sys_fchmod (system s) fd secretMode) v
      (\<lambda>r v'. r = None \<and> v' = v)"
    and reads: "kv_handles v fd = Some (Reading c) \<Longrightarrow> wp good see (sys_read (system s) fd (Suc len)) v
      (\<lambda>r v'. \<exists>k. r = (int k, take k c, None) \<and> k \<le> Suc len \<and> k \<le> length c \<and> (k = 0 \<longleftrightarrow> c = [])
         \<and> v' = put fd (Reading (drop k c)) v)"
    and writes: "kv_handles v fd = Some (Writing n) \<Longrightarrow> kv_files v n = Some old \<Longrightarrow> c \<noteq> [] \<Longrightarrow>
      wp good see (sys_write (system s) fd c) v
      (\<lambda>r v'. \<exists>k. r = (int k, None) \<and> 0 < k \<and> k \<le> length c
         \<and> v' = with_files ((kv_files v)(n \<mapsto> old @ take k c)) v)"
    and syncs: "kv_handles v fd \<noteq> None \<Longrightarrow> wp good see (sys_fsync (system s) fd) v (\<lambda>r v'. r = None \<and> v' = v)"
    and renames: "kv_handles v d = Some (Directory (service_directory s)) \<Longrightarrow> kv_files v n = Some c \<Longrightarrow> n \<noteq> n' \<Longrightarrow>
      wp good see (sys_renameAt (system s) d n d n') v
      (\<lambda>r v'. r = None \<and> v' = with_files ((kv_files v)(n := None, n' \<mapsto> c)) v)"
    and unlinks: "kv_handles v d = Some (Directory (service_directory s)) \<Longrightarrow> kv_files v n = Some c \<Longrightarrow>
      wp good see (sys_unlinkAt (system s) d n 0) v (\<lambda>r v'. r = None \<and> v' = with_files ((kv_files v)(n := None)) v)"
    and randoms: "wp good see (random s temporaryRandomBytes) v (\<lambda>r v'. (\<exists>b. r = Inr b) \<and> v' = v)"
begin

lemma wp_defer_close:
  assumes "wp good see m v Q" and "\<And>r v'. Q r v' \<Longrightarrow> kv_handles v' fd \<noteq> None \<and> P r (shut fd v')"
  shows "wp good see (defer_close (sys_close (system s)) fd m) v P"
  unfolding defer_close_def
proof (rule wp_bind [OF assms(1)])
  fix r v' assume "Q r v'"
  with assms(2) have "kv_handles v' fd \<noteq> None" "P r (shut fd v')" by blast+
  then show "wp good see (sys_close (system s) fd \<bind> (\<lambda>_. ret r)) v' P"
    by (intro wp_bind [OF closes] wp_ret) auto
qed

lemma opens_service:
  "wp good see (openServiceDirectory s create) v
     (\<lambda>r v'. \<exists>d. r = Inr d \<and> kv_handles v d = None \<and> v' = put d (Directory (service_directory s)) v)"
proof -
  let ?D = "\<lambda>r v'. \<exists>d. r = Inr d \<and> kv_handles v d = None \<and> v' = put d (Directory (service_directory s)) v"
  have version: "wp good see (sys_openDirectoryAt (system s) root layoutVersion (effectiveUID s) \<bind> (\<lambda>x.
      case x of Inl err \<Rightarrow> ret (Inl err)
      | Inr version \<Rightarrow> defer_close (sys_close (system s)) version
         (sys_openDirectoryAt (system s) version (serviceID (storage_layout s)) (effectiveUID s))))
      (put root (Directory []) v) (\<lambda>r v'. \<exists>d. r = Inr d \<and> d \<noteq> root \<and> kv_handles v d = None
        \<and> v' = put d (Directory (service_directory s)) (put root (Directory []) v))"
    if root: "kv_handles v root = None" for root
  proof (rule wp_bind [OF opens_at [where p = "[]"]])
    fix r :: "go_error + int" and v1
    assume "\<exists>fd. r = Inr fd \<and> kv_handles (put root (Directory []) v) fd = None
      \<and> v1 = put fd (Directory ([] @ [layoutVersion])) (put root (Directory []) v)"
    then obtain ver where r: "r = Inr ver" "ver \<noteq> root" "kv_handles v ver = None"
      "v1 = put ver (Directory [layoutVersion]) (put root (Directory []) v)" by (auto split: if_splits)
    have "wp good see (defer_close (sys_close (system s)) ver
        (sys_openDirectoryAt (system s) ver (serviceID (storage_layout s)) (effectiveUID s))) v1
      (\<lambda>r v'. \<exists>d. r = Inr d \<and> d \<noteq> root \<and> kv_handles v d = None
        \<and> v' = put d (Directory (service_directory s)) (put root (Directory []) v))"
      by (rule wp_defer_close [OF opens_at [where p = "[layoutVersion]"]])
        (use r root in \<open>auto simp: service_directory_def split: if_splits\<close>)
    then show "wp good see (case r of Inl err \<Rightarrow> ret (Inl err)
      | Inr version \<Rightarrow> defer_close (sys_close (system s)) version
         (sys_openDirectoryAt (system s) version (serviceID (storage_layout s)) (effectiveUID s))) v1
      (\<lambda>r v'. \<exists>d. r = Inr d \<and> d \<noteq> root \<and> kv_handles v d = None
        \<and> v' = put d (Directory (service_directory s)) (put root (Directory []) v))"
      by (simp add: r(1))
  qed (simp_all add: service_directory_def)
  have root: "wp good see (sys_openDirectory (system s) (rootPath s) (effectiveUID s) \<bind> (\<lambda>r.
      case r of Inl err \<Rightarrow> ret (Inl err)
      | Inr root \<Rightarrow> defer_close (sys_close (system s)) root
          (sys_openDirectoryAt (system s) root layoutVersion (effectiveUID s) \<bind> (\<lambda>x.
            case x of Inl err \<Rightarrow> ret (Inl err)
            | Inr version \<Rightarrow> defer_close (sys_close (system s)) version
                (sys_openDirectoryAt (system s) version (serviceID (storage_layout s)) (effectiveUID s)))))) v ?D"
  proof (rule wp_bind [OF opens_root], elim exE conjE, hypsubst, simp only: sum.case)
    fix root assume "kv_handles v root = None"
    then show "wp good see (defer_close (sys_close (system s)) root
          (sys_openDirectoryAt (system s) root layoutVersion (effectiveUID s) \<bind> (\<lambda>x.
            case x of Inl err \<Rightarrow> ret (Inl err)
            | Inr version \<Rightarrow> defer_close (sys_close (system s)) version
                (sys_openDirectoryAt (system s) version (serviceID (storage_layout s)) (effectiveUID s)))))
        (put root (Directory []) v) ?D"
      by (intro wp_defer_close [OF version]) auto
  qed
  show ?thesis
    unfolding openServiceDirectory_def
    by (intro wp_bind [OF validates]; elim conjE; hypsubst; simp; cases create; simp)
      (use root in \<open>auto intro: wp_bind [OF prepares] wp_ret\<close>)
qed

text \<open>Reading: the contents come in portions and end with a read of nothing.\<close>

lemma reader_reads:
  assumes "kv_handles v fd = Some (Reading c)"
  shows "wp good see (descriptorReader_Read (system s) fd (Suc len)) v
     (\<lambda>r v'. if c = [] then r = (0, [], Some EOF) \<and> v' = put fd (Reading []) v
        else \<exists>k. r = (int k, take k c, None) \<and> 0 < k \<and> k \<le> Suc len \<and> k \<le> length c
          \<and> v' = put fd (Reading (drop k c)) v)"
  unfolding descriptorReader_Read_def
  by (rule wp_bind [OF reads [OF assms]]) (auto intro!: wp_ret)

lemma reads_all:
  "kv_handles v fd = Some (Reading c) \<Longrightarrow> length c < fuel \<Longrightarrow>
     wp good see (ReadAll (descriptorReader_Read (system s) fd) grow fuel b) v
       (\<lambda>r v'. r = AllRead (b @ c) None \<and> v' = put fd (Reading []) v)"
proof (induction fuel arbitrary: v b c)
  case (Suc fuel)
  show ?case
    unfolding ReadAll.simps
  proof (rule wp_bind [OF reader_reads [OF Suc.prems(1)]])
    fix r :: "int \<times> bytes \<times> go_error option" and v'
    assume r: "if c = [] then r = (0, [], Some EOF) \<and> v' = put fd (Reading []) v
      else \<exists>k. r = (int k, take k c, None) \<and> 0 < k \<and> k \<le> Suc (grow (length b)) \<and> k \<le> length c
        \<and> v' = put fd (Reading (drop k c)) v"
    show "wp good see (case r of (n, contents, err) \<Rightarrow>
        if int (length b) + n < 0 \<or> n > int (Suc (grow (length b))) then ret ReadPanic
        else let b' = take (nat (int (length b) + n)) (b @ contents)
          in (case err of Some e \<Rightarrow> ret (AllRead b' (if e = EOF then None else Some e))
              | None \<Rightarrow> ReadAll (descriptorReader_Read (system s) fd) grow fuel b')) v'
        (\<lambda>r v'. r = AllRead (b @ c) None \<and> v' = put fd (Reading []) v)"
    proof (cases "c = []")
      case True
      with r show ?thesis by (auto intro: wp_ret)
    next
      case False
      with r obtain k where k: "r = (int k, take k c, None)" "0 < k" "k \<le> Suc (grow (length b))"
        "k \<le> length c" "v' = put fd (Reading (drop k c)) v" by auto
      have "wp good see (ReadAll (descriptorReader_Read (system s) fd) grow fuel (b @ take k c)) v'
          (\<lambda>r v''. r = AllRead ((b @ take k c) @ drop k c) None \<and> v'' = put fd (Reading []) v')"
        by (rule Suc.IH) (use k Suc.prems(2) in auto)
      moreover have "nat (int (length b) + int k) = length b + k" by simp
      ultimately show ?thesis using k by simp
    qed
  qed
qed simp

text \<open>Writing: whatever portions are accepted, the file gets the contents.\<close>

lemma writes_all:
  "kv_handles v fd = Some (Writing n) \<Longrightarrow> kv_files v n = Some old \<Longrightarrow>
     wp good see (writeAll (system s) fuel fd c) v
       (\<lambda>r v'. r = None \<and> v' = with_files ((kv_files v)(n \<mapsto> old @ c)) v)"
proof (induction c arbitrary: v old rule: length_induct)
  case (1 c)
  show ?case
  proof (cases "c = []")
    case True
    with 1 show ?thesis by (auto simp: writeAll.simps fun_upd_idem intro: wp_ret)
  next
    case False
    show ?thesis
      unfolding writeAll.simps [of "system s" fuel fd c] if_not_P [OF False]
    proof (rule wp_bind [OF writes [OF "1.prems" False]], elim exE conjE)
      fix r :: "int \<times> go_error option" and v' k
      assume r: "r = (int k, None)" and k: "0 < k" "k \<le> length c"
        and v': "v' = with_files ((kv_files v)(n \<mapsto> old @ take k c)) v"
      have "wp good see (writeAll (system s) fuel fd (drop k c)) v'
          (\<lambda>r v''. r = None \<and> v'' = with_files ((kv_files v')(n \<mapsto> (old @ take k c) @ drop k c)) v')"
        using k False v' "1.prems" by (intro "1.IH" [rule_format]) auto
      then show "wp good see (case r of (got, err) \<Rightarrow>
          if got > int (length c) then ret (Some (GoPanic ''slice bounds out of range''))
          else if err \<noteq> None then ret err
          else if got = 0 then ret (Some ErrShortWrite)
          else if got > 0 then writeAll (system s) fuel fd (drop (nat got) c)
          else if fuel = 0 then ret (Some OutOfFuel)
          else writeAll (system s) (fuel - 1) fd c) v'
          (\<lambda>r v'. r = None \<and> v' = with_files ((kv_files v)(n \<mapsto> old @ c)) v)"
        using k r v' by simp
    qed
  qed
qed

text \<open>Opening a credential; checking one that is about to be replaced.\<close>

abbreviation service_open :: "int \<Rightarrow> kernel_view \<Rightarrow> bool" where
  "service_open d v \<equiv> kv_handles v d = Some (Directory (service_directory s))"

lemma opens_credential:
  assumes "service_open d v" "kv_files v n = Some c"
  shows "wp good see (openCredential s d n) v
     (\<lambda>r v'. \<exists>fd. r = Inr fd \<and> kv_handles v fd = None \<and> v' = put fd (Reading c) v)"
  unfolding openCredential_def
proof (rule wp_bind [OF opens_file [OF assms]], elim exE conjE)
  fix r :: "go_error + int" and v' fd
  assume r: "r = Inr fd" "kv_handles v fd = None" "v' = put fd (Reading c) v"
  have "wp good see (validateCredential s fd) v' (\<lambda>r v''. r = None \<and> v'' = v')"
    unfolding validateCredential_def
    by (rule wp_bind [OF stats [where c = c]]) (use r in \<open>auto intro!: wp_ret\<close>)
  then show "wp good see (case r of Inl err \<Rightarrow> ret (Inl err)
      | Inr descriptor \<Rightarrow> validateCredential s descriptor \<bind> (\<lambda>v.
          case v of Some err \<Rightarrow> sys_close (system s) descriptor \<bind> (\<lambda>_. ret (Inl err))
          | None \<Rightarrow> ret (Inr descriptor))) v'
      (\<lambda>r v'. \<exists>fd. r = Inr fd \<and> kv_handles v fd = None \<and> v' = put fd (Reading c) v)"
    using r by (auto intro!: wp_then wp_ret)
qed

lemma opens_no_credential:
  assumes "service_open d v" "kv_files v n = None"
  shows "wp good see (openCredential s d n) v (\<lambda>r v'. \<exists>e. r = Inl e \<and> err_is e ErrNotExist \<and> v' = v)"
  unfolding openCredential_def
  by (rule wp_bind [OF opens_missing [OF assms]]) (auto intro!: wp_ret)

lemma checks_existing:
  assumes "service_open d v"
  shows "wp good see (validateExistingCredential s d n) v (\<lambda>r v'. r = None \<and> v' = v)"
  unfolding validateExistingCredential_def
proof (cases "kv_files v n")
  case None
  show "wp good see (openCredential s d n \<bind> (\<lambda>r. case r of
      Inl err \<Rightarrow> ret (if err_is err ErrNotExist then None else Some err)
    | Inr descriptor \<Rightarrow> sys_close (system s) descriptor)) v (\<lambda>r v'. r = None \<and> v' = v)"
    by (rule wp_bind [OF opens_no_credential [OF assms None]]) (auto intro!: wp_ret)
next
  case (Some c)
  show "wp good see (openCredential s d n \<bind> (\<lambda>r. case r of
      Inl err \<Rightarrow> ret (if err_is err ErrNotExist then None else Some err)
    | Inr descriptor \<Rightarrow> sys_close (system s) descriptor)) v (\<lambda>r v'. r = None \<and> v' = v)"
    by (rule wp_bind [OF opens_credential [OF assms Some]]) (auto intro!: wp_conseq [OF closes])
qed

section \<open>Replacing a credential\<close>

lemma creates_temporary:
  assumes "service_open d v" "\<And>n. temporary_name n \<Longrightarrow> kv_files v n = None"
  shows "wp good see (createTemporary s d) v
     (\<lambda>r v'. \<exists>tmp fd. r = Inr (tmp, fd) \<and> temporary_name tmp \<and> kv_handles v fd = None
        \<and> v' = put fd (Writing tmp) (with_files ((kv_files v)(tmp \<mapsto> [])) v))"
proof -
  have 128: "temporaryCreateAttempts = Suc 127" by (simp add: temporaryCreateAttempts_def)
  show ?thesis
    unfolding createTemporary_def 128 createTemporary_loop.simps
  proof (rule wp_bind [OF randoms], elim exE conjE)
    fix r :: "go_error + bytes" and v' b
    assume r: "r = Inr b" "v' = v"
    let ?n = "''.tmp-'' @ hex_EncodeToString b"
    have tmp: "temporary_name ?n" unfolding temporary_name_def by blast
    have "wp good see (sys_openFileAt (system s) d ?n temporary_flags secretMode \<bind> (\<lambda>x. case x of
          Inl err \<Rightarrow> (if err_is err ErrExist then createTemporary_loop s d 127 else ret (Inl err))
        | Inr descriptor \<Rightarrow> ret (Inr (?n, descriptor)))) v
        (\<lambda>r v'. \<exists>tmp fd. r = Inr (tmp, fd) \<and> temporary_name tmp \<and> kv_handles v fd = None
          \<and> v' = put fd (Writing tmp) (with_files ((kv_files v)(tmp \<mapsto> [])) v))"
      by (rule wp_bind [OF creates [OF assms(1) assms(2) [OF tmp]]]) (use tmp in \<open>auto intro!: wp_ret\<close>)
    then show "wp good see (case r of Inl err \<Rightarrow> ret (Inl err)
        | Inr bytes \<Rightarrow> let name = ''.tmp-'' @ hex_EncodeToString bytes in
            sys_openFileAt (system s) d name temporary_flags secretMode \<bind> (\<lambda>x. case x of
              Inl err \<Rightarrow> (if err_is err ErrExist then createTemporary_loop s d 127 else ret (Inl err))
            | Inr descriptor \<Rightarrow> ret (Inr (name, descriptor)))) v'
        (\<lambda>r v'. \<exists>tmp fd. r = Inr (tmp, fd) \<and> temporary_name tmp \<and> kv_handles v fd = None
          \<and> v' = put fd (Writing tmp) (with_files ((kv_files v)(tmp \<mapsto> [])) v))"
      unfolding r sum.case Let_def .
  qed
qed

lemma replaces:
  assumes "service_open d v" "kv_handles v fd = None" "kv_files v tmp = None" "tmp \<noteq> n"
  shows "wp good see (writeAtomic_body s d n tmp fd c)
     (put fd (Writing tmp) (with_files ((kv_files v)(tmp \<mapsto> [])) v))
     (\<lambda>r v'. r = (None, False, True) \<and> v' = with_files ((kv_files v)(n \<mapsto> c)) v)"
proof -
  have d: "d \<noteq> fd" using assms(1,2) by auto
  show ?thesis
    unfolding writeAtomic_body_def
    apply (rule wp_then [OF chmods [where n = tmp]], simp)
    apply simp
    apply (rule wp_then [OF writes_all [where n = tmp and old = "[]"]], simp, simp)
    apply simp
    apply (rule wp_then [OF syncs], simp)
    apply simp
    apply (rule wp_then [OF closes], simp)
    apply (simp add: assms(2))
    apply (rule wp_then [OF renames [where c = c]])
    apply (use assms d in simp_all)
    apply (rule wp_then [OF syncs], simp)
    apply (rule wp_ret)
    apply (simp add: fun_upd_twist fun_upd_idem)
    done
qed

lemma writes_atomically:
  assumes "service_open d v" "\<And>n. temporary_name n \<Longrightarrow> kv_files v n = None" "\<not> temporary_name n"
  shows "wp good see (writeAtomic s d n c) v (\<lambda>r v'. r = None \<and> v' = with_files ((kv_files v)(n \<mapsto> c)) v)"
  unfolding writeAtomic_def
proof (rule wp_bind [OF creates_temporary [OF assms(1,2)]], assumption, elim exE conjE)
  fix r :: "go_error + string \<times> int" and v' tmp fd
  assume r: "r = Inr (tmp, fd)" "temporary_name tmp" "kv_handles v fd = None"
    "v' = put fd (Writing tmp) (with_files ((kv_files v)(tmp \<mapsto> [])) v)"
  with assms have "kv_files v tmp = None" "tmp \<noteq> n" by auto
  with r show "wp good see (case r of Inl err \<Rightarrow> ret (Some err)
      | Inr (temporaryName, descriptor) \<Rightarrow>
          writeAtomic_body s d n temporaryName descriptor c \<bind> (\<lambda>b. case b of (result, opened, renamed) \<Rightarrow>
            writeAtomic_deferred s d temporaryName descriptor result opened renamed)) v'
      (\<lambda>r v'. r = None \<and> v' = with_files ((kv_files v)(n \<mapsto> c)) v)"
    by (auto intro!: wp_then [OF replaces [OF assms(1)]] simp: writeAtomic_deferred_def wp_ret)
qed

section \<open>The operations\<close>

text \<open>What runs with the service directory open; the directory is closed at the end.\<close>

lemma in_service:
  assumes "\<And>d. kv_handles v d = None \<Longrightarrow>
      wp good see (act d) (put d (Directory (service_directory s)) v)
        (\<lambda>r v'. \<exists>fs. v' = put d (Directory (service_directory s)) (with_files fs v) \<and> P r fs)"
  shows "wp good see (openServiceDirectory s create \<bind> (\<lambda>x. case x of
      Inl err \<Rightarrow> fail err | Inr d \<Rightarrow> defer_close (sys_close (system s)) d (act d))) v
    (\<lambda>r v'. \<exists>fs. v' = with_files fs v \<and> P r fs)"
proof (rule wp_bind [OF opens_service], elim exE conjE, hypsubst, simp only: sum.case)
  fix d assume d: "kv_handles v d = None"
  show "wp good see (defer_close (sys_close (system s)) d (act d))
      (put d (Directory (service_directory s)) v) (\<lambda>r v'. \<exists>fs. v' = with_files fs v \<and> P r fs)"
    by (rule wp_defer_close [OF assms [OF d]]) (use d in auto)
qed

abbreviation credential :: "string \<Rightarrow> string" where
  "credential key \<equiv> fs_identifier keyDomain key"

lemma gets:
  assumes "kv_files v (credential key) = Some c" "length c < loop_fuel s"
  shows "wp good see (linux_get s key) v (\<lambda>r v'. r = Inr c \<and> v' = v)"
proof -
  have "wp good see (linux_get s key) v (\<lambda>r v'. \<exists>fs. v' = with_files fs v \<and> r = Inr c \<and> fs = kv_files v)"
    unfolding linux_get_def
  proof (rule in_service)
    fix d assume d: "kv_handles v d = None"
    let ?v = "put d (Directory (service_directory s)) v"
    show "wp good see (openCredential s d (credential key) \<bind> (\<lambda>c. case c of
          Inl err \<Rightarrow> ret (Inl (classify_operation ''get credential'' True err))
        | Inr descriptor \<Rightarrow> ReadAll (descriptorReader_Read (system s) descriptor) (room s) (loop_fuel s) [] \<bind>
            (\<lambda>a. case a of
               AllRead contents readErr \<Rightarrow> sys_close (system s) descriptor \<bind> (\<lambda>closeErr.
                 case errors_Join readErr closeErr of
                   None \<Rightarrow> ret (Inr contents)
                 | Some err \<Rightarrow> ret (Inl (classify_operation ''get credential'' True err)))
             | ReadPanic \<Rightarrow> ret (Inl (GoPanic ''slice bounds out of range''))
             | ReadForever \<Rightarrow> ret (Inl OutOfFuel)))) ?v
        (\<lambda>r v'. \<exists>fs. v' = put d (Directory (service_directory s)) (with_files fs v)
           \<and> r = Inr c \<and> fs = kv_files v)"
      by (rule wp_bind [OF opens_credential [where c = c]])
        (use assms d in \<open>auto intro!: wp_then [OF reads_all [where c = c]] wp_then [OF closes] wp_ret
            simp: errors_Join_def\<close>)
  qed
  then show ?thesis by (rule wp_conseq) auto
qed

lemma gets_nothing:
  assumes "kv_files v (credential key) = None"
  shows "wp good see (linux_get s key) v
     (\<lambda>r v'. \<exists>e. r = Inl e \<and> err_is e (Category ErrNotFound) \<and> v' = v)"
proof -
  have "wp good see (linux_get s key) v (\<lambda>r v'. \<exists>fs. v' = with_files fs v
      \<and> (\<exists>e. r = Inl e \<and> err_is e (Category ErrNotFound)) \<and> fs = kv_files v)"
    unfolding linux_get_def
    by (rule in_service, rule wp_bind [OF opens_no_credential])
      (use assms in \<open>auto intro!: wp_ret simp: classify_operation_def\<close>)
  then show ?thesis by (rule wp_conseq) auto
qed

lemma sets:
  assumes "\<And>n. temporary_name n \<Longrightarrow> kv_files v n = None"
  shows "wp good see (linux_set s key c) v
     (\<lambda>r v'. r = None \<and> v' = with_files ((kv_files v)(credential key \<mapsto> c)) v)"
proof -
  have "wp good see (linux_set s key c) v (\<lambda>r v'. \<exists>fs. v' = with_files fs v
      \<and> r = None \<and> fs = (kv_files v)(credential key \<mapsto> c))"
    unfolding linux_set_def Let_def
  proof (rule in_service)
    fix d assume d: "kv_handles v d = None"
    let ?v = "put d (Directory (service_directory s)) v"
    have "wp good see (writeAtomic s d (credential key) c) ?v
        (\<lambda>r v'. r = None \<and> v' = with_files ((kv_files ?v)(credential key \<mapsto> c)) ?v)"
      by (rule writes_atomically) (use assms in \<open>auto simp: identifier_not_temporary\<close>)
    then show "wp good see (validateExistingCredential s d (credential key) \<bind> (\<lambda>x. case x of
          None \<Rightarrow> writeAtomic s d (credential key) c \<bind> (\<lambda>r. ret (operationError ''set credential'' False r))
        | Some err \<Rightarrow> ret (operationError ''set credential'' False (Some err)))) ?v
        (\<lambda>r v'. \<exists>fs. v' = put d (Directory (service_directory s)) (with_files fs v)
           \<and> r = None \<and> fs = (kv_files v)(credential key \<mapsto> c))"
      by (intro wp_then [OF checks_existing]) (auto elim!: wp_then intro!: wp_ret)
  qed
  then show ?thesis by (rule wp_conseq) auto
qed

lemma deletes:
  assumes "kv_files v (credential key) = Some c"
  shows "wp good see (linux_delete s key) v
     (\<lambda>r v'. r = None \<and> v' = with_files ((kv_files v)(credential key := None)) v)"
proof -
  have "wp good see (linux_delete s key) v (\<lambda>r v'. \<exists>fs. v' = with_files fs v
      \<and> r = None \<and> fs = (kv_files v)(credential key := None))"
    unfolding linux_delete_def Let_def
  proof (rule in_service)
    fix d assume d: "kv_handles v d = None"
    let ?v = "put d (Directory (service_directory s)) v"
    have removes: "wp good see (sys_unlinkAt (system s) d (credential key) 0 \<bind> (\<lambda>e2.
        if e2 \<noteq> None then ret (operationError ''delete credential'' True e2)
        else sys_fsync (system s) d \<bind> (\<lambda>e3. ret (operationError ''delete credential'' True e3)))) ?v
        (\<lambda>r v'. \<exists>fs. v' = put d (Directory (service_directory s)) (with_files fs v)
           \<and> r = None \<and> fs = (kv_files v)(credential key := None))"
      by (rule wp_then [OF unlinks [where c = c]]) (use assms in \<open>auto intro!: wp_then [OF syncs] wp_ret\<close>)
    show "wp good see (openCredential s d (credential key) \<bind> (\<lambda>c. case c of
          Inl err \<Rightarrow> ret (operationError ''delete credential'' True (Some err))
        | Inr descriptor \<Rightarrow> sys_close (system s) descriptor \<bind> (\<lambda>e1.
            if e1 \<noteq> None then ret (operationError ''delete credential'' True e1)
            else sys_unlinkAt (system s) d (credential key) 0 \<bind> (\<lambda>e2.
              if e2 \<noteq> None then ret (operationError ''delete credential'' True e2)
              else sys_fsync (system s) d \<bind> (\<lambda>e3. ret (operationError ''delete credential'' True e3)))))) ?v
        (\<lambda>r v'. \<exists>fs. v' = put d (Directory (service_directory s)) (with_files fs v)
           \<and> r = None \<and> fs = (kv_files v)(credential key := None))"
      by (rule wp_bind [OF opens_credential [where c = c]])
        (use assms d removes in \<open>auto intro!: wp_then [OF closes]\<close>)
  qed
  then show ?thesis by (rule wp_conseq) auto
qed

lemma deletes_nothing:
  assumes "kv_files v (credential key) = None"
  shows "wp good see (linux_delete s key) v
     (\<lambda>r v'. \<exists>e. r = Some e \<and> err_is e (Category ErrNotFound) \<and> v' = v)"
proof -
  have "wp good see (linux_delete s key) v (\<lambda>r v'. \<exists>fs. v' = with_files fs v
      \<and> (\<exists>e. r = Some e \<and> err_is e (Category ErrNotFound)) \<and> fs = kv_files v)"
    unfolding linux_delete_def Let_def
    by (rule in_service, rule wp_bind [OF opens_no_credential])
      (use assms in \<open>auto intro!: wp_ret simp: classify_operation_def\<close>)
  then show ?thesis by (rule wp_conseq) auto
qed

text \<open>Opening the storage again yields the same storage.\<close>

lemma opens_storage:
  "wp good see (openLinuxStorage (rootPath s) (storage_layout s) (effectiveUID s) (system s) (random s) (room s)
       (loop_fuel s)) v (\<lambda>r v'. r = Inr s \<and> v' = v)"
  unfolding openLinuxStorage_def
  by (rule wp_then [OF validates], simp, rule wp_then [OF prepares]) (simp add: wp_ret)

text \<open>So the storage keeps the contract of a keyring.\<close>

sublocale stored: keyringer_contract "linux_get s" "linux_set s" "linux_delete s"
  "\<lambda>w. kv_files (see w)" "fs_identifier keyDomain" "\<lambda>w. good w \<and> at_rest (loop_fuel s) (see w)"
  "\<lambda>_. True" "\<lambda>_ c. length c < loop_fuel s"
proof
  fix w and key :: string and c :: bytes
  assume w: "good w \<and> at_rest (loop_fuel s) (see w)"
  note rest = at_rest_files [OF conjunct2 [OF w]]
  {
    assume c: "kv_files (see w) (credential key) = Some c"
    show "\<exists>w'. run_state (linux_get s key) w = (Inr c, w') \<and> (good w' \<and> at_rest (loop_fuel s) (see w'))
        \<and> kv_files (see w') = kv_files (see w)"
      by (rule wp_run [OF gets [OF c rest(1) [OF c]]]) (use w in auto)
    show "\<exists>w'. run_state (linux_delete s key) w = (None, w') \<and> (good w' \<and> at_rest (loop_fuel s) (see w'))
        \<and> kv_files (see w') = (kv_files (see w))(credential key := None)"
      by (rule wp_run [OF deletes [OF c]]) (use w in \<open>auto simp: at_rest_update\<close>)
  }
  {
    assume c: "kv_files (see w) (credential key) = None"
    show "\<exists>e w'. run_state (linux_get s key) w = (Inl e, w') \<and> err_is e (Category ErrNotFound)
        \<and> (good w' \<and> at_rest (loop_fuel s) (see w')) \<and> kv_files (see w') = kv_files (see w)"
      by (rule wp_run [OF gets_nothing [OF c]]) (use w in auto)
    show "\<exists>e w'. run_state (linux_delete s key) w = (Some e, w') \<and> err_is e (Category ErrNotFound)
        \<and> (good w' \<and> at_rest (loop_fuel s) (see w')) \<and> kv_files (see w') = kv_files (see w)"
      by (rule wp_run [OF deletes_nothing [OF c]]) (use w in auto)
  }
  assume c: "length c < loop_fuel s"
  show "\<exists>w'. run_state (linux_set s key c) w = (None, w') \<and> (good w' \<and> at_rest (loop_fuel s) (see w'))
      \<and> kv_files (see w') = (kv_files (see w))(credential key \<mapsto> c)"
    by (rule wp_run [OF sets [OF rest(2), where c = c and key = key]])
      (use w c in \<open>auto simp: at_rest_update identifier_not_temporary\<close>)
qed

end

section \<open>The keyring\<close>

text \<open>The keyring over that storage. Taking and releasing a mutex does nothing to the kernel.\<close>

locale locked_kernel = linux_kernel s see good
  for s :: "'w linuxStorage" and see good +
  fixes k :: "'w fs_keyring"
  assumes over_storage: "fs_storage k = linux_storage s"
    and locks: "wp good see (fs_Lock k i) v (\<lambda>_ v'. v' = v)"
    and unlocks: "wp good see (fs_Unlock k i) v (\<lambda>_ v'. v' = v)"
begin

lemma brackets:
  assumes "wp good see m v Q"
  shows "wp good see (fs_Lock k i \<bind> (\<lambda>_. m \<bind> (\<lambda>r. fs_Unlock k i \<bind> (\<lambda>_. ret r)))) v Q"
proof (rule wp_bind [OF locks], hypsubst, rule wp_bind [OF assms])
  fix r v' assume "Q r v'"
  then show "wp good see (fs_Unlock k i \<bind> (\<lambda>_. ret r)) v' Q"
    by (intro wp_bind [OF unlocks] wp_ret) simp
qed

lemma valid_operation:
  "key \<noteq> '''' \<Longrightarrow> wp good see (validateOperation Background key) v (\<lambda>r v'. r = None \<and> v' = v)"
  by (simp add: wp_def validateOperation_ok)

lemma keyring_calls:
  assumes "key \<noteq> ''''"
  shows "wp good see (linux_get s key) v Q \<Longrightarrow> wp good see (fs_Get k Background key) v Q"
    and "wp good see (linux_set s key c) v Q' \<Longrightarrow> wp good see (fs_Set k Background key c) v Q'"
    and "wp good see (linux_delete s key) v Q' \<Longrightarrow> wp good see (fs_Delete k Background key) v Q'"
  unfolding fs_Get_def fs_Set_def fs_Delete_def
  by (auto intro!: wp_then [OF valid_operation [OF assms]] brackets simp: over_storage linux_storage_def)

sublocale kept: keyringer_contract "fs_Get k Background" "fs_Set k Background" "fs_Delete k Background"
  "\<lambda>w. kv_files (see w)" "fs_identifier keyDomain" "\<lambda>w. good w \<and> at_rest (loop_fuel s) (see w)"
  "\<lambda>key. key \<noteq> ''''" "\<lambda>_ c. length c < loop_fuel s"
proof
  fix w and key :: string and c :: bytes
  assume w: "good w \<and> at_rest (loop_fuel s) (see w)" and key: "key \<noteq> ''''"
  note rest = at_rest_files [OF conjunct2 [OF w]]
  {
    assume c: "kv_files (see w) (credential key) = Some c"
    show "\<exists>w'. run_state (fs_Get k Background key) w = (Inr c, w')
        \<and> (good w' \<and> at_rest (loop_fuel s) (see w')) \<and> kv_files (see w') = kv_files (see w)"
      by (rule wp_run [OF keyring_calls(1) [OF key gets [OF c rest(1) [OF c]]]]) (use w in auto)
    show "\<exists>w'. run_state (fs_Delete k Background key) w = (None, w')
        \<and> (good w' \<and> at_rest (loop_fuel s) (see w'))
        \<and> kv_files (see w') = (kv_files (see w))(credential key := None)"
      by (rule wp_run [OF keyring_calls(3) [OF key deletes [OF c]]]) (use w in \<open>auto simp: at_rest_update\<close>)
  }
  {
    assume c: "kv_files (see w) (credential key) = None"
    show "\<exists>e w'. run_state (fs_Get k Background key) w = (Inl e, w') \<and> err_is e (Category ErrNotFound)
        \<and> (good w' \<and> at_rest (loop_fuel s) (see w')) \<and> kv_files (see w') = kv_files (see w)"
      by (rule wp_run [OF keyring_calls(1) [OF key gets_nothing [OF c]]]) (use w in auto)
    show "\<exists>e w'. run_state (fs_Delete k Background key) w = (Some e, w') \<and> err_is e (Category ErrNotFound)
        \<and> (good w' \<and> at_rest (loop_fuel s) (see w')) \<and> kv_files (see w') = kv_files (see w)"
      by (rule wp_run [OF keyring_calls(3) [OF key deletes_nothing [OF c]]]) (use w in auto)
  }
  assume c: "length c < loop_fuel s"
  show "\<exists>w'. run_state (fs_Set k Background key c) w = (None, w')
      \<and> (good w' \<and> at_rest (loop_fuel s) (see w'))
      \<and> kv_files (see w') = (kv_files (see w))(credential key \<mapsto> c)"
    by (rule wp_run [OF keyring_calls(2) [OF key sets [OF rest(2), where c = c and key = key]]])
      (use w c in \<open>auto simp: at_rest_update identifier_not_temporary\<close>)
qed

lemma requests_refine:
  assumes "good w" and "at_rest (loop_fuel s) (see w)"
    and "\<forall>r\<in>set rs. acceptable (\<lambda>key. key \<noteq> '''') (\<lambda>_ c. length c < loop_fuel s) r"
    and "spec_run (fs_identifier keyDomain) rs (kv_files (see w)) = (as, m)"
  shows "\<exists>w'. run_state (impl_run (fs_Get k Background) (fs_Set k Background) (fs_Delete k Background) rs) w = (as, w')
     \<and> kv_files (see w') = m \<and> at_rest (loop_fuel s) (see w')"
  using kept.run_refines [OF conjI [OF assms(1,2)] assms(3,4)] by blast

end

section \<open>A kernel in memory\<close>

text \<open>
  An instance with short transfers: a read hands out at most \<open>Suc portion\<close> bytes, a write takes
  at most that many. The world counts the descriptors it has given out.
\<close>

record memory =
  mem_view :: kernel_view
  mem_next :: nat

definition mem_good :: "memory \<Rightarrow> bool" where
  "mem_good w \<longleftrightarrow> (\<forall>fd. kv_handles (mem_view w) fd \<noteq> None \<longrightarrow> fd < int (mem_next w))"

definition mem_do :: "(kernel_view \<Rightarrow> 'a \<times> kernel_view) \<Rightarrow> (memory, 'a) state" where
  "mem_do f = State (\<lambda>w. case f (mem_view w) of (r, v) \<Rightarrow> (r, w\<lparr>mem_view := v\<rparr>))"

definition mem_open :: "handle \<Rightarrow> (memory, go_error + int) state" where
  "mem_open h = State (\<lambda>w. (Inr (int (mem_next w)),
     \<lparr>mem_view = put (int (mem_next w)) h (mem_view w), mem_next = Suc (mem_next w)\<rparr>))"

definition mem_file :: "string list \<Rightarrow> int \<Rightarrow> string \<Rightarrow> open_flag list \<Rightarrow> (memory, go_error + int) state" where
  "mem_file service d n flags = do {
     v \<leftarrow> mem_do (\<lambda>v. (v, v));
     (if kv_handles v d \<noteq> Some (Directory service) then ret (Inl (Errno ENOTDIR))
      else if O_EXCL \<in> set flags then
        (if kv_files v n = None
         then do { _ \<leftarrow> mem_do (\<lambda>v. ((), with_files ((kv_files v)(n \<mapsto> [])) v)); mem_open (Writing n) }
         else ret (Inl (Errno EEXIST)))
      else (case kv_files v n of None \<Rightarrow> ret (Inl (Errno ENOENT)) | Some c \<Rightarrow> mem_open (Reading c)))
   }"

definition mem_read :: "nat \<Rightarrow> int \<Rightarrow> nat \<Rightarrow> kernel_view \<Rightarrow> (int \<times> bytes \<times> go_error option) \<times> kernel_view" where
  "mem_read portion fd len v =
     (case kv_handles v fd of
        Some (Reading c) \<Rightarrow>
          let k = min (min len (Suc portion)) (length c)
          in ((int k, take k c, None), put fd (Reading (drop k c)) v)
      | _ \<Rightarrow> ((-1, [], Some (Errno EISDIR)), v))"

definition mem_write :: "nat \<Rightarrow> int \<Rightarrow> bytes \<Rightarrow> kernel_view \<Rightarrow> (int \<times> go_error option) \<times> kernel_view" where
  "mem_write portion fd c v =
     (case kv_handles v fd of
        Some (Writing n) \<Rightarrow>
          let k = min (Suc portion) (length c)
          in ((int k, None),
              with_files ((kv_files v)(n \<mapsto> (case kv_files v n of None \<Rightarrow> [] | Some old \<Rightarrow> old) @ take k c)) v)
      | _ \<Rightarrow> ((-1, Some (Errno EISDIR)), v))"

definition mem_below :: "string list \<Rightarrow> int \<Rightarrow> string \<Rightarrow> (memory, go_error + int) state" where
  "mem_below service d n = do {
     v \<leftarrow> mem_do (\<lambda>v. (v, v));
     (case kv_handles v d of
        Some (Directory p) \<Rightarrow>
          (if prefix (p @ [n]) service then mem_open (Directory (p @ [n])) else ret (Inl (Errno ENOENT)))
      | _ \<Rightarrow> ret (Inl (Errno ENOTDIR)))
   }"

definition mem_system :: "nat \<Rightarrow> string list \<Rightarrow> 32 word \<Rightarrow> memory linux_system" where
  "mem_system portion service uid =
     \<lparr>sys_validateMount = (\<lambda>_. ret None),
      sys_prepareDirectories = (\<lambda>_ _ _. ret None),
      sys_openDirectory = (\<lambda>_ _. mem_open (Directory [])),
      sys_openDirectoryAt = (\<lambda>d n _. mem_below service d n),
      sys_openFileAt = (\<lambda>d n flags _. mem_file service d n flags),
      sys_fstat = (\<lambda>_. ret (Inr \<lparr>st_mode = 0x8180, st_uid = uid\<rparr>)),
      sys_fchmod = (\<lambda>_ _. ret None),
      sys_read = (\<lambda>fd len. mem_do (mem_read portion fd len)),
      sys_write = (\<lambda>fd c. mem_do (mem_write portion fd c)),
      sys_fsync = (\<lambda>_. ret None),
      sys_close = (\<lambda>fd. mem_do (\<lambda>v. (None, shut fd v))),
      sys_renameAt = (\<lambda>_ n _ n'. mem_do (\<lambda>v. (None, with_files ((kv_files v)(n := None, n' := kv_files v n)) v))),
      sys_unlinkAt = (\<lambda>_ n _. mem_do (\<lambda>v. (None, with_files ((kv_files v)(n := None)) v)))\<rparr>"

definition mem_storage :: "nat \<Rightarrow> nat \<Rightarrow> string \<Rightarrow> memory linuxStorage" where
  "mem_storage portion limit service =
     \<lparr>rootPath = ''/keys'', storage_layout = newLayout service, effectiveUID = 1000,
      system = mem_system portion [layoutVersion, serviceID (newLayout service)] 1000,
      random = (\<lambda>n. ret (Inr (replicate n (CHR 0x61)))), room = (\<lambda>_. 511), loop_fuel = limit\<rparr>"

definition mem_keyring :: "nat \<Rightarrow> nat \<Rightarrow> string \<Rightarrow> memory fs_keyring" where
  "mem_keyring portion limit service =
     \<lparr>fs_storage = linux_storage (mem_storage portion limit service),
      fs_Lock = (\<lambda>_. ret ()), fs_Unlock = (\<lambda>_. ret ())\<rparr>"

lemma wp_mem_do:
  "P (fst (f v)) (snd (f v)) \<Longrightarrow> (\<And>fd. kv_handles (snd (f v)) fd \<noteq> None \<Longrightarrow> kv_handles v fd \<noteq> None) \<Longrightarrow>
     wp mem_good mem_view (mem_do f) v P"
  by (auto simp: wp_def mem_do_def mem_good_def split: prod.splits)

lemma wp_mem_open:
  assumes "\<And>fd. kv_handles v fd = None \<Longrightarrow> P (Inr fd) (put fd h v)"
  shows "wp mem_good mem_view (mem_open h) v P"
  unfolding wp_def
proof (intro allI impI)
  fix w assume w: "mem_good w" "mem_view w = v"
  then have "kv_handles v (int (mem_next w)) = None" by (force simp: mem_good_def)
  with assms w show "mem_good (snd (run_state (mem_open h) w))
      \<and> P (fst (run_state (mem_open h) w)) (mem_view (snd (run_state (mem_open h) w)))"
    by (force simp: mem_open_def mem_good_def)
qed

lemma wp_mem_look:
  "wp mem_good mem_view (f v) v P \<Longrightarrow> wp mem_good mem_view (mem_do (\<lambda>v. (v, v)) \<bind> f) v P"
  by (rule wp_then [OF wp_mem_do]) auto

lemma wp_mem_ok:
  assumes "P None (g v)" and "\<And>fd. kv_handles (g v) fd \<noteq> None \<Longrightarrow> kv_handles v fd \<noteq> None"
  shows "wp mem_good mem_view (mem_do (\<lambda>v. (None, g v))) v P"
  using assms by (intro wp_mem_do) auto

lemma wp_mem_below:
  assumes "kv_handles v d = Some (Directory p)" "prefix (p @ [n]) service"
  shows "wp mem_good mem_view (mem_below service d n) v
     (\<lambda>r v'. \<exists>fd. r = Inr fd \<and> kv_handles v fd = None \<and> v' = put fd (Directory (p @ [n])) v)"
  unfolding mem_below_def by (rule wp_mem_look) (use assms in \<open>auto intro: wp_mem_open\<close>)

lemma wp_mem_file:
  assumes "kv_handles v d = Some (Directory service)"
  shows "kv_files v n = Some c \<Longrightarrow> wp mem_good mem_view (mem_file service d n credential_flags) v
       (\<lambda>r v'. \<exists>fd. r = Inr fd \<and> kv_handles v fd = None \<and> v' = put fd (Reading c) v)"
    and "kv_files v n = None \<Longrightarrow> wp mem_good mem_view (mem_file service d n credential_flags) v
       (\<lambda>r v'. \<exists>e. r = Inl e \<and> err_is e ErrNotExist \<and> v' = v)"
    and "kv_files v n = None \<Longrightarrow> wp mem_good mem_view (mem_file service d n temporary_flags) v
       (\<lambda>r v'. \<exists>fd. r = Inr fd \<and> kv_handles v fd = None
          \<and> v' = put fd (Writing n) (with_files ((kv_files v)(n \<mapsto> [])) v))"
  using assms unfolding mem_file_def credential_flags_def temporary_flags_def
  by (auto intro!: wp_mem_look wp_mem_open wp_ret wp_then [OF wp_mem_do])

lemma wp_mem_read:
  assumes "kv_handles v fd = Some (Reading c)"
  shows "wp mem_good mem_view (mem_do (mem_read portion fd (Suc len))) v
     (\<lambda>r v'. \<exists>k. r = (int k, take k c, None) \<and> k \<le> Suc len \<and> k \<le> length c \<and> (k = 0 \<longleftrightarrow> c = [])
        \<and> v' = put fd (Reading (drop k c)) v)"
  by (rule wp_mem_do) (use assms in \<open>auto simp: mem_read_def Let_def min_def split: if_splits\<close>)

lemma wp_mem_write:
  assumes "kv_handles v fd = Some (Writing n)" "kv_files v n = Some old" "c \<noteq> []"
  shows "wp mem_good mem_view (mem_do (mem_write portion fd c)) v
     (\<lambda>r v'. \<exists>k. r = (int k, None) \<and> 0 < k \<and> k \<le> length c
        \<and> v' = with_files ((kv_files v)(n \<mapsto> old @ take k c)) v)"
  by (rule wp_mem_do)
    (use assms in \<open>auto simp: mem_write_def Let_def intro!: exI [of _ "min (Suc portion) (length c)"]\<close>)

lemmas mem_fields = mem_storage_def mem_system_def mem_keyring_def service_directory_def
  S_IFMT_def S_IFREG_def group_other_bits_def
lemmas mem_rules = wp_ret wp_mem_below wp_mem_file wp_mem_read wp_mem_write wp_mem_ok wp_mem_open

interpretation mem: locked_kernel "mem_storage portion limit service" mem_view mem_good
  "mem_keyring portion limit service"
proof
qed (auto simp: mem_fields intro!: mem_rules split: if_splits)

section \<open>Properties\<close>

text \<open>C22 The filesystem keyring is a map: over any kernel whose calls succeed as documented, whatever
  portions its reads and writes come in, from a service directory without temporary files and with
  no descriptor open, every sequence of \<open>Get\<close>, \<open>Set\<close> and \<open>Delete\<close> with non-empty keys and with values
  shorter than the fuel of the reads (stored ones too) answers as a map from credential names to
  values does; afterwards the service directory holds exactly that map, again without temporary
  files, and no descriptor is open. An empty key, which the sequences leave out, is refused by all
  three with \<open>ErrInvalidArgument\<close> and changes nothing.\<close>

theorem fs_refines_map:
  assumes "locked_kernel s see good k" and "good w" and "at_rest (loop_fuel s) (see w)"
    and "\<forall>r\<in>set rs. acceptable (\<lambda>key. key \<noteq> '''') (\<lambda>_ c. length c < loop_fuel s) r"
    and "spec_run (fs_identifier keyDomain) rs (kv_files (see w)) = (as, m)"
  shows "\<exists>w'. run_state (impl_run (fs_Get k Background) (fs_Set k Background) (fs_Delete k Background) rs) w = (as, w')
     \<and> kv_files (see w') = m \<and> at_rest (loop_fuel s) (see w')
     \<and> (\<exists>e. err_is e (Category ErrInvalidArgument) \<and> run_state (fs_Get k Background '''') w = (Inl e, w)
         \<and> run_state (fs_Set k Background '''' contents) w = (Some e, w)
         \<and> run_state (fs_Delete k Background '''') w = (Some e, w))"
proof -
  obtain e where "run_state (validateOperation Background '''') w = (Some e, w)" "err_is e (Category ErrInvalidArgument)"
    by (simp add: validateOperation_ok)
  with fs_invalid_operation [OF this(1)] locked_kernel.requests_refine [OF assms] show ?thesis by blast
qed

text \<open>One byte per read and write.\<close>

definition mem_empty :: memory where
  "mem_empty = \<lparr>mem_view = \<lparr>kv_files = Map.empty, kv_handles = Map.empty\<rparr>, mem_next = 3\<rparr>"

theorem fs_refines_map_witness:
  "\<exists>w'. run_state (impl_run (fs_Get (mem_keyring 0 100 ''mail'') Background)
       (fs_Set (mem_keyring 0 100 ''mail'') Background) (fs_Delete (mem_keyring 0 100 ''mail'') Background)
       [Set_req ''k'' ''secret'', Get_req ''k'', Delete_req ''k'', Get_req ''k'']) mem_empty
     = ([Done_ok, Value ''secret'', Done_ok, Missing], w') \<and> kv_handles (mem_view w') = Map.empty"
proof -
  let ?rs = "[Set_req ''k'' ''secret'', Get_req ''k'', Delete_req ''k'', Get_req ''k'']"
  have g: "mem_good mem_empty" "at_rest (loop_fuel (mem_storage 0 100 ''mail'')) (mem_view mem_empty)"
    by (simp_all add: mem_good_def at_rest_def mem_empty_def)
  have a: "\<forall>r\<in>set ?rs. acceptable (\<lambda>key. key \<noteq> '''')
      (\<lambda>_ c. length c < loop_fuel (mem_storage 0 100 ''mail'')) r"
    by (simp add: mem_storage_def)
  have s: "spec_run (fs_identifier keyDomain) ?rs (kv_files (mem_view mem_empty)) =
      ([Done_ok, Value ''secret'', Done_ok, Missing], (kv_files (mem_view mem_empty))(fs_identifier keyDomain ''k'' := None))"
    by simp
  show ?thesis
    using fs_refines_map [OF mem.locked_kernel_axioms g a s] unfolding at_rest_def by blast
qed

text \<open>C33 A credential whose first read fails is not reported as an error: the system call returns the
  count -1, the reader passes it on, and \<open>io.ReadAll\<close> slices its empty buffer to that length. \<open>Get\<close>
  panics; the deferred function closes the directory, but the credential's descriptor stays open.\<close>

theorem fs_read_failure_panics:
  assumes "run_state (openServiceDirectory s False) w = (Inr d, w1)"
    and "run_state (openCredential s d (fs_identifier keyDomain key)) w1 = (Inr fd, w2)"
    and "run_state (sys_read (system s) fd (Suc (room s 0))) w2 = ((-1, buf, Some err), w3)"
    and "loop_fuel s > 0"
  shows "run_state (linux_get s key) w =
     (Inl (GoPanic ''slice bounds out of range''), snd (run_state (sys_close (system s) d) w3))"
proof -
  obtain n where n: "loop_fuel s = Suc n" using assms(4) gr0_conv_Suc by auto
  show ?thesis
    using assms(1-3) by (simp add: linux_get_def n descriptorReader_Read_def run_defer_close split: prod.splits)
qed

text \<open>A kernel whose credential is a readable regular file with an unreadable block.\<close>

definition broken_storage :: "int list linuxStorage" where
  "broken_storage = \<lparr>rootPath = ''/keys'', storage_layout = newLayout ''mail'', effectiveUID = 1000,
     system =
       \<lparr>sys_validateMount = (\<lambda>_. ret None), sys_prepareDirectories = (\<lambda>_ _ _. ret None),
        sys_openDirectory = (\<lambda>_ _. ret (Inr 3)), sys_openDirectoryAt = (\<lambda>d _ _. ret (Inr (d + 1))),
        sys_openFileAt = (\<lambda>_ _ _ _. ret (Inr 9)), sys_fstat = (\<lambda>_. ret (Inr \<lparr>st_mode = 0x8180, st_uid = 1000\<rparr>)),
        sys_fchmod = (\<lambda>_ _. ret None), sys_read = (\<lambda>_ _. ret (-1, [], Some (Errno (OtherErrno 5)))),
        sys_write = (\<lambda>_ c. ret (int (length c), None)), sys_fsync = (\<lambda>_. ret None),
        sys_close = (\<lambda>fd. State (\<lambda>w. (None, fd # w))),
        sys_renameAt = (\<lambda>_ _ _ _. ret None), sys_unlinkAt = (\<lambda>_ _ _. ret None)\<rparr>,
     random = (\<lambda>n. ret (Inr (replicate n (CHR 0x61)))), room = (\<lambda>_. 511), loop_fuel = 100\<rparr>"

theorem fs_read_failure_panics_witness:
  "run_state (linux_get broken_storage ''k'') [] = (Inl (GoPanic ''slice bounds out of range''), [5, 3, 4])"
proof -
  have d: "run_state (openServiceDirectory broken_storage False) [] = (Inr 5, [3, 4])"
    by (simp add: openServiceDirectory_def run_defer_close broken_storage_def)
  have c: "run_state (openCredential broken_storage 5 (fs_identifier keyDomain ''k'')) [3, 4] = (Inr 9, [3, 4])"
    by (simp add: openCredential_def validateCredential_def broken_storage_def mem_fields)
  have r: "run_state (sys_read (system broken_storage) 9 (Suc (room broken_storage 0))) [3, 4] =
      ((-1, [], Some (Errno (OtherErrno 5))), [3, 4])"
    by (simp add: broken_storage_def)
  show ?thesis
    using fs_read_failure_panics [OF d c r] by (simp add: broken_storage_def)
qed

end
