(* ===== verification/Open_Fallback.thy ===== *)
theory Open_Fallback
  imports Open Fs_Contract
begin

text \<open>
  The root package and the filesystem backend together: what a caller gets who configured a
  fallback directory on a machine without Secret Service.
\<close>

text \<open>The storage and the keyring that \<open>Open\<close> of \<open>internal/backend/fs\<close> makes.\<close>

definition fallback_storage :: "'w root_world \<Rightarrow> string \<Rightarrow> string \<Rightarrow> 'w linuxStorage" where
  "fallback_storage rw root service =
     \<lparr>rootPath = root, storage_layout = newLayout service, effectiveUID = rw_euid rw, system = rw_linux rw,
      random = rw_random rw, room = rw_room rw, loop_fuel = rw_fuel rw\<rparr>"

definition fallback_keyring :: "'w root_world \<Rightarrow> string \<Rightarrow> string \<Rightarrow> 'w fs_keyring" where
  "fallback_keyring rw root service =
     \<lparr>fs_storage = linux_storage (fallback_storage rw root service), fs_Lock = rw_Lock rw, fs_Unlock = rw_Unlock rw\<rparr>"

lemma fallback_fields [simp]:
  "rootPath (fallback_storage rw root service) = root"
  "storage_layout (fallback_storage rw root service) = newLayout service"
  "effectiveUID (fallback_storage rw root service) = rw_euid rw"
  "system (fallback_storage rw root service) = rw_linux rw"
  "random (fallback_storage rw root service) = rw_random rw"
  "room (fallback_storage rw root service) = rw_room rw"
  "loop_fuel (fallback_storage rw root service) = rw_fuel rw"
  by (simp_all add: fallback_storage_def)

lemma fs_backend_opens:
  assumes "linux_kernel (fallback_storage rw root service) see good" and "rw_os rw = Linux"
    and "dir \<noteq> ''''" and "service \<noteq> ''''"
    and "run_state (rw_absolutePath rw dir) w = (Inr root, w1)" and "good w1"
  shows "\<exists>w2. run_state (fs_backend_Open rw dir service) w = (Inr (fallback_keyring rw root service), w2)
     \<and> good w2 \<and> see w2 = see w1"
proof -
  have "wp good see (openLinuxStorage root (newLayout service) (rw_euid rw) (rw_linux rw) (rw_random rw)
      (rw_room rw) (rw_fuel rw)) (see w1) (\<lambda>r v'. r = Inr (fallback_storage rw root service) \<and> v' = see w1)"
    using linux_kernel.opens_storage [OF assms(1)] by simp
  from wp_run [OF this assms(6)] obtain w2 where
    "run_state (openLinuxStorage root (newLayout service) (rw_euid rw) (rw_linux rw) (rw_random rw)
      (rw_room rw) (rw_fuel rw)) w1 = (Inr (fallback_storage rw root service), w2)" "good w2" "see w2 = see w1"
    by metis
  with assms show ?thesis
    by (simp add: fs_backend_Open_def openKeyring_def openStorage_linux_def fallback_keyring_def)
qed

lemma root_falls_back:
  fixes rw :: "'w root_world"
  assumes "rw_os rw = Linux" "dir \<noteq> ''''" "service \<noteq> ''''"
    and "run_state (root_probeNativeBackend rw Background) w = (Some e, w1)" "permits_fallback e"
    and "run_state (fs_backend_Open rw dir service) w1 = (Inr f, w2)"
  shows "run_state (root_Open rw Background
       [Some \<lparr>op_Service = service, op_Keyringer = None, op_FallbackDir = dir, op_Backends = []\<rparr>]) w
     = (Inr (Filesystem_keyring f, filesystem_info\<lparr>Rejected := [(BackendSecretService, Some e)]\<rparr>), w2)"
proof -
  let ?opt = "\<lparr>op_Service = service, op_Keyringer = None, op_FallbackDir = dir, op_Backends = []\<rparr> :: 'w open_option"
  have reg: "root_registry rw ?opt BackendSecretService = Some (open_native rw ?opt)"
    "root_registry rw ?opt BackendFilesystem = Some (open_filesystem rw ?opt)"
    using assms(1) by (simp_all add: root_registry_def root_nativeBackendSupported_def root_nativeBackendInfo_def backend_defs)
  have a: "run_state (attempt Background (root_registry rw ?opt) BackendSecretService) w = (Skipped e, w1)"
    using assms(4,5) by (simp add: attempt_def reg open_native_def)
  have b: "run_state (attempt Background (root_registry rw ?opt) BackendFilesystem) w1 =
      (Selected (Filesystem_keyring f) filesystem_info, w2)"
    using assms(2,6) by (simp add: attempt_def reg open_filesystem_def)
  have "root_order Linux ?opt = [BackendSecretService, BackendFilesystem]"
    using assms(2) by (simp add: root_order_def root_nativeBackendSupported_def root_nativeBackendInfo_def)
  then have "run_state (SelectBackend Background (root_order Linux ?opt) (root_registry rw ?opt)) w =
      (Inr (Filesystem_keyring f, filesystem_info\<lparr>Rejected := [(BackendSecretService, Some e)]\<rparr>), w2)"
    by (simp add: SelectBackend_def select_loop_attempt a b) (simp add: filesystem_info_def)
  moreover have "mergeOptions [Some ?opt] = Inr ?opt" by (simp add: mergeOptions_def)
  ultimately show ?thesis using assms(1,3) by (simp add: root_Open_def)
qed

section \<open>Properties\<close>

text \<open>C15 The fallback works and is announced: on Linux, when Secret Service is unavailable and the
  caller configured a directory, \<open>Open\<close> returns the filesystem keyring, described as a fallback
  with the rejection and its reason, and its operations answer every sequence of requests as
  a map does, on the credentials below the resolved directory.\<close>

theorem root_fallback_then_use:
  fixes rw :: "'w root_world"
  assumes "locked_kernel (fallback_storage rw root service) see good (fallback_keyring rw root service)"
    and "rw_os rw = Linux" and "dir \<noteq> ''''" and "service \<noteq> ''''"
    and "run_state (root_probeNativeBackend rw Background) w = (Some e, w1)" and "permits_fallback e"
    and "run_state (rw_absolutePath rw dir) w1 = (Inr root, w2)" and "good w2" and "at_rest (rw_fuel rw) (see w2)"
    and "\<forall>r\<in>set rs. acceptable (\<lambda>key. key \<noteq> '''') (\<lambda>_ c. length c < rw_fuel rw) r"
    and "spec_run (fs_identifier keyDomain) rs (kv_files (see w2)) = (as, m)"
  shows "\<exists>k i w3 w4. run_state (root_Open rw Background
         [Some \<lparr>op_Service = service, op_Keyringer = None, op_FallbackDir = dir, op_Backends = []\<rparr>]) w
       = (Inr (k, i), w3)
     \<and> Backend i = BackendFilesystem \<and> Fallback i \<and> Rejected i = [(BackendSecretService, Some e)]
     \<and> run_state (impl_run (kr_Get (methods rw k) Background) (kr_Set (methods rw k) Background)
         (kr_Delete (methods rw k) Background) rs) w3 = (as, w4)
     \<and> kv_files (see w4) = m \<and> at_rest (rw_fuel rw) (see w4)"
proof -
  let ?k = "fallback_keyring rw root service"
  obtain w3 where o: "run_state (fs_backend_Open rw dir service) w1 = (Inr ?k, w3)" "good w3" "see w3 = see w2"
    using fs_backend_opens [OF locked_kernel.axioms(1) [OF assms(1)] assms(2-4,7,8)] by blast
  obtain w4 where "run_state (impl_run (fs_Get ?k Background) (fs_Set ?k Background) (fs_Delete ?k Background) rs) w3 = (as, w4)"
    "kv_files (see w4) = m" "at_rest (rw_fuel rw) (see w4)"
    using locked_kernel.requests_refine [OF assms(1) o(2), of rs as m] assms(9-11) o(3) by auto
  with root_falls_back [OF assms(2,3,4,5,6) o(1)] show ?thesis
    by (intro exI [of _ "Filesystem_keyring ?k"] exI [of _ w3] exI [of _ w4]
        exI [of _ "filesystem_info\<lparr>Rejected := [(BackendSecretService, Some e)]\<rparr>"])
      (simp add: methods_def filesystem_info_def)
qed

section \<open>Witness\<close>

text \<open>Linux with the kernel in memory and without a session bus.\<close>

definition demo_files :: "memory root_world" where
  "demo_files =
     \<lparr>rw_os = Linux,
      rw_native = \<lparr>nw_WithTimeout = (\<lambda>x _. ret (x, ret ())),
        nw_bus = no_session_bus,
        nw_Quote = (\<lambda>s. s), nw_security = (\<lambda>_ _ _. ret ('''', None)),
        nw_wincred = \<lparr>GetGenericCredential = (\<lambda>_. ret (Inl (WinError ErrElementNotFound))),
          WriteGeneric = (\<lambda>_ _ _. ret None), DeleteGeneric = (\<lambda>_. ret None)\<rparr>\<rparr>,
      rw_absolutePath = (\<lambda>p. ret (Inr (''/home/u/'' @ p))), rw_euid = 1000,
      rw_linux = mem_system 2 [layoutVersion, serviceID (newLayout ''mail'')] 1000,
      rw_random = (\<lambda>n. ret (Inr (replicate n (CHR 0x61)))), rw_room = (\<lambda>_. 511), rw_fuel = 100,
      rw_Lock = (\<lambda>_. ret ()), rw_Unlock = (\<lambda>_. ret ())\<rparr>"

definition demo_no_bus :: go_error where
  "demo_no_bus = Errorf ''connect to session bus: %w''
     [Errorf ''%w: dial session bus: %w'' [Category ErrBackendUnavailable, ErrNotExist]]"

lemma demo_files_facts:
  "rw_os demo_files = Linux" "rw_fuel demo_files = 100"
  "run_state (rw_absolutePath demo_files d) w = (Inr (''/home/u/'' @ d), w)"
  "run_state (root_probeNativeBackend demo_files Background) w = (Some demo_no_bus, w)"
  "permits_fallback demo_no_bus"
  by (simp_all add: demo_files_def demo_no_bus_def root_probeNativeBackend_def probe_def dbus_entries newConnector_none dbus_contextError_eq
      backendError_def Background_def ContextError_def classify_bus_def dbus_portable_def permits_fallback_def)

text \<open>The laws do not depend on the name of the root.\<close>

lemma demo_files_kernel:
  "locked_kernel (fallback_storage demo_files root ''mail'') mem_view mem_good (fallback_keyring demo_files root ''mail'')"
  by unfold_locales
    (auto simp: fallback_keyring_def demo_files_def mem_fields intro!: mem_rules split: if_splits)

theorem root_fallback_then_use_witness:
  "\<exists>k i w3 w4. run_state (root_Open demo_files Background
       [Some \<lparr>op_Service = ''mail'', op_Keyringer = None, op_FallbackDir = ''keys'', op_Backends = []\<rparr>]) mem_empty
       = (Inr (k, i), w3) \<and> Rejected i = [(BackendSecretService, Some demo_no_bus)]
     \<and> run_state (impl_run (kr_Get (methods demo_files k) Background) (kr_Set (methods demo_files k) Background)
         (kr_Delete (methods demo_files k) Background) [Set_req ''k'' ''secret'', Get_req ''k'']) w3
       = ([Done_ok, Value ''secret''], w4)"
proof -
  let ?rs = "[Set_req ''k'' ''secret'', Get_req ''k'']"
  have g: "mem_good mem_empty" "at_rest (rw_fuel demo_files) (mem_view mem_empty)"
    by (simp_all add: mem_good_def at_rest_def mem_empty_def)
  have a: "\<forall>r\<in>set ?rs. acceptable (\<lambda>key. key \<noteq> '''') (\<lambda>_ c. length c < rw_fuel demo_files) r"
    by (simp add: demo_files_facts)
  have s: "spec_run (fs_identifier keyDomain) ?rs (kv_files (mem_view mem_empty)) =
      ([Done_ok, Value ''secret''], (kv_files (mem_view mem_empty))(fs_identifier keyDomain ''k'' \<mapsto> ''secret''))"
    by simp
  have n: "''keys'' \<noteq> ''''" "''mail'' \<noteq> ''''" by simp_all
  show ?thesis
    using root_fallback_then_use [OF demo_files_kernel demo_files_facts(1) n demo_files_facts(4,5)
        demo_files_facts(3) g a s]
    by blast
qed

end
