(* ===== verification/Wsl2_Contract.thy ===== *)
theory Wsl2_Contract
  imports Wsl2 Wsl2_Json Windows
begin

text \<open>
  The WSL2 keyring as an implementation of the \<open>Keyringer\<close> contract. The helper is any program
  that answers valid requests as the protocol says, on its standard output and with the exit
  code of its answer; the messages are JSON in both directions. It keeps the credential of an
  account under the target \<open>service:account\<close> in Windows Credential Manager, so nothing is
  promised for names beyond the limits of Windows, and names the manager takes for the same
  are one credential.
\<close>

section \<open>Answers of the helper\<close>

definition succeeds :: "helper_request \<Rightarrow> string option \<Rightarrow> bool option \<Rightarrow> helper_response" where
  "succeeds rq sec del =
     \<lparr>rp_Protocol = rq_Protocol rq, rp_RequestID = rq_RequestID rq, rp_OK = True,
      rp_Result = Some \<lparr>HelperVersion = '''', SupportedProtocols = None, rs_Backend = '''',
        rs_Secret = sec, Deleted = del, secret = []\<rparr>,
      rp_Error = None\<rparr>"

definition supports :: "helper_request \<Rightarrow> string \<Rightarrow> string list \<Rightarrow> helper_response" where
  "supports rq version ps =
     \<lparr>rp_Protocol = rq_Protocol rq, rp_RequestID = rq_RequestID rq, rp_OK = True,
      rp_Result = Some \<lparr>HelperVersion = version, SupportedProtocols = Some ps, rs_Backend = backendName,
        rs_Secret = None, Deleted = None, secret = []\<rparr>,
      rp_Error = None\<rparr>"

definition lacks :: "helper_request \<Rightarrow> string \<Rightarrow> helper_response" where
  "lacks rq message =
     \<lparr>rp_Protocol = rq_Protocol rq, rp_RequestID = rq_RequestID rq, rp_OK = False, rp_Result = None,
      rp_Error = Some \<lparr>pe_Code = ''not_found'', pe_Message = message, pe_Retryable = False,
        pe_SupportedProtocols = []\<rparr>\<rparr>"

text \<open>What the target of a request designates, for what the manager takes names to be.\<close>

abbreviation credential_of :: "(string \<Rightarrow> 't) \<Rightarrow> helper_request \<Rightarrow> 't" where
  "credential_of entry rq \<equiv> entry (win_target (rq_Service rq) (rq_Account rq))"

text \<open>A helper may report a deletion of nothing as a success that says so or as an error.\<close>

inductive helper_answers ::
  "(string \<Rightarrow> 't) \<Rightarrow> ('t \<rightharpoonup> bytes) \<Rightarrow> helper_request \<Rightarrow> helper_response \<Rightarrow> ('t \<rightharpoonup> bytes) \<Rightarrow> bool"
  for entry m rq where
  greets: "rq_Operation rq = operationProbe \<Longrightarrow> version \<noteq> '''' \<Longrightarrow> protocolID \<in> set ps \<Longrightarrow>
    helper_answers entry m rq (supports rq version ps) m"
| has: "rq_Operation rq = operationGet \<Longrightarrow> m (credential_of entry rq) = Some v \<Longrightarrow>
    helper_answers entry m rq (succeeds rq (Some (base64_encode v)) None) m"
| has_not: "rq_Operation rq = operationGet \<Longrightarrow> m (credential_of entry rq) = None \<Longrightarrow> message \<noteq> '''' \<Longrightarrow>
    helper_answers entry m rq (lacks rq message) m"
| saves: "rq_Operation rq = operationSet \<Longrightarrow> rq_Secret rq = Some s \<Longrightarrow> base64_decode True s = Inr v \<Longrightarrow>
    helper_answers entry m rq (succeeds rq None None) (m(credential_of entry rq \<mapsto> v))"
| drops: "rq_Operation rq = operationDelete \<Longrightarrow> m (credential_of entry rq) = Some v \<Longrightarrow>
    helper_answers entry m rq (succeeds rq None (Some True)) (m(credential_of entry rq := None))"
| drops_nothing: "rq_Operation rq = operationDelete \<Longrightarrow> m (credential_of entry rq) = None \<Longrightarrow>
    helper_answers entry m rq (succeeds rq None (Some False)) m"
| drops_not: "rq_Operation rq = operationDelete \<Longrightarrow> m (credential_of entry rq) = None \<Longrightarrow> message \<noteq> '''' \<Longrightarrow>
    helper_answers entry m rq (lacks rq message) m"

text \<open>A finished process that printed the answer.\<close>

definition printed :: "process_result \<Rightarrow> helper_response \<Rightarrow> bool" where
  "printed p rp \<longleftrightarrow> pr_err p = None \<and> pr_output p \<noteq> [] \<and> length (pr_output p) \<le> maxMessageBytes
     \<and> Unmarshal_response (pr_output p) = Inr rp \<and> pr_exitCode p = (if rp_OK rp then 0 else 1)"

lemma printed_lacks:
  assumes "printed p (lacks rq message)" and "message \<noteq> ''''"
  shows "\<exists>e. check_process Unmarshal_response rq p None = Inl e \<and> wsl_category e = ErrNotFound \<and> \<not> err_is e Canceled"
  using assms by (simp add: check_process_def printed_def decodeResponse_def lacks_def validateProtocolError_def
      validErrorCode_def sentinelForCode_def check_response_def exitOperationError_def exitSuccess_def
      wsl_category_def)

lemma printed_succeeds:
  assumes "printed p (succeeds rq sec del)"
    and "validateResult (rq_Operation rq) (the (rp_Result (succeeds rq sec del))) = Inr res"
  shows "check_process Unmarshal_response rq p None = Inr res"
  using assms by (simp add: check_process_def printed_def decodeResponse_def succeeds_def check_response_def
      exitSuccess_def)

text \<open>What the client makes of each answer.\<close>

lemma probe_answered:
  assumes "helper_answers entry m rq rp m'" "rq_Operation rq = operationProbe" "printed p rp"
  shows "m' = m \<and> (\<exists>res. check_process Unmarshal_response rq p None = Inr res)"
  using assms(1)
proof (cases rule: helper_answers.cases)
  case (greets version ps)
  let ?r = "the (rp_Result (supports rq version ps))"
  have "validateResult (rq_Operation rq) ?r = Inr ?r"
    using assms(2) greets by (simp add: validateResult_def operation_names supports_def)
  with assms(3) greets show ?thesis
    by (simp add: check_process_def printed_def decodeResponse_def supports_def check_response_def exitSuccess_def)
qed (use assms(2) in \<open>simp_all add: operation_names\<close>)

lemma get_answered:
  assumes "helper_answers entry m rq rp m'" "rq_Operation rq = operationGet" "printed p rp"
    and "\<And>v. m (credential_of entry rq) = Some v \<Longrightarrow> length v \<le> maxSecretBytes"
  shows "m' = m \<and> (case m (credential_of entry rq) of
       Some v \<Rightarrow> \<exists>res. check_process Unmarshal_response rq p None = Inr res \<and> secret res = v
     | None \<Rightarrow> \<exists>e. check_process Unmarshal_response rq p None = Inl e \<and> wsl_category e = ErrNotFound \<and> \<not> err_is e Canceled)"
  using assms(1)
proof (cases rule: helper_answers.cases)
  case (has v)
  let ?r = "the (rp_Result (succeeds rq (Some (base64_encode v)) None))"
  have "validateResult (rq_Operation rq) ?r = Inr (?r\<lparr>secret := v\<rparr>)"
    using assms(2) assms(4) [OF has(4)]
    by (simp add: validateResult_def operation_names succeeds_def base64_roundtrip)
  from printed_succeeds [OF assms(3) [unfolded has(1)] this] has show ?thesis by simp
next
  case (has_not message)
  with printed_lacks assms(3) show ?thesis by auto
qed (use assms(2) in \<open>simp_all add: operation_names\<close>)

lemma set_answered:
  assumes "helper_answers entry m rq rp m'" "rq_Operation rq = operationSet" "printed p rp"
    and "rq_Secret rq = Some (base64_encode v)"
  shows "m' = m(credential_of entry rq \<mapsto> v) \<and> (\<exists>res. check_process Unmarshal_response rq p None = Inr res)"
  using assms(1)
proof (cases rule: helper_answers.cases)
  case (saves s v')
  let ?r = "the (rp_Result (succeeds rq None None))"
  have "validateResult (rq_Operation rq) ?r = Inr ?r"
    using assms(2) by (simp add: validateResult_def operation_names succeeds_def)
  from printed_succeeds [OF assms(3) [unfolded saves(1)] this] saves assms(4) show ?thesis
    by (auto simp: base64_roundtrip)
qed (use assms(2) in \<open>simp_all add: operation_names\<close>)

lemma delete_answered:
  assumes "helper_answers entry m rq rp m'" "rq_Operation rq = operationDelete" "printed p rp"
  shows "case m (credential_of entry rq) of
       Some v \<Rightarrow> m' = m(credential_of entry rq := None)
         \<and> (\<exists>res. check_process Unmarshal_response rq p None = Inr res \<and> Deleted res = Some True)
     | None \<Rightarrow> m' = m \<and> ((\<exists>res. check_process Unmarshal_response rq p None = Inr res \<and> Deleted res = Some False)
         \<or> (\<exists>e. check_process Unmarshal_response rq p None = Inl e \<and> wsl_category e = ErrNotFound \<and> \<not> err_is e Canceled))"
proof -
  have valid: "validateResult (rq_Operation rq) (the (rp_Result (succeeds rq None (Some b)))) =
      Inr (the (rp_Result (succeeds rq None (Some b))))" for b
    using assms(2) by (simp add: validateResult_def operation_names succeeds_def)
  have del: "Deleted (the (rp_Result (succeeds rq None (Some b)))) = Some b" for b
    by (simp add: succeeds_def)
  show ?thesis
    using assms(1)
  proof (cases rule: helper_answers.cases)
    case (drops v)
    with printed_succeeds [OF assms(3) [unfolded drops(1)] valid] del show ?thesis by auto
  next
    case drops_nothing
    with printed_succeeds [OF assms(3) [unfolded drops_nothing(1)] valid] del show ?thesis by auto
  next
    case (drops_not message)
    with printed_lacks assms(3) show ?thesis by auto
  qed (use assms(2) in \<open>simp_all add: operation_names\<close>)
qed

section \<open>The contract\<close>

text \<open>An action that gives this result and leaves the credentials alone.\<close>

definition harmless :: "('w \<Rightarrow> 't \<rightharpoonup> bytes) \<Rightarrow> ('w \<Rightarrow> bool) \<Rightarrow> ('w, 'a) state \<Rightarrow> 'a \<Rightarrow> bool" where
  "harmless secrets_of good m r \<longleftrightarrow>
     (\<forall>w. good w \<longrightarrow> (\<exists>w'. run_state m w = (r, w') \<and> good w' \<and> secrets_of w' = secrets_of w))"

text \<open>
  The keyring is configured, the derived context does not end during a call, request
  identifiers are valid and at most 32 bytes, and the manager holds no value above its limit of
  2560 bytes. A line that reads as a valid request is answered when its names are within the
  limits of the target platform (\<open>win_valid\<close>: valid UTF-8 without NUL, the account at most 513 and
  \<open>service:account\<close> at most 32767 UTF-16 code units), and its secret is a value in base64
  within the limit.
\<close>

definition secret_ok :: "string option \<Rightarrow> bool" where
  "secret_ok sec \<longleftrightarrow> (case sec of None \<Rightarrow> True | Some s \<Rightarrow> \<exists>v. s = base64_encode v \<and> length v \<le> 2560)"

definition request_ok :: "helper_request \<Rightarrow> bool" where
  "request_ok rq \<longleftrightarrow> validateRequest rq = None \<and> rq_Protocol rq = protocolID \<and> ValidString (rq_RequestID rq)
     \<and> length (rq_RequestID rq) \<le> 32 \<and> secret_ok (rq_Secret rq)
     \<and> (rq_Operation rq = operationProbe \<or> win_valid (rq_Service rq) (rq_Account rq))"

text \<open>
  On its way to the helper each byte of an account that is not valid UTF-8 becomes U+FFFD, so
  the target of an account is that of its valid form.
\<close>

definition bridge_target :: "string \<Rightarrow> string \<Rightarrow> string" where
  "bridge_target service a = win_target service (to_valid a)"

definition bridge_valid :: "string \<Rightarrow> string \<Rightarrow> bool" where
  "bridge_valid service a \<longleftrightarrow> CHR 0x00 \<notin> set a \<and> win_valid service (to_valid a)"

lemma bridge_utf8:
  "ValidString a \<Longrightarrow> bridge_target service a = win_target service a"
  "ValidString a \<Longrightarrow> bridge_valid service a \<longleftrightarrow> win_valid service a"
  by (auto simp: bridge_target_def bridge_valid_def to_valid_ValidString win_valid_def validatedTarget_Inr)

text \<open>What the limits in UTF-16 code units say of the bytes of a request.\<close>

lemma bridge_valid_names:
  assumes "bridge_valid service a"
  shows "service \<noteq> '''' \<and> CHR 0x00 \<notin> set service \<and> to_valid service = service
     \<and> a \<noteq> '''' \<and> CHR 0x00 \<notin> set a \<and> CHR 0x00 \<notin> set (to_valid a) \<and> length service + length a \<le> 98301"
proof -
  have v: "win_valid service (to_valid a)" "CHR 0x00 \<notin> set a" using assms by (simp_all add: bridge_valid_def)
  have "length (win_target service (to_valid a)) \<le> 98301"
    using bytes_le_utf16 [of "win_target service (to_valid a)"] v(1)
    by (simp add: win_valid_def validatedTarget_Inr win_target_def utf16Units_def maxGenericTargetUnits_def)
  then have "length service + length a \<le> 98301"
    using length_to_valid [of a] by (simp add: win_target_def)
  with v show ?thesis
    by (simp add: win_valid_def validatedTarget_Inr to_valid_ValidString)
qed

lemma not_probe: "operationGet \<noteq> operationProbe" "operationSet \<noteq> operationProbe" "operationDelete \<noteq> operationProbe"
  by (simp_all add: operation_names)

locale windows_helper =
  fixes k :: "'w wsl2_keyring" and WithTimeout :: "'w with_timeout" and entry :: "string \<Rightarrow> 't"
    and secrets_of :: "'w \<Rightarrow> 't \<rightharpoonup> bytes" and good :: "'w \<Rightarrow> bool"
  assumes configured: "w_run k \<noteq> None" "w_requestID k \<noteq> None" "w_encode k = Some encodeRequest"
      "w_helperPath k \<noteq> ''''" "0 < w_timeout k" "w_service k \<noteq> ''''" "CHR 0x00 \<notin> set (w_service k)"
    and identifies: "\<And>w. good w \<Longrightarrow> \<exists>rid w'. run_state (the (w_requestID k)) w = (Inr rid, w')
      \<and> rid \<noteq> '''' \<and> length rid \<le> 32 \<and> ValidString rid \<and> good w' \<and> secrets_of w' = secrets_of w"
    and derives: "\<And>w. good w \<Longrightarrow> \<exists>x cancel w'. run_state (WithTimeout (ret None) (w_timeout k)) w = ((x, cancel), w')
      \<and> good w' \<and> secrets_of w' = secrets_of w
      \<and> harmless secrets_of good x None \<and> harmless secrets_of good cancel ()"
    and answers: "\<And>w rq line x. good w \<Longrightarrow> request_ok rq \<Longrightarrow> read_json line = Some (request_json rq) \<Longrightarrow>
      CHR 10 \<notin> set line \<Longrightarrow>
      \<exists>p w' rp. run_state (the (w_run k) x (w_helperPath k) (line @ [CHR 10])) w = (p, w') \<and> good w'
        \<and> printed p rp \<and> helper_answers entry (secrets_of w) rq rp (secrets_of w')"
    and limits: "\<And>w slot v. good w \<Longrightarrow> secrets_of w slot = Some v \<Longrightarrow> length v \<le> 2560"
begin

lemma invokes:
  assumes "good w"
    and "op = operationProbe \<and> sec = None \<or> bridge_valid (w_service k) a \<and> (op = operationGet \<and> sec = None
      \<or> op = operationDelete \<and> sec = None
      \<or> op = operationSet \<and> (\<exists>v. sec = Some (base64_encode v) \<and> length v \<le> 2560))"
  obtains rq p rp w' where
    "run_state (invoke Unmarshal_response WithTimeout (Some k) Background op a sec) w =
       (check_process Unmarshal_response rq p None, w')" "good w'"
    "rq_Operation rq = op" "rq_Secret rq = sec"
    "op \<noteq> operationProbe \<Longrightarrow> credential_of entry rq = entry (bridge_target (w_service k) a)"
    "printed p rp" "helper_answers entry (secrets_of w) rq rp (secrets_of w')"
proof -
  obtain rid w1 where r: "run_state (the (w_requestID k)) w = (Inr rid, w1)" "rid \<noteq> ''''" "length rid \<le> 32"
    "ValidString rid" "good w1" "secrets_of w1 = secrets_of w" using identifies [OF assms(1)] by blast
  let ?rq = "make_request k rid op a sec"
  let ?line = "write_value (request_json ?rq)"
  let ?vq = "make_request k rid op (to_valid a) sec"
  have names: "bridge_valid (w_service k) a" if "op \<noteq> operationProbe" using assms(2) that by blast
  note n = bridge_valid_names [OF names]
  have v: "validateRequest ?rq = None" "validateRequest ?vq = None"
    using assms(2) n by (elim disjE conjE exE; simp add: validateRequest_def Let_def operation_names)+
  have "op = operationProbe \<or> win_valid (w_service k) (to_valid a)" using names by (auto simp: bridge_valid_def)
  then have ok: "request_ok ?vq" using v(2) r assms(2) by (auto simp: request_ok_def secret_ok_def)
  have "valid_request ?rq = ?vq"
    using assms(2) n r(4)
    by (elim disjE conjE exE)
      (simp_all add: valid_request_def make_request_def to_valid_ValidString ValidString_literals base64_valid not_probe)
  then obtain line where line: "encodeRequest ?rq = Inr line" "read_json line = Some (request_json ?vq)"
    "CHR 10 \<notin> set line" using encoded_line [of ?rq] by auto
  have e: "the (w_encode k) ?rq = Inr line" using configured(3) line(1) by simp
  have "(case sec of None \<Rightarrow> 0 | Some s \<Rightarrow> length s) \<le> 3416" using assms(2) by auto
  moreover have "length (rq_Service ?rq) + length (rq_Account ?rq) \<le> 98301"
    using n by auto
  moreover have "length (rq_Operation ?rq) \<le> 6"
    using assms(2) by (auto simp: operation_names)
  moreover have "length (rq_Protocol ?rq) \<le> 26"
    by (auto simp: protocolID_def)
  ultimately have "length line < 1048576"
    using length_request [of ?rq] line(1) r(3) by (simp add: encodeRequest_def del: rq_make_request(5,6))
  then have len: "\<not> length (line @ [CHR 10]) > maxMessageBytes" by (simp add: maxMessageBytes_def)
  obtain x cancel w2 where t: "run_state (WithTimeout (ret None) (w_timeout k)) w1 = ((x, cancel), w2)" "good w2"
    "secrets_of w2 = secrets_of w1" "harmless secrets_of good x None" "harmless secrets_of good cancel ()"
    using derives [OF r(5)] by blast
  obtain p w3 rp where p: "run_state (the (w_run k) x (w_helperPath k) (line @ [CHR 10])) w2 = (p, w3)" "good w3"
    "printed p rp" "helper_answers entry (secrets_of w2) ?vq rp (secrets_of w3)"
    using answers [OF t(2) ok line(2,3), of x] by blast
  obtain w4 where x: "run_state x w3 = (None, w4)" "good w4" "secrets_of w4 = secrets_of w3"
    using t(4) p(2) unfolding harmless_def by blast
  obtain w5 where c: "run_state cancel w4 = ((), w5)" "good w5" "secrets_of w5 = secrets_of w4"
    using t(5) x(2) unfolding harmless_def by blast
  have nc: "\<not> (w_run k = None \<or> w_requestID k = None \<or> w_encode k = None \<or> w_helperPath k = '''')" "\<not> w_timeout k \<le> 0"
    using configured by auto
  have "run_state (invoke Unmarshal_response WithTimeout (Some k) Background op a sec) w =
      (check_process Unmarshal_response ?rq p None, w5)"
    unfolding invoke_def
    using nc len r(2) by (auto simp: r(1) v(1) e Let_def Background_def ContextError_def t(1) p(1) x(1) c(1))
  also have "check_process Unmarshal_response ?rq p None = check_process Unmarshal_response ?vq p None"
    by (simp only: check_process_def decodeResponse_def rq_make_request)
  finally show thesis
    by (rule that) (use p t r x c in \<open>simp_all add: bridge_target_def\<close>)
qed

lemma invokes_account:
  assumes "good w" "bridge_valid (w_service k) a"
    and "op = operationGet \<and> sec = None \<or> op = operationDelete \<and> sec = None
      \<or> op = operationSet \<and> (\<exists>v. sec = Some (base64_encode v) \<and> length v \<le> 2560)"
  obtains rq p rp w' where
    "run_state (invoke Unmarshal_response WithTimeout (Some k) Background op a sec) w =
       (check_process Unmarshal_response rq p None, w')" "good w'"
    "rq_Operation rq = op" "rq_Secret rq = sec" "credential_of entry rq = entry (bridge_target (w_service k) a)"
    "printed p rp" "helper_answers entry (secrets_of w) rq rp (secrets_of w')"
proof (rule invokes [OF assms(1) disjI2 [OF conjI [OF assms(2,3)]]], goal_cases)
  case (1 rq p rp w')
  have "op \<noteq> operationProbe" using assms(3) by (auto simp: operation_names)
  with 1 show ?case by (intro that)
qed

text \<open>The probe of \<open>New\<close> succeeds.\<close>

lemma probes:
  assumes "good w"
  shows "\<exists>w'. run_state (wsl2_probe Unmarshal_response WithTimeout (Some k) Background) w = (None, w')
     \<and> good w' \<and> secrets_of w' = secrets_of w"
proof -
  obtain rq p rp w' where i:
    "run_state (invoke Unmarshal_response WithTimeout (Some k) Background operationProbe '''' None) w =
       (check_process Unmarshal_response rq p None, w')" "good w'" "rq_Operation rq = operationProbe"
    "printed p rp" "helper_answers entry (secrets_of w) rq rp (secrets_of w')"
    by (rule invokes [OF assms, of operationProbe None "''''"]) simp
  with probe_answered [OF i(5,3,4)] show ?thesis by (auto simp: wsl2_probe_def)
qed

lemma missing_portable:
  "wsl_category e = ErrNotFound \<Longrightarrow> \<not> err_is e Canceled \<Longrightarrow> err_is (portable_of e) (Category ErrNotFound)"
  by (simp add: portable_of_def portableError_def)

sublocale keyring: keyringer_contract
  "wsl2_Get Unmarshal_response WithTimeout (Some k) Background" "wsl2_Set Unmarshal_response WithTimeout (Some k) Background"
  "wsl2_Delete Unmarshal_response WithTimeout (Some k) Background" secrets_of "\<lambda>a. entry (bridge_target (w_service k) a)"
  good "bridge_valid (w_service k)" "\<lambda>_ v. length v \<le> 2560"
proof (unfold_locales, goal_cases)
  case (1 w a v)
  then obtain rq p rp w' where i:
    "run_state (invoke Unmarshal_response WithTimeout (Some k) Background operationGet a None) w =
       (check_process Unmarshal_response rq p None, w')" "good w'"
    "rq_Operation rq = operationGet" "rq_Secret rq = None" "credential_of entry rq = entry (bridge_target (w_service k) a)"
    "printed p rp" "helper_answers entry (secrets_of w) rq rp (secrets_of w')"
    using invokes_account by metis
  from get_answered [OF i(7,3,6)] 1 limits [OF 1(1)] i(5) have
    "secrets_of w' = secrets_of w" "\<exists>res. check_process Unmarshal_response rq p None = Inr res \<and> secret res = v"
    by (auto simp: maxSecretBytes_def)
  with i(1,2) show ?case by (auto simp: wsl2_Get_def)
next
  case (2 w a)
  then obtain rq p rp w' where i:
    "run_state (invoke Unmarshal_response WithTimeout (Some k) Background operationGet a None) w =
       (check_process Unmarshal_response rq p None, w')" "good w'"
    "rq_Operation rq = operationGet" "rq_Secret rq = None" "credential_of entry rq = entry (bridge_target (w_service k) a)"
    "printed p rp" "helper_answers entry (secrets_of w) rq rp (secrets_of w')"
    using invokes_account by metis
  from get_answered [OF i(7,3,6)] 2 i(5) obtain e where
    "secrets_of w' = secrets_of w" "check_process Unmarshal_response rq p None = Inl e" "wsl_category e = ErrNotFound"
    "\<not> err_is e Canceled" by auto
  with i(1,2) show ?case by (auto simp: wsl2_Get_def missing_portable)
next
  case (3 w a v)
  then obtain rq p rp w' where i:
    "run_state (invoke Unmarshal_response WithTimeout (Some k) Background operationSet a (Some (base64_encode v))) w =
       (check_process Unmarshal_response rq p None, w')" "good w'"
    "rq_Operation rq = operationSet" "rq_Secret rq = Some (base64_encode v)" "credential_of entry rq = entry (bridge_target (w_service k) a)"
    "printed p rp" "helper_answers entry (secrets_of w) rq rp (secrets_of w')"
    using invokes_account [where op = operationSet and sec = "Some (base64_encode v)"] by metis
  from set_answered [OF i(7,3,6,4)] obtain res where
    "secrets_of w' = (secrets_of w)(credential_of entry rq \<mapsto> v)" "check_process Unmarshal_response rq p None = Inr res" by blast
  with i(1,2,5) 3 show ?case by (auto simp: wsl2_Set_def maxSecretBytes_def)
next
  case (4 w a v)
  then obtain rq p rp w' where i:
    "run_state (invoke Unmarshal_response WithTimeout (Some k) Background operationDelete a None) w =
       (check_process Unmarshal_response rq p None, w')" "good w'"
    "rq_Operation rq = operationDelete" "rq_Secret rq = None" "credential_of entry rq = entry (bridge_target (w_service k) a)"
    "printed p rp" "helper_answers entry (secrets_of w) rq rp (secrets_of w')"
    using invokes_account by metis
  from delete_answered [OF i(7,3,6)] 4 i(5) obtain res where
    "secrets_of w' = (secrets_of w)(entry (bridge_target (w_service k) a) := None)" "check_process Unmarshal_response rq p None = Inr res"
    "Deleted res = Some True" by auto
  with i(1,2) show ?case by (auto simp: wsl2_Delete_def)
next
  case (5 w a)
  then obtain rq p rp w' where i:
    "run_state (invoke Unmarshal_response WithTimeout (Some k) Background operationDelete a None) w =
       (check_process Unmarshal_response rq p None, w')" "good w'"
    "rq_Operation rq = operationDelete" "rq_Secret rq = None" "credential_of entry rq = entry (bridge_target (w_service k) a)"
    "printed p rp" "helper_answers entry (secrets_of w) rq rp (secrets_of w')"
    using invokes_account by metis
  from delete_answered [OF i(7,3,6)] 5 i(5) have m: "secrets_of w' = secrets_of w"
    and "(\<exists>res. check_process Unmarshal_response rq p None = Inr res \<and> Deleted res = Some False)
       \<or> (\<exists>e. check_process Unmarshal_response rq p None = Inl e \<and> wsl_category e = ErrNotFound \<and> \<not> err_is e Canceled)"
    by auto
  moreover have "err_is (portable_of (Wsl W_ErrNotFound)) (Category ErrNotFound)"
    by (rule missing_portable) (simp_all add: wsl_category_def)
  ultimately show ?case using i(1,2) by (auto simp: wsl2_Delete_def missing_portable)
qed

lemma requests_refine:
  assumes "good w" and "\<forall>r\<in>set rs. acceptable (bridge_valid (w_service k)) (\<lambda>_ v. length v \<le> 2560) r"
    and "spec_run (\<lambda>a. entry (bridge_target (w_service k) a)) rs (secrets_of w) = (as, m)"
  shows "\<exists>w'. run_state (impl_run (wsl2_Get Unmarshal_response WithTimeout (Some k) Background)
       (wsl2_Set Unmarshal_response WithTimeout (Some k) Background)
       (wsl2_Delete Unmarshal_response WithTimeout (Some k) Background) rs) w = (as, w') \<and> secrets_of w' = m"
  using keyring.run_refines [OF assms] by blast

lemma accounts_collide:
  assumes "good w" and "to_valid a = to_valid b" and "bridge_valid (w_service k) a" and "CHR 0x00 \<notin> set b"
    and "length v \<le> 2560"
  shows "\<exists>w1 w2 w3 e w4. run_state (wsl2_Set Unmarshal_response WithTimeout (Some k) Background a v) w = (None, w1)
     \<and> run_state (wsl2_Get Unmarshal_response WithTimeout (Some k) Background b) w1 = (Inr v, w2)
     \<and> run_state (wsl2_Delete Unmarshal_response WithTimeout (Some k) Background b) w2 = (None, w3)
     \<and> run_state (wsl2_Get Unmarshal_response WithTimeout (Some k) Background a) w3 = (Inl e, w4)
     \<and> err_is e (Category ErrNotFound)"
proof -
  let ?t = "entry (bridge_target (w_service k) a)"
  have b: "bridge_valid (w_service k) b" "entry (bridge_target (w_service k) b) = ?t"
    using assms(2-4) by (simp_all add: bridge_valid_def bridge_target_def)
  obtain w1 where 1: "run_state (wsl2_Set Unmarshal_response WithTimeout (Some k) Background a v) w = (None, w1)"
      "good w1" "secrets_of w1 ?t = Some v"
    using keyring.set_stores [OF assms(1,3,5)] by fastforce
  obtain w2 where 2: "run_state (wsl2_Get Unmarshal_response WithTimeout (Some k) Background b) w1 = (Inr v, w2)"
      "good w2" "secrets_of w2 ?t = Some v"
    using keyring.get_found [OF 1(2) b(1)] 1(3) b(2) by fastforce
  obtain w3 where 3: "run_state (wsl2_Delete Unmarshal_response WithTimeout (Some k) Background b) w2 = (None, w3)"
      "good w3" "secrets_of w3 ?t = None"
    using keyring.delete_found [OF 2(2) b(1)] 2(3) b(2) by fastforce
  obtain e w4 where "run_state (wsl2_Get Unmarshal_response WithTimeout (Some k) Background a) w3 = (Inl e, w4)"
      "err_is e (Category ErrNotFound)"
    using keyring.get_missing [OF 3(2) assms(3) 3(3)] by blast
  with 1 2 3 show ?thesis by blast
qed

end

section \<open>A helper in memory\<close>

type_synonym secrets = "string \<rightharpoonup> bytes"

definition member :: "(string \<times> json) list \<Rightarrow> string \<Rightarrow> string option" where
  "member ms n = (case map_of ms n of Some (J_string s) \<Rightarrow> Some s | _ \<Rightarrow> None)"

definition text_member :: "(string \<times> json) list \<Rightarrow> string \<Rightarrow> string" where
  "text_member ms n = (case member ms n of None \<Rightarrow> '''' | Some s \<Rightarrow> s)"

definition read_request :: "bytes \<Rightarrow> helper_request option" where
  "read_request b =
     (case read_json b of
        Some (J_object ms) \<Rightarrow>
          Some \<lparr>rq_Protocol = text_member ms ''protocol'', rq_RequestID = text_member ms ''request_id'',
            rq_Operation = text_member ms ''operation'', rq_Service = text_member ms ''service'',
            rq_Account = text_member ms ''account'', rq_Secret = member ms ''secret_b64''\<rparr>
      | _ \<Rightarrow> None)"

lemma read_request_json: "read_json b = Some (request_json rq) \<Longrightarrow> read_request b = Some rq"
  by (cases rq) (auto simp: read_request_def request_json_def text_member_def member_def omitempty_def omitnil_def
      split: option.split)

definition mem_answer :: "helper_request \<Rightarrow> secrets \<Rightarrow> helper_response \<times> secrets" where
  "mem_answer rq m =
     (if rq_Operation rq = operationProbe then (supports rq ''1.0'' [protocolID], m)
      else if rq_Operation rq = operationGet
      then (case m (credential_of no_case rq) of
          None \<Rightarrow> (lacks rq ''no such credential'', m)
        | Some v \<Rightarrow> (succeeds rq (Some (base64_encode v)) None, m))
      else if rq_Operation rq = operationSet
      then (case base64_decode True (the (rq_Secret rq)) of
          Inl e \<Rightarrow> (lacks rq ''bad secret'', m)
        | Inr v \<Rightarrow> (succeeds rq None None, m(credential_of no_case rq \<mapsto> v)))
      else (succeeds rq None (Some (m (credential_of no_case rq) \<noteq> None)), m(credential_of no_case rq := None)))"

definition mem_helper :: "secrets runFunc" where
  "mem_helper ctx path input = State (\<lambda>m.
     (case read_request (butlast input) of
        None \<Rightarrow> (\<lparr>pr_output = [], pr_exitCode = 2, pr_err = None\<rparr>, m)
      | Some rq \<Rightarrow>
          (case mem_answer rq m of (rp, m') \<Rightarrow>
             (\<lparr>pr_output = write_value (response_json rp), pr_exitCode = (if rp_OK rp then 0 else 1), pr_err = None\<rparr>,
              m'))))"

definition mem_bridge :: "secrets wsl2_keyring" where
  "mem_bridge = \<lparr>w_service = ''mail'', w_helperPath = ''/mnt/c/bin/keyring-winbridge.exe'', w_timeout = defaultTimeout,
     w_run = Some mem_helper, w_requestID = Some (newRequestID (\<lambda>n. ret (Inr (replicate n (CHR 0x61))))),
     w_encode = Some encodeRequest\<rparr>"

definition mem_small :: "secrets \<Rightarrow> bool" where
  "mem_small m \<longleftrightarrow> (\<forall>slot v. m slot = Some v \<longrightarrow> length v \<le> 2560)"

lemma validated_operation:
  assumes "validateRequest rq = None"
  shows "rq_Operation rq = operationProbe \<or> rq_Operation rq = operationGet \<or> rq_Operation rq = operationDelete
     \<or> rq_Operation rq = operationSet \<and> rq_Secret rq \<noteq> None"
  using assms by (auto simp: validateRequest_def Let_def split: if_splits)

lemma valid_literals:
  "ValidString ''''" "ValidString ''1.0''" "ValidString ''not_found''" "ValidString ''no such credential''"
  "ValidString ''bad secret''" "ValidString protocolID" "ValidString backendName"
  by (simp_all add: ValidString.simps protocolID_def backendName_def)

lemma length_names: "length protocolID = 26" "length backendName = 26"
  by (simp_all add: protocolID_def backendName_def)

lemma base64_fits: "length v \<le> 2560 \<Longrightarrow> ValidString (base64_encode v) \<and> length (base64_encode v) \<le> 3416"
  by (auto simp: base64_valid)

text \<open>What the helper in memory answers is an answer, valid, and fits into a message.\<close>

lemma mem_answer_answers:
  assumes "request_ok rq" and "mem_small m" and "mem_answer rq m = (rp, m')"
  shows "helper_answers no_case m rq rp m' \<and> mem_small m' \<and> clean_response rp
     \<and> json_bound (response_json rp) \<le> maxMessageBytes"
proof -
  have rid: "length (rq_RequestID rq) \<le> 32" "ValidString (rq_RequestID rq)" "rq_Protocol rq = protocolID"
    using assms(1) by (auto simp: request_ok_def)
  have succ: "clean_response (succeeds rq sec del) \<and> json_bound (response_json (succeeds rq sec del)) \<le> maxMessageBytes"
    if "case sec of None \<Rightarrow> True | Some s \<Rightarrow> ValidString s \<and> length s \<le> 3416" for sec del
    using that rid
    by (cases sec; cases del)
      (simp_all add: clean_response_def succeeds_def clean_result_def valid_literals length_names
        response_json_def result_json_def omitempty_def omitnil_def omitslice_def maxMessageBytes_def)
  have lack: "clean_response (lacks rq t) \<and> json_bound (response_json (lacks rq t)) \<le> maxMessageBytes"
    if "ValidString t" "length t \<le> 100" for t
    using that rid
    by (simp add: clean_response_def lacks_def clean_error_def valid_literals length_names
        response_json_def error_json_def omitempty_def omitnil_def omitslice_def maxMessageBytes_def)
  have supp: "clean_response (supports rq ''1.0'' [protocolID])
      \<and> json_bound (response_json (supports rq ''1.0'' [protocolID])) \<le> maxMessageBytes"
    using rid
    by (simp add: clean_response_def supports_def clean_result_def valid_literals length_names
        response_json_def result_json_def omitempty_def omitnil_def omitslice_def maxMessageBytes_def)
  consider (p) "rq_Operation rq = operationProbe" | (g) "rq_Operation rq = operationGet"
    | (d) "rq_Operation rq = operationDelete" | (s) "rq_Operation rq = operationSet" "rq_Secret rq \<noteq> None"
    using validated_operation assms(1) unfolding request_ok_def by blast
  then show ?thesis
  proof cases
    case p
    with assms(2,3) supp helper_answers.greets [OF p, of "''1.0''" "[protocolID]"] show ?thesis
      by (simp add: mem_answer_def)
  next
    case g
    show ?thesis
    proof (cases "m (credential_of no_case rq)")
      case None
      with g assms(2,3) lack [of "''no such credential''"] 
        helper_answers.has_not [where entry = no_case and m = m and message = "''no such credential''", OF g None] show ?thesis
        by (auto simp: mem_answer_def operation_names valid_literals)
    next
      case (Some v)
      then have "length v \<le> 2560" using assms(2) unfolding mem_small_def by blast
      with base64_fits Some g assms(2,3) succ [of "Some (base64_encode v)" None] helper_answers.has [where entry = no_case and m = m, OF g Some] show ?thesis
        by (simp add: mem_answer_def operation_names)
    qed
  next
    case d
    then have a: "rp = succeeds rq None (Some (m (credential_of no_case rq) \<noteq> None))" "m' = m(credential_of no_case rq := None)"
      using assms(3) by (auto simp: mem_answer_def operation_names)
    have "helper_answers no_case m rq rp m'"
      using helper_answers.drops [OF d] helper_answers.drops_nothing [OF d]
      by (cases "m (credential_of no_case rq)") (auto simp: fun_upd_idem a)
    moreover have "mem_small m'" using assms(2) unfolding a mem_small_def by auto
    ultimately show ?thesis using succ [of None] a by simp
  next
    case s
    then obtain v where t: "rq_Secret rq = Some (base64_encode v)" "length v \<le> 2560"
      using assms(1) by (auto simp: request_ok_def secret_ok_def)
    with s assms(3) have a: "rp = succeeds rq None None" "m' = m(credential_of no_case rq \<mapsto> v)"
      by (auto simp: mem_answer_def operation_names base64_roundtrip)
    have "mem_small m'" using assms(2) t(2) unfolding a mem_small_def by auto
    with helper_answers.saves [OF s(1) t(1) base64_roundtrip] succ [of None None] a show ?thesis by simp
  qed
qed

interpretation mem_windows: windows_helper mem_bridge "\<lambda>x _. ret (x, ret ())" no_case "\<lambda>m. m" mem_small
proof (unfold_locales, goal_cases)
  case (8 w)
  have "ValidString (hex_EncodeToString (replicate 16 (CHR 0x61)))"
    using hex_chars by (intro conjunct1 [OF ascii_utf8]) force
  then show ?case using 8 length_hex [of "replicate 16 (CHR 0x61)"]
    by (simp add: mem_bridge_def newRequestID_def del: length_hex) fastforce
next
  case (9 w)
  then show ?case by (simp add: harmless_def)
next
  case (10 w rq line x)
  obtain rp m' where a: "mem_answer rq w = (rp, m')" by fastforce
  note ans = mem_answer_answers [OF 10(2,1) a]
  let ?p = "\<lparr>pr_output = write_value (response_json rp), pr_exitCode = (if rp_OK rp then 0 else 1), pr_err = None\<rparr>"
  have "run_state (the (w_run mem_bridge) x (w_helperPath mem_bridge) (line @ [CHR 10])) w = (?p, m')"
    using read_request_json [OF 10(3)] a by (simp add: mem_bridge_def mem_helper_def)
  moreover have "printed ?p rp"
    using ans Unmarshal_written [of rp] order_trans [OF length_write_value(1) [of "response_json rp"]]
    by (simp add: printed_def response_json_def)
  ultimately show ?case using ans by blast
next
  case (11 w slot v)
  then show ?case unfolding mem_small_def by blast
qed (simp_all add: mem_bridge_def defaultTimeout_def)

section \<open>Properties\<close>

text \<open>C27 Over any helper that answers as the protocol says on names and values within the limits of
  Windows (accounts of at most 513 and targets of at most 32767 UTF-16 code units, values of at
  most 2560 bytes), the WSL2 keyring answers every sequence of requests on such accounts and
  values as a map does whose entries are what the targets \<open>service:account\<close> designate in the
  manager (names it takes for the same are one entry, and so are accounts that differ in bytes
  that are not valid UTF-8): the JSON of requests and responses, identifiers, validation, limits, exit codes and
  error codes fit together, whichever of its two ways the helper chooses to report a deletion
  of nothing.\<close>

theorem wsl2_refines_map:
  assumes "windows_helper k WithTimeout entry secrets_of good" and "good w"
    and "\<forall>r\<in>set rs. acceptable (bridge_valid (w_service k)) (\<lambda>_ v. length v \<le> 2560) r"
    and "spec_run (\<lambda>a. entry (bridge_target (w_service k) a)) rs (secrets_of w) = (as, m)"
  shows "\<exists>w'. run_state (impl_run (wsl2_Get Unmarshal_response WithTimeout (Some k) Background)
       (wsl2_Set Unmarshal_response WithTimeout (Some k) Background)
       (wsl2_Delete Unmarshal_response WithTimeout (Some k) Background) rs) w = (as, w') \<and> secrets_of w' = m"
  using assms by (rule windows_helper.requests_refine)

lemma bridge_valid_ascii:
  assumes "service \<noteq> ''''" "key \<noteq> ''''" "length key \<le> 513" "length service + length key < 32767"
    and "\<forall>c\<in>set (service @ key). c \<noteq> CHR 0x00 \<and> byte_num c < 0x80"
  shows "bridge_valid service key" "bridge_target service key = win_target service key"
  using win_valid_ascii [OF assms] by (simp_all add: bridge_utf8 win_valid_def validatedTarget_Inr win_target_def)

lemma mem_bob_valid: "bridge_valid (w_service mem_bridge) ''bob''"
  by (rule bridge_valid_ascii; simp add: mem_bridge_def)

theorem wsl2_refines_map_witness:
  "\<exists>w'. run_state (impl_run (wsl2_Get Unmarshal_response (\<lambda>x _. ret (x, ret ())) (Some mem_bridge) Background)
       (wsl2_Set Unmarshal_response (\<lambda>x _. ret (x, ret ())) (Some mem_bridge) Background)
       (wsl2_Delete Unmarshal_response (\<lambda>x _. ret (x, ret ())) (Some mem_bridge) Background)
       [Set_req ''bob'' ''v'', Get_req ''bob'', Delete_req ''bob'', Delete_req ''bob'']) Map.empty
     = ([Done_ok, Value ''v'', Done_ok, Missing], w')"
proof -
  let ?rs = "[Set_req ''bob'' ''v'', Get_req ''bob'', Delete_req ''bob'', Delete_req ''bob'']"
  have g: "mem_small Map.empty" by (simp add: mem_small_def)
  have a: "\<forall>r\<in>set ?rs. acceptable (bridge_valid (w_service mem_bridge)) (\<lambda>_ v. length v \<le> 2560) r"
    by (simp add: mem_bob_valid)
  have s: "spec_run (\<lambda>a. no_case (bridge_target (w_service mem_bridge) a)) ?rs Map.empty =
      ([Done_ok, Value ''v'', Done_ok, Missing], Map.empty(no_case (bridge_target (w_service mem_bridge) ''bob'') := None))"
    by (simp del: list.map)
  show ?thesis
    using wsl2_refines_map [where entry = no_case and secrets_of = "\<lambda>m. m", OF mem_windows.windows_helper_axioms g a s]
    by blast
qed

end
