(* ===== verification/Wsl2_Open.thy ===== *)
theory Wsl2_Open
  imports Secure_Open Wsl2_Contract
begin

text \<open>
  Opening and using the helper's keyring on WSL2, and what its accounts are told apart by.
\<close>

section \<open>New\<close>

definition new_keyring ::
  "string \<Rightarrow> string \<Rightarrow> 'w runFunc \<Rightarrow> (nat \<Rightarrow> ('w, go_error + bytes) state) \<Rightarrow> 'w wsl2_keyring" where
  "new_keyring service helperPath runProcess ReadFull =
     \<lparr>w_service = service, w_helperPath = helperPath, w_timeout = defaultTimeout, w_run = Some runProcess,
      w_requestID = Some (newRequestID ReadFull), w_encode = Some encodeRequest\<rparr>"

lemma new_keyring_service [simp]: "w_service (new_keyring service p r f) = service"
  by (simp add: new_keyring_def)

lemma wsl2_New_opens:
  assumes helper: "windows_helper (new_keyring service helperPath runProcess ReadFull) WithTimeout entry secrets_of good"
    and "good w" and "harmless secrets_of good IsWSL2 True"
    and "harmless secrets_of good (lookPath executableName) (Inr helperPath)"
  shows "\<exists>w'. run_state (wsl2_New Unmarshal_response WithTimeout IsWSL2 lookPath runProcess ReadFull encodeRequest
         Background service) w = (Inr (new_keyring service helperPath runProcess ReadFull), w')
       \<and> good w' \<and> secrets_of w' = secrets_of w"
proof -
  let ?k = "new_keyring service helperPath runProcess ReadFull"
  have service: "service \<noteq> ''''" "CHR 0x00 \<notin> set service"
    using windows_helper.configured(6,7) [OF helper] by simp_all
  obtain w1 where w1: "run_state IsWSL2 w = (True, w1)" "good w1" "secrets_of w1 = secrets_of w"
    using assms(2,3) unfolding harmless_def by blast
  obtain w2 where w2: "run_state (lookPath executableName) w1 = (Inr helperPath, w2)" "good w2"
    "secrets_of w2 = secrets_of w1"
    using assms(4) w1(2) unfolding harmless_def by blast
  obtain w3 where w3: "run_state (wsl2_probe Unmarshal_response WithTimeout (Some ?k) Background) w2 = (None, w3)"
    "good w3" "secrets_of w3 = secrets_of w2"
    using windows_helper.probes [OF helper w2(2)] by blast
  have "run_state (wsl2_New Unmarshal_response WithTimeout IsWSL2 lookPath runProcess ReadFull encodeRequest
      Background service) w = (Inr ?k, w3)"
    using service w3(1) unfolding new_keyring_def
    by (simp add: wsl2_New_def Background_def ContextError_def w1(1) w2(1) Let_def)
  with w1 w2 w3 show ?thesis by simp
qed

section \<open>Properties\<close>

text \<open>C17 Opening and using, end to end, inside WSL2: when the kernel release names WSL2, the helper is
  found and answers as the protocol says on names and values within the limits of Windows, \<open>Open\<close>
  with a service name selects Windows Credential Manager on the Windows host, not as a fallback,
  and the operations of what it returns answer every sequence of requests on accounts and values
  within those limits as a map does whose entries are what the targets \<open>service:account\<close>
  designate in the manager.\<close>

theorem secure_wsl2_then_use:
  assumes "sw_os sw = Linux"
    and "windows_helper (new_keyring service helperPath (sw_runProcess sw) (sw_ReadFull sw))
           (nw_WithTimeout (sw_native sw)) entry secrets_of good"
    and "good w" and "harmless secrets_of good (isWSL2 (sw_readKernelRelease sw)) True"
    and "harmless secrets_of good (sw_lookPath sw executableName) (Inr helperPath)"
    and "\<forall>r\<in>set rs. acceptable (bridge_valid service) (\<lambda>_ v. length v \<le> 2560) r"
    and "spec_run (\<lambda>a. entry (bridge_target service a)) rs (secrets_of w) = (as, m)"
  shows "\<exists>k w1 w2. run_state (secure_Open sw Background
         [Some \<lparr>so_Service = service, so_Keyringer = None, so_Backends = []\<rparr>]) w = (Inr (k, wsl2_info), w1)
     \<and> run_state (impl_run (kr_Get (secure_methods sw k) Background) (kr_Set (secure_methods sw k) Background)
         (kr_Delete (secure_methods sw k) Background) rs) w1 = (as, w2) \<and> secrets_of w2 = m"
proof -
  let ?opt = "\<lparr>so_Service = service, so_Keyringer = None, so_Backends = []\<rparr>"
  let ?k = "new_keyring service helperPath (sw_runProcess sw) (sw_ReadFull sw)"
  have service: "service \<noteq> ''''"
    using windows_helper.configured(6) [OF assms(2)] by simp
  obtain w0 where w0: "run_state (isWSL2 (sw_readKernelRelease sw)) w = (True, w0)" "good w0"
    "secrets_of w0 = secrets_of w" using assms(3,4) unfolding harmless_def by blast
  obtain w1 where w1: "run_state (wsl2_New Unmarshal_response (nw_WithTimeout (sw_native sw))
      (isWSL2 (sw_readKernelRelease sw)) (sw_lookPath sw) (sw_runProcess sw) (sw_ReadFull sw) encodeRequest
      Background service) w0 = (Inr ?k, w1)" "good w1" "secrets_of w1 = secrets_of w0"
    using wsl2_New_opens [where lookPath = "sw_lookPath sw", OF assms(2) w0(2) assms(4,5)] by blast
  have "linux_registry sw ?opt BackendWindowsCredentialManager = Some (open_wsl2 sw ?opt)"
    by (simp add: linux_registry_def backend_defs)
  then have a: "run_state (attempt Background (linux_registry sw ?opt) BackendWindowsCredentialManager) w0
      = (Selected (Secure_wsl2 ?k) wsl2_info, w1)"
    using w1(1) by (simp add: attempt_def open_wsl2_def)
  have "run_state (linux_order sw ?opt) w
      = ([BackendWindowsCredentialManager, BackendSecretService, BackendKernelKeyring], w0)"
    using w0(1) by (simp add: linux_order_def)
  then have o: "run_state (secure_Open sw Background [Some ?opt]) w = (Inr (Secure_wsl2 ?k, wsl2_info), w1)"
    using assms(1) service
    by (simp add: secure_Open_def secure_mergeOptions_def secure_getter_def linuxGetter_Get_def SelectBackend_def
        select_loop_attempt a wsl2_info_def)
  have spec: "spec_run (\<lambda>a. entry (bridge_target (w_service ?k) a)) rs (secrets_of w1) = (as, m)" using assms(7) w0 w1 by simp
  have valid: "\<forall>r\<in>set rs. acceptable (bridge_valid (w_service ?k)) (\<lambda>_ v. length v \<le> 2560) r" using assms(6) by simp
  from windows_helper.requests_refine [OF assms(2) w1(2) valid spec] obtain w2 where
    "run_state (impl_run (kr_Get (secure_methods sw (Secure_wsl2 ?k)) Background)
       (kr_Set (secure_methods sw (Secure_wsl2 ?k)) Background)
       (kr_Delete (secure_methods sw (Secure_wsl2 ?k)) Background) rs) w1 = (as, w2)" "secrets_of w2 = m"
    by (auto simp: secure_methods_def)
  with o show ?thesis by blast
qed

text \<open>A WSL2 system with the helper in memory.\<close>

definition demo_wsl2 :: "secrets secure_world" where
  "demo_wsl2 =
     \<lparr>sw_os = Linux,
      sw_native = \<lparr>nw_WithTimeout = (\<lambda>x _. ret (x, ret ())),
        nw_bus = no_session_bus,
        nw_Quote = (\<lambda>s. s), nw_security = (\<lambda>_ _ _. ret ('''', None)),
        nw_wincred = \<lparr>GetGenericCredential = (\<lambda>_. ret (Inl (WinError ErrElementNotFound))),
          WriteGeneric = (\<lambda>_ _ _. ret None), DeleteGeneric = (\<lambda>_. ret None)\<rparr>\<rparr>,
      sw_keyctl = \<lparr>getKeyringID = (\<lambda>_ _. ret (Inl (Errno ENOKEY))), searchKey = (\<lambda>_ _ _ _. ret (Inl (Errno ENOKEY))),
        addKey = (\<lambda>_ _ _ _. ret (Inl (Errno ENOKEY))), keyctlBuffer = (\<lambda>_ _ _ _. ret (Inl (Errno ENOKEY))),
        keyctlInt = (\<lambda>_ _ _ _ _. ret (Inl (Errno ENOKEY)))\<rparr>,
      sw_fuel = 1, sw_readKernelRelease = ret (Inr ''5.15.146.1-microsoft-standard-WSL2''),
      sw_lookPath = (\<lambda>_. ret (Inr ''/mnt/c/bin/keyring-winbridge.exe'')), sw_runProcess = mem_helper,
      sw_ReadFull = (\<lambda>n. ret (Inr (replicate n (CHR 0x61))))\<rparr>"

lemma demo_release: "isKernelRelease ''5.15.146.1-microsoft-standard-WSL2''"
  by code_simp

lemma mail_names:
  "bridge_valid ''mail'' ''bob''" "bridge_valid ''mail'' ''eve''"
  "no_case (bridge_target ''mail'' ''eve'') \<noteq> no_case (bridge_target ''mail'' ''bob'')"
proof -
  show "bridge_valid ''mail'' ''bob''" "bridge_valid ''mail'' ''eve''" by (rule bridge_valid_ascii; simp)+
  have "bridge_target ''mail'' ''bob'' = win_target ''mail'' ''bob''"
    "bridge_target ''mail'' ''eve'' = win_target ''mail'' ''eve''" by (rule bridge_valid_ascii; simp)+
  then show "no_case (bridge_target ''mail'' ''eve'') \<noteq> no_case (bridge_target ''mail'' ''bob'')"
    by (simp add: win_target_def lower_byte_def)
qed

theorem secure_wsl2_then_use_witness:
  "\<exists>k w1 w2. run_state (secure_Open demo_wsl2 Background
       [Some \<lparr>so_Service = ''mail'', so_Keyringer = None, so_Backends = []\<rparr>]) Map.empty = (Inr (k, wsl2_info), w1)
     \<and> run_state (impl_run (kr_Get (secure_methods demo_wsl2 k) Background)
         (kr_Set (secure_methods demo_wsl2 k) Background) (kr_Delete (secure_methods demo_wsl2 k) Background)
         [Set_req ''bob'' ''v'', Get_req ''bob'', Get_req ''eve'']) w1 = ([Done_ok, Value ''v'', Missing], w2)"
proof -
  let ?rs = "[Set_req ''bob'' ''v'', Get_req ''bob'', Get_req ''eve'']"
  have k: "windows_helper (new_keyring ''mail'' ''/mnt/c/bin/keyring-winbridge.exe'' (sw_runProcess demo_wsl2)
      (sw_ReadFull demo_wsl2)) (nw_WithTimeout (sw_native demo_wsl2)) no_case (\<lambda>m. m) mem_small"
    using mem_windows.windows_helper_axioms by (simp add: new_keyring_def demo_wsl2_def mem_bridge_def)
  have g: "mem_small Map.empty" by (simp add: mem_small_def)
  have inside: "harmless (\<lambda>m. m) mem_small (isWSL2 (sw_readKernelRelease demo_wsl2)) True"
    by (simp add: harmless_def isWSL2_def demo_wsl2_def demo_release)
  have path: "harmless (\<lambda>m. m) mem_small (sw_lookPath demo_wsl2 executableName)
      (Inr ''/mnt/c/bin/keyring-winbridge.exe'')"
    by (simp add: harmless_def demo_wsl2_def)
  have a: "\<forall>r\<in>set ?rs. acceptable (bridge_valid ''mail'') (\<lambda>_ v. length v \<le> 2560) r"
    using mail_names(1,2) by simp
  have s: "spec_run (\<lambda>a. no_case (bridge_target ''mail'' a)) ?rs Map.empty
      = ([Done_ok, Value ''v'', Missing], [no_case (bridge_target ''mail'' ''bob'') \<mapsto> ''v''])"
    using mail_names(3) by (simp del: list.map)
  have os: "sw_os demo_wsl2 = Linux" by (simp add: demo_wsl2_def)
  show ?thesis
    using secure_wsl2_then_use [where entry = no_case and secrets_of = "\<lambda>m. m" and w = Map.empty, OF os k g inside path a s] by blast
qed

section \<open>Accounts that are not valid UTF-8\<close>

text \<open>C34 Two accounts can be one credential: accounts that differ only in bytes that are not valid UTF-8
  pass validation, and over any helper that answers as the protocol says within the limits of
  Windows, a \<open>Set\<close> for the one succeeds, \<open>Get\<close> for the other returns that value, \<open>Delete\<close> for the
  other succeeds, and then the first is missing.\<close>

theorem wsl2_accounts_collide:
  assumes "windows_helper k WithTimeout entry secrets_of good" and "good w"
    and "to_valid a = to_valid b" and "bridge_valid (w_service k) a" and "CHR 0x00 \<notin> set b" and "length v \<le> 2560"
  shows "\<exists>w1 w2 w3 e w4. run_state (wsl2_Set Unmarshal_response WithTimeout (Some k) Background a v) w = (None, w1)
     \<and> run_state (wsl2_Get Unmarshal_response WithTimeout (Some k) Background b) w1 = (Inr v, w2)
     \<and> run_state (wsl2_Delete Unmarshal_response WithTimeout (Some k) Background b) w2 = (None, w3)
     \<and> run_state (wsl2_Get Unmarshal_response WithTimeout (Some k) Background a) w3 = (Inl e, w4)
     \<and> err_is e (Category ErrNotFound)"
  using assms by (rule windows_helper.accounts_collide)

theorem wsl2_accounts_collide_witness:
  "\<exists>w1 w2. run_state (wsl2_Set Unmarshal_response (\<lambda>x _. ret (x, ret ())) (Some mem_bridge) Background [CHR 0xFF] ''v'')
       Map.empty = (None, w1)
     \<and> run_state (wsl2_Get Unmarshal_response (\<lambda>x _. ret (x, ret ())) (Some mem_bridge) Background [CHR 0xFE]) w1
       = (Inr ''v'', w2)"
proof -
  have g: "mem_small Map.empty" by (simp add: mem_small_def)
  have j: "to_valid [CHR 0xFF] = to_valid [CHR 0xFE]" by code_simp
  have r: "to_valid [CHR 0xFF] = [CHR 0xEF, CHR 0xBF, CHR 0xBD]" by (simp add: to_valid.simps or_else_def)
  have "win_valid ''mail'' (to_valid [CHR 0xFF])"
    unfolding r by (simp add: win_valid_def validatedTarget_Inr win_target_def ValidString.simps runes.simps
        utf16Units_def utf16_length_def utf16_len_def or_else_def decode2_def decode3_def continuation_def
        maxUsernameUnits_def maxGenericTargetUnits_def)
  then have v: "bridge_valid (w_service mem_bridge) [CHR 0xFF]" by (simp add: bridge_valid_def mem_bridge_def)
  show ?thesis
    using wsl2_accounts_collide [where entry = no_case and secrets_of = "\<lambda>m. m" and v = "''v''",
        OF mem_windows.windows_helper_axioms g j v] by simp blast
qed

end
