(* ===== verification/Spec2Isabelle.thy ===== *)
theory Spec2Isabelle
  imports Cli Fs_Shared Fake Keychain Open_Fallback Wsl2_Open
begin

text \<open>
  Verification development for \<open>common.queueb.org/keyring\<close>, a Go library that keeps small
  secrets in the credential stores of the operating system.

  \<^bold>\<open>The program.\<close> A caller opens a keyring with \<open>keyring.Open\<close> (package at the root) or
  \<open>secure.Open\<close> (package \<open>secure\<close>). Both merge their options, build a registry of openers and an
  order of backends, and let \<open>internal/selection\<close> try them: an opener that fails as unavailable
  or unsupported is recorded and skipped, any other failure ends the search. What is returned
  implements the interface \<open>Keyringer\<close> (\<open>Get\<close>, \<open>Set\<close>, \<open>Delete\<close>) and comes with a description of
  the selected backend. The backends are the Secret Service over D-Bus, the Linux kernel keyring,
  macOS Keychain through the \<open>security\<close> tool, Windows Credential Manager, the same manager from
  WSL2 through a helper process, and a directory of files. A fake for tests and an example
  command line complete the repository.

  \<^bold>\<open>Reading the model.\<close> An operation with effects is an action \<open>('w, 'a) state\<close> of
  \<open>HOL-Library.State_Monad\<close>; the world \<open>'w\<close> is a type variable. What is not Go code of the
  repository (system calls, the bus, the helper process, third-party packages) is an argument of
  the definitions: a record of actions per interface, named after the calls. A Go error is a tree
  of the datatype \<open>go_error\<close> and \<open>errors.Is\<close> is \<open>err_is\<close>; a result with an error is
  \<open>go_error + 'a\<close>, an error alone \<open>go_error option\<close>. A panic is the error value \<open>GoPanic\<close>, so that a
  deferred function still runs on it. Go integers that wrap or are read bitwise are words; counts
  that the code adds to lengths are \<open>int\<close> or \<open>nat\<close>. Format strings are kept in the error trees
  and not expanded, except where the code inspects the text.

  \<^bold>\<open>Theories and sources.\<close>

    \<^item> \<open>Prelude\<close>, \<open>Go_Errors\<close>, \<open>Go_Strings\<close>, \<open>Encoding\<close>, \<open>Paths\<close>, \<open>Utf8\<close>, \<open>Sha256\<close>: run equations of
      actions and the recorder; the error trees with \<open>errors.Is\<close>, \<open>Join\<close> and type search; what the
      repository uses of \<open>strings\<close>, \<open>strconv\<close>, \<open>hex\<close>, \<open>base64\<close>, \<open>path/filepath\<close>, \<open>unicode/utf8\<close> and
      \<open>crypto/sha256\<close>.
    \<^item> \<open>Contract\<close> (\<open>internal/contract\<close>): contexts and \<open>ContextError\<close>, the description record \<open>info\<close>,
      selection errors, the interface \<open>keyringer\<close>.
    \<^item> \<open>Keyringer\<close>: the contract of the interface as the locale \<open>keyringer_contract\<close>, against the
      reference \<open>spec_run\<close>, a plain map.
    \<^item> \<open>Selection\<close> (\<open>internal/selection\<close>): \<open>SelectBackend\<close>.
    \<^item> \<open>Fs_Mount\<close> (\<open>mount_linux.go\<close>), \<open>Fs_Layout\<close> (\<open>layout.go\<close>), \<open>Fs_Directory\<close>
      (\<open>directory_linux.go\<close>), \<open>Fs_Storage\<close> (\<open>storage_linux.go\<close>), \<open>Fs_Keyring\<close> (\<open>keyring.go\<close> and
      \<open>secure/fs\<close>): the filesystem backend from the mount policy up to the locks. \<open>Fs_Atomic\<close> states
      what a replacement looks like from outside, \<open>Fs_Shared\<close> what any number of operations on one
      directory do together, \<open>Fs_Contract\<close> that the backend is a map.
    \<^item> \<open>Dbus\<close> (\<open>internal/backend/dbus\<close>), \<open>Keyctl\<close> (\<open>internal/backend/keyctl\<close>), \<open>Windows\<close>
      (\<open>internal/backend/windows\<close>), \<open>Darwin\<close> (\<open>internal/backend/darwin\<close>), \<open>Iox\<close> (\<open>internal/iox\<close>),
      \<open>Wsl2_Protocol\<close> and \<open>Wsl2\<close> (\<open>secure/wsl2\<close>), \<open>Fake\<close> (\<open>secure/fake\<close>): the other backends.
      \<open>Keychain\<close> and \<open>Wsl2_Contract\<close> state that two of them are maps.
    \<^item> \<open>Json\<close> and \<open>Wsl2_Json\<close>: \<open>encoding/json\<close> as the helper protocol uses it, from the text of
      strings and values up to the structs and tags of \<open>secure/wsl2/protocol.go\<close> and \<open>errors.go\<close>.
    \<^item> \<open>Native\<close> (\<open>internal/backend/native\<close>): which adapter each build constraint selects.
    \<^item> \<open>Open\<close> (the root package) and \<open>Secure_Open\<close> (package \<open>secure\<close>): options, registries, orders,
      \<open>Open\<close> and the operations of the keyring it returns, for each class of targets;
      \<open>Open_Fallback\<close> and \<open>Wsl2_Open\<close> follow two selections to the end, the fallback directory and
      the Windows helper.
    \<^item> \<open>Cli\<close> (\<open>examples/keyring-cli\<close>): the handlers of the three commands, the hook that opens the
      keyring before them, and \<open>main\<close>.

  \<^bold>\<open>What the lemmas show.\<close>

    \<^item> \<^emph>\<open>Refinement.\<close> The fake keeps \<open>keyringer_contract\<close> outright; the Secret Service, kernel
      keyring, Credential Manager, Keychain, WSL2 and filesystem adapters keep it over any outside
      world that behaves as documented. That behaviour is a locale each (\<open>secret_service\<close>,
      \<open>kernel_keyring\<close>, \<open>credential_manager\<close>, \<open>security_tool\<close>, \<open>windows_helper\<close>, \<open>linux_kernel\<close> with
      \<open>locked_kernel\<close>), and each is interpreted on an in-memory service. From the contract the
      answers to any sequence of requests are those of a map; the compositions
      \<open>root_open_then_use\<close>, \<open>root_fallback_then_use\<close>, \<open>secure_open_then_use\<close>, \<open>secure_wsl2_then_use\<close>,
      \<open>cli_lifecycle\<close> and \<open>fake_predicts_secret_service\<close> carry this through selection, the commands
      and the fake.
    \<^item> \<^emph>\<open>Selection.\<close> The first candidate that opens is returned and everything before it is recorded;
      no failure but unavailable or unsupported is passed over; files are never used unless the
      caller configured a directory, and never by \<open>secure.Open\<close>; session storage comes last in the
      default order; the description always belongs to the keyring returned.
    \<^item> \<^emph>\<open>Files.\<close> Over an arbitrary system, with calls that fail anywhere and transfers of any size:
      a reader or a crash sees the old value or the new one; success means written, synced, renamed
      and synced; a failure before the rename removes the temporary file. Operations of any number of processes
      on one directory, interleaved call by call, are linearizable, given what the kernel promises
      of single calls (\<open>lawful\<close>): each takes effect at one call, and a reader gets one whole value.
      Paths stay below the root;
      a root on DrvFs is refused; a directory that is used is private to the effective user.
    \<^item> \<^emph>\<open>Resources and ordering.\<close> Every bus operation closes the connection it dialled once, last, and
      undoes its signal registrations; a prompt that was dismissed grants nothing; mutations of one key of the
      filesystem keyring exclude each other, cannot deadlock, and all finish.
    \<^item> \<^emph>\<open>Protocols and formats.\<close> A value from the WSL2 helper comes from a response that passed every
      check; requests and responses survive JSON in both directions; mountinfo lines and Keychain
      values round-trip; limits on commands, buffers and payloads hold.
    \<^item> \<^emph>\<open>Flaws.\<close> Some theorems state behaviour that the code hardly intends: on other Unix systems a
      keyring opens whose operations are all unsupported (\<open>root_other_unix_unusable\<close>), an unrelated
      signal fails a prompt (\<open>handlePrompt_granted\<close>), a failing first read panics
      (\<open>fs_read_failure_panics\<close>), a nil option panics (\<open>mergeOptions_last_wins\<close>), a newline in a key
      gives the \<open>security\<close> tool a second command (\<open>darwin_Set_extra_line\<close>), accounts that are not
      valid UTF-8 collide in Windows Credential Manager (\<open>wsl2_accounts_collide\<close>), and so do services
      with a colon (\<open>win_services_collide\<close>), and a mount whose source has a \<open>#\<close> makes mountinfo
      unreadable for the mount check (\<open>parseMountInfoLine_render\<close>).

  \<^bold>\<open>Bounds and fuel.\<close> \<open>createTemporary\<close> has the code's 128 attempts. \<open>ReadAll\<close> and \<open>writeAll\<close> take a
  fuel, \<open>loop_fuel\<close> of the storage. A write that makes progress needs none; the fuel counts only
  negative counts without an error, which no system call returns. A read needs more fuel than the
  file has bytes, since every round but the last transfers at least one: \<open>at_rest\<close> and the
  \<open>accepts\<close> predicate of the contract say so. The theorems over arbitrary systems hold for every
  fuel; running out is an error value of its own. \<open>readKeyContents\<close> of the kernel keyring takes a
  fuel too; \<open>readKeyContents_snapshot\<close> shows that a fuel beyond the largest payload is never used
  up. The JSON reader's fuel is one more than twice the length of the text; \<open>read_fuel\<close> shows that
  more changes nothing. The buffer growth of \<open>io.ReadAll\<close> (\<open>room\<close>) is arbitrary.

  \<^bold>\<open>Not modelled.\<close> The parsing of the command line by cobra, the shell quoting library, the wincred and godbus packages beyond the calls the code makes, tests and scripts. Of
  \<open>encoding/json\<close>, the texts of its errors and the elements a slice keeps beyond its end when a
  key is repeated.
  Concurrency appears where the repository has mutexes of its own, as the step relation of
  \<open>Fs_Keyring\<close>, and where processes share the credential directory, as the interleavings of
  \<open>Fs_Shared\<close>; the mutex of the fake has its struct as the world of one action at a time. SHA-256 is
  computed but no collision resistance is assumed: keys that collide would share a file, and the
  refinement of the filesystem backend speaks of names, not keys.
\<close>

section \<open>Properties that span components\<close>

text \<open>C13 A test against the fake predicts the real backend: from stores that agree on a service, every
  sequence of requests on names and values the provider takes gets the same answers from the
  in-memory fake and from the Secret Service adapter, over any service with the documented
  behaviour in which no item of another program answers to a search for the keys of the service;
  and the stores agree again at the end.\<close>

theorem fake_predicts_secret_service:
  assumes "secret_service c Connect WithTimeout objects stored takes fits unlocked good" and "good w"
    and "clear stored (objects w) service" and "\<forall>r\<in>set rs. acceptable (takes service) (\<lambda>_. fits) r"
    and "Err fk = None" and "\<And>k. credentials (objects w) (service, k) = fake_view fk k"
  shows "\<exists>as w' fk'. run_state (impl_run (fake_Get Background) (fake_Set Background) (fake_Delete Background) rs) fk
       = (as, fk')
     \<and> run_state (impl_run (dbus_get WithTimeout Connect Background service)
         (dbus_set WithTimeout Connect Background service)
         (dbus_remove WithTimeout Connect Background service) rs) w = (as, w')
     \<and> (\<forall>k. credentials (objects w') (service, k) = fake_view fk' k)"
proof -
  obtain as m where s: "spec_run (Pair service) rs (credentials (objects w)) = (as, m)" by fastforce
  then obtain m' where f: "spec_run (\<lambda>u. u) rs (fake_view fk) = (as, m')"
    and m': "\<And>k. m (service, k) = m' k"
    using spec_run_slots [where slot = "Pair service" and slot' = "\<lambda>u. u" and m = "credentials (objects w)"
      and m' = "fake_view fk", OF _ _ assms(6) s] by (auto simp: inj_def)
  have "\<forall>r\<in>set rs. acceptable (\<lambda>_. True) (\<lambda>_ _. True) r"
    using acceptable.simps by (metis (full_types) request.exhaust)
  from fake_store.run_refines [OF _ this f] assms(5) obtain fk' where
    "run_state (impl_run (fake_Get Background) (fake_Set Background) (fake_Delete Background) rs) fk = (as, fk')"
    "fake_view fk' = m'" by (auto simp: fake_good_def)
  moreover obtain w' where
    "run_state (impl_run (dbus_get WithTimeout Connect Background service)
       (dbus_set WithTimeout Connect Background service)
       (dbus_remove WithTimeout Connect Background service) rs) w = (as, w')" "credentials (objects w') = m"
    using secret_service.requests_refine [OF assms(1-4) s] by blast
  ultimately show ?thesis using m' by metis
qed

theorem fake_predicts_secret_service_witness:
  "\<exists>as w' fk'. run_state (impl_run (fake_Get Background) (fake_Set Background) (fake_Delete Background)
         [Set_req ''k'' ''v'', Get_req ''k'']) \<lparr>Err = None, Service = [], storage = None\<rparr> = (as, fk')
     \<and> run_state (impl_run
         (dbus_get (\<lambda>x _. ret (x, ret ())) (\<lambda>_. ret (Inr mem_connection)) Background ''mail'')
         (dbus_set (\<lambda>x _. ret (x, ret ())) (\<lambda>_. ret (Inr mem_connection)) Background ''mail'')
         (dbus_remove (\<lambda>x _. ret (x, ret ())) (\<lambda>_. ret (Inr mem_connection)) Background ''mail'')
         [Set_req ''k'' ''v'', Get_req ''k'']) demo_items = (as, w')"
proof -
  have agree: "credentials (mem_objects demo_items) (''mail'', k) = fake_view \<lparr>Err = None, Service = [], storage = None\<rparr> k" for k
    by (simp add: demo_items_empty fake_view_def storage_get_def)
  have a: "\<forall>r\<in>set [Set_req ''k'' ''v'', Get_req ''k'']. acceptable (\<lambda>_. True) (\<lambda>_ _. True) r" by simp
  from fake_predicts_secret_service [OF mem_service.secret_service_axioms demo_items_good demo_items_clear a _ agree]
  show ?thesis by (simp del: impl_run.simps) blast
qed

end
